(* ===== verification/Rados_Prelude.thy ===== *)
theory Rados_Prelude
  imports Main "HOL-Library.Word" "HOL-Library.AList"
begin

text \<open>
  Shared vocabulary of the development: Rust's fixed-width unsigned integers as words, its
  signed integers as \<open>int\<close>, \<open>Result\<close> as a sum, little- and big-endian byte
  strings, and association lists for \<open>HashMap\<close> and \<open>BTreeMap\<close>.  A 64-bit
  target is assumed: \<open>usize\<close> is \<open>nat\<close>, and a conversion from \<open>u32\<close> to
  \<open>usize\<close> never fails.
\<close>

unbundle bit_operations_syntax

named_theorems result_simps \<open>unfolding of the result combinators\<close>

section \<open>Types of the source language\<close>

type_synonym u8 = "8 word"
type_synonym u16 = "16 word"
type_synonym u32 = "32 word"
type_synonym u64 = "64 word"
type_synonym i8 = int
type_synonym i16 = int
type_synonym i32 = int
type_synonym i64 = int
type_synonym usize = nat
type_synonym bytes = "u8 list"

text \<open>A Rust \<open>String\<close> is its UTF-8 byte sequence.\<close>

type_synonym rust_string = "u8 list"

abbreviation U32_MAX :: u32 where "U32_MAX \<equiv> - 1"
abbreviation U64_MAX :: u64 where "U64_MAX \<equiv> - 1"

definition i32_range :: "int \<Rightarrow> bool" where
  "i32_range i \<longleftrightarrow> - (2 ^ 31) \<le> i \<and> i < 2 ^ 31"

definition i64_range :: "int \<Rightarrow> bool" where
  "i64_range i \<longleftrightarrow> - (2 ^ 63) \<le> i \<and> i < 2 ^ 63"

section \<open>Results\<close>

text \<open>\<open>Result<T, E>\<close> is \<open>'e + 'a\<close>; \<open>rbind\<close> is the \<open>?\<close> operator.\<close>

definition rbind :: "'e + 'a \<Rightarrow> ('a \<Rightarrow> 'e + 'b) \<Rightarrow> 'e + 'b" where
  "rbind r f = (case r of Inl e \<Rightarrow> Inl e | Inr x \<Rightarrow> f x)"

definition map_err :: "('e \<Rightarrow> 'f) \<Rightarrow> 'e + 'a \<Rightarrow> 'f + 'a" where
  "map_err g r = (case r of Inl e \<Rightarrow> Inl (g e) | Inr x \<Rightarrow> Inr x)"

definition is_ok :: "'e + 'a \<Rightarrow> bool" where
  "is_ok r = (case r of Inl _ \<Rightarrow> False | Inr _ \<Rightarrow> True)"

lemma rbind_simps [simp, result_simps]:
  "rbind (Inl e) f = Inl e" "rbind (Inr x) f = f x"
  by (simp_all add: rbind_def)

lemma map_err_simps [simp, result_simps]:
  "map_err g (Inl e) = Inl (g e)" "map_err g (Inr x) = Inr x"
  by (simp_all add: map_err_def)

lemma is_ok_simps [simp, result_simps]: "\<not> is_ok (Inl e)" "is_ok (Inr x)"
  by (simp_all add: is_ok_def)

lemma is_ok_iff: "is_ok r \<longleftrightarrow> (\<exists>x. r = Inr x)"
  by (cases r) simp_all

lemma rbind_Inr_iff: "rbind r f = Inr y \<longleftrightarrow> (\<exists>x. r = Inr x \<and> f x = Inr y)"
  by (cases r) auto

lemma rbind_InrE [elim!]:
  assumes "rbind r f = Inr y"
  obtains x where "r = Inr x" "f x = Inr y"
  using assms by (auto simp: rbind_Inr_iff)

lemma map_err_Inr_iff [simp]: "map_err g r = Inr x \<longleftrightarrow> r = Inr x"
  by (cases r) simp_all

lemma rbind_cong [fundef_cong]:
  assumes "r = r'" and "\<And>x. r' = Inr x \<Longrightarrow> f x = g x"
  shows "rbind r f = rbind r' g"
  using assms by (cases r') simp_all

section \<open>Little- and big-endian byte strings\<close>

fun nat_le :: "nat \<Rightarrow> nat \<Rightarrow> bytes" where
  "nat_le 0 x = []"
| "nat_le (Suc n) x = of_nat (x mod 256) # nat_le n (x div 256)"

fun le_nat :: "bytes \<Rightarrow> nat" where
  "le_nat [] = 0"
| "le_nat (b # bs) = unat b + 256 * le_nat bs"

definition to_le_bytes :: "'a::len word \<Rightarrow> bytes" where
  "to_le_bytes w = nat_le (LENGTH('a) div 8) (unat w)"

definition from_le_bytes :: "bytes \<Rightarrow> 'a::len word" where
  "from_le_bytes bs = of_nat (le_nat bs)"

definition to_be_bytes :: "'a::len word \<Rightarrow> bytes" where
  "to_be_bytes w = rev (to_le_bytes w)"

definition from_be_bytes :: "bytes \<Rightarrow> 'a::len word" where
  "from_be_bytes bs = from_le_bytes (rev bs)"

lemma length_nat_le [simp]: "length (nat_le n x) = n"
  by (induction n arbitrary: x) auto

lemma nat_le_numeral [simp]:
  "nat_le (numeral k) x = of_nat (x mod 256) # nat_le (pred_numeral k) (x div 256)"
  using nat_le.simps(2) [of "pred_numeral k" x] by (simp only: numeral_eq_Suc [of k, symmetric])

lemma unat_byte_of_nat [simp]: "unat (of_nat (x mod 256) :: u8) = x mod 256"
  by (simp add: unat_of_nat)

lemma le_nat_nat_le: "le_nat (nat_le n x) = x mod 256 ^ n"
proof (induction n arbitrary: x)
  case 0
  show ?case by simp
next
  case (Suc n)
  have "x mod (256 * 256 ^ n) = 256 * (x div 256 mod 256 ^ n) + x mod 256"
    by (rule mod_mult2_eq)
  with Suc show ?case by simp
qed

lemma le_nat_bound: "le_nat bs < 256 ^ length bs"
proof (induction bs)
  case (Cons b bs)
  have "unat b < 256" using unsigned_less [of b, where 'a = nat] by simp
  with Cons show ?case by simp
qed simp

lemma nat_le_le_nat: "nat_le (length bs) (le_nat bs) = bs"
proof (induction bs)
  case (Cons b bs)
  have "unat b < 256" using unsigned_less [of b, where 'a = nat] by simp
  with Cons show ?case by simp
qed simp

text \<open>The four widths of the wire format.\<close>

lemma length_to_le_bytes [simp]:
  "length (to_le_bytes (w :: 'a::len word)) = LENGTH('a) div 8"
  by (simp add: to_le_bytes_def)

lemma length_to_be_bytes [simp]:
  "length (to_be_bytes (w :: 'a::len word)) = LENGTH('a) div 8"
  by (simp add: to_be_bytes_def)

lemma power_256: "(256::nat) ^ k = 2 ^ (8 * k)"
  by (simp add: power_mult)

lemma from_to_le_bytes:
  assumes "8 dvd LENGTH('a)"
  shows "from_le_bytes (to_le_bytes (w :: 'a::len word)) = w"
proof -
  have "(256::nat) ^ (LENGTH('a) div 8) = 2 ^ LENGTH('a)"
    using assms by (simp add: power_256)
  then show ?thesis
    using unsigned_less [of w, where 'a = nat]
    by (simp add: from_le_bytes_def to_le_bytes_def le_nat_nat_le)
qed

lemma to_from_le_bytes:
  assumes "8 * length bs = LENGTH('a)"
  shows "to_le_bytes (from_le_bytes bs :: 'a::len word) = bs"
proof -
  have "le_nat bs < 2 ^ LENGTH('a)"
    using le_nat_bound [of bs] assms by (simp add: power_256)
  moreover have "LENGTH('a) div 8 = length bs" using assms by simp
  ultimately show ?thesis
    by (simp add: from_le_bytes_def to_le_bytes_def unat_of_nat take_bit_eq_mod nat_le_le_nat)
qed

lemmas from_to_le_word [simp] =
  from_to_le_bytes [where 'a = 8, simplified] from_to_le_bytes [where 'a = 16, simplified]
  from_to_le_bytes [where 'a = 32, simplified] from_to_le_bytes [where 'a = 64, simplified]

lemma from_to_be_word [simp]:
  "from_be_bytes (to_be_bytes (a :: u16)) = a"
  "from_be_bytes (to_be_bytes (c :: u64)) = c"
  by (simp_all add: from_be_bytes_def to_be_bytes_def)

section \<open>Signed integers on the wire\<close>

lemma sint_of_i32: "i32_range i \<Longrightarrow> sint (word_of_int i :: u32) = i"
  by (simp add: i32_range_def signed_of_int signed_take_bit_int_eq_self)

lemma sint_of_i64: "i64_range i \<Longrightarrow> sint (word_of_int i :: u64) = i"
  by (simp add: i64_range_def signed_of_int signed_take_bit_int_eq_self)

lemma sint_i32_range [simp]: "i32_range (sint (w :: u32))"
  using sint_lt [of w] sint_ge [of w] by (simp add: i32_range_def)

lemma sint_i64_range [simp]: "i64_range (sint (w :: u64))"
  using sint_lt [of w] sint_ge [of w] by (simp add: i64_range_def)

section \<open>Maps\<close>

text \<open>
  A \<open>BTreeMap\<close> is an association list kept in key order; a \<open>HashMap\<close> is an association
  list in the order its iterator happens to follow, changed by \<open>AList.update\<close> and
  \<open>AList.delete\<close>.  Clients use both through the laws of the locale \<open>dict\<close>.
\<close>

fun btree_insert :: "'k::linorder \<Rightarrow> 'v \<Rightarrow> ('k \<times> 'v) list \<Rightarrow> ('k \<times> 'v) list" where
  "btree_insert k v [] = [(k, v)]"
| "btree_insert k v ((k', v') # xs) =
     (if k = k' then (k, v) # xs
      else if k < k' then (k, v) # (k', v') # xs
      else (k', v') # btree_insert k v xs)"

locale dict =
  fixes ins :: "'k \<Rightarrow> 'v \<Rightarrow> ('k \<times> 'v) list \<Rightarrow> ('k \<times> 'v) list"
    and inv :: "('k \<times> 'v) list \<Rightarrow> bool"
  assumes map_of_ins: "map_of (ins k v m) = (map_of m)(k \<mapsto> v)"
    and inv_ins: "inv m \<Longrightarrow> inv (ins k v m)"
    and inv_distinct: "inv m \<Longrightarrow> distinct (map fst m)"
begin

lemma dom_ins: "fst ` set (ins k v m) = insert k (fst ` set m)"
  using map_of_ins [of k v m] by (metis dom_fun_upd dom_map_of_conv_image_fst option.discI)

lemma set_ins: "inv m \<Longrightarrow> set (ins k v m) = insert (k, v) {(k', v'). (k', v') \<in> set m \<and> k' \<noteq> k}"
proof -
  assume m: "inv m"
  note old = map_of_eq_Some_iff [OF inv_distinct [OF m], symmetric]
  note new = map_of_eq_Some_iff [OF inv_distinct [OF inv_ins [OF m]], symmetric]
  show ?thesis by (auto simp: old new map_of_ins split: if_splits)
qed

text \<open>Folding inserts: the last value inserted for a key is the one found.\<close>

lemma map_of_fold_ins:
  "map_of (fold (\<lambda>(k, v). ins k v) kvs m) = map_of m ++ map_of (rev kvs)"
proof (induction kvs arbitrary: m)
  case (Cons kv kvs)
  then show ?case
    by (cases kv) (simp add: map_of_ins map_add_upd_left [symmetric] del: map_add_upd_left
        flip: map_add_assoc, simp add: map_add_def fun_eq_iff split: option.splits)
qed simp

lemma inv_fold_ins: "inv m \<Longrightarrow> inv (fold (\<lambda>(k, v). ins k v) kvs m)"
  by (induction kvs arbitrary: m) (auto simp: inv_ins)

end

definition btree_inv :: "('k::linorder \<times> 'v) list \<Rightarrow> bool" where
  "btree_inv m \<longleftrightarrow> sorted_wrt (<) (map fst m)"

lemma fst_set_btree_insert: "fst ` set (btree_insert k v m) = insert k (fst ` set m)"
  by (induction k v m rule: btree_insert.induct) auto

interpretation btree: dict btree_insert btree_inv
proof
  fix k :: "'k::linorder" and v :: 'v and m
  show "map_of (btree_insert k v m) = (map_of m)(k \<mapsto> v)"
    by (induction k v m rule: btree_insert.induct) (auto simp: fun_eq_iff)
  show "btree_inv m \<Longrightarrow> btree_inv (btree_insert k v m)"
    unfolding btree_inv_def
  proof (induction k v m rule: btree_insert.induct)
    case (2 k v k' v' xs)
    then show ?case
      using fst_set_btree_insert [of k v xs] by (auto simp: image_iff)
  qed simp
  show "btree_inv m \<Longrightarrow> distinct (map fst m)"
    unfolding btree_inv_def by (simp add: strict_sorted_iff)
qed

definition alist_inv :: "('k \<times> 'v) list \<Rightarrow> bool" where
  "alist_inv m \<longleftrightarrow> distinct (map fst m)"

interpretation alist: dict AList.update alist_inv
  by unfold_locales (auto simp: alist_inv_def update_conv' distinct_update)

lemma unat_Suc_less: "a < b \<Longrightarrow> unat (a + 1) = Suc (unat a)" for a b :: "'a::len word"
proof -
  assume "a < b"
  then have "Suc (unat a) < 2 ^ LENGTH('a)"
    using unsigned_less [of b, where 'a = nat] unfolding word_less_nat_alt by linarith
  then show ?thesis by (simp add: unat_word_ariths(1))
qed

section \<open>Slices and loops\<close>

text \<open>
  Indexing that panics out of range gives None, and so does a \<open>loop\<close> whose body panics or that
  never ends: \<open>run step\<close> repeats \<open>step\<close> until it breaks with a value.
\<close>

definition list_get :: "'a list \<Rightarrow> usize \<Rightarrow> 'a option" where
  "list_get xs i = (if i < length xs then Some (xs ! i) else None)"

definition list_set :: "'a list \<Rightarrow> usize \<Rightarrow> 'a \<Rightarrow> 'a list option" where
  "list_set xs i v = (if i < length xs then Some (xs[i := v]) else None)"

definition list_slice :: "'a list \<Rightarrow> usize \<Rightarrow> usize \<Rightarrow> 'a list option" where
  "list_slice xs i j = (if i \<le> j \<and> j \<le> length xs then Some (take (j - i) (drop i xs)) else None)"

definition checked_sub :: "nat \<Rightarrow> nat \<Rightarrow> nat option" where
  "checked_sub a b = (if b \<le> a then Some (a - b) else None)"

partial_function (option) run :: "('s \<Rightarrow> ('s + 'a) option) \<Rightarrow> 's \<Rightarrow> 'a option" where
  [code]: "run step s = Option.bind (step s) (\<lambda>r. case r of Inl s' \<Rightarrow> run step s' | Inr a \<Rightarrow> Some a)"

text \<open>A loop whose body never panics and lowers a measure returns, and its result satisfies the
  postcondition of the breaking iteration.\<close>

lemma run_total:
  fixes f :: "'s \<Rightarrow> nat"
  assumes step: "\<And>s. I s \<Longrightarrow> \<exists>r. step s = Some r \<and>
      (case r of Inl s' \<Rightarrow> I s' \<and> f s' < f s | Inr a \<Rightarrow> Q a)"
    and "I s"
  shows "\<exists>a. run step s = Some a \<and> Q a"
  using assms(2)
proof (induction "f s" arbitrary: s rule: less_induct)
  case less
  obtain r where r: "step s = Some r" "case r of Inl s' \<Rightarrow> I s' \<and> f s' < f s | Inr a \<Rightarrow> Q a"
    using step [OF less.prems] by blast
  show ?case
  proof (cases r)
    case (Inl s')
    then show ?thesis using less.hyps r by (subst run.simps) auto
  next
    case (Inr a)
    then show ?thesis using r by (subst run.simps) auto
  qed
qed

text \<open>A panic-free loop body folded over a list: the invariant at the end.\<close>

primrec fold_opt :: "('a \<Rightarrow> 's \<Rightarrow> 's option) \<Rightarrow> 'a list \<Rightarrow> 's \<Rightarrow> 's option" where
  "fold_opt f [] s = Some s"
| "fold_opt f (x # xs) s = Option.bind (f x s) (fold_opt f xs)"

lemma fold_opt_append: "fold_opt f (xs @ ys) s = Option.bind (fold_opt f xs s) (fold_opt f ys)"
  by (induction xs arbitrary: s) (auto simp: Option.bind_assoc split: Option.bind_splits)

lemma fold_opt_total:
  assumes "\<And>x s. x \<in> set xs \<Longrightarrow> I s \<Longrightarrow> \<exists>s'. f x s = Some s' \<and> I s'" and "I s"
  shows "\<exists>s'. fold_opt f xs s = Some s' \<and> I s'"
  using assms
proof (induction xs arbitrary: s)
  case (Cons x xs)
  obtain s' where "f x s = Some s'" "I s'" using Cons.prems by fastforce
  then show ?case using Cons.IH [of s'] Cons.prems by auto
qed simp

end
