(* ===== verification/Utf8.thy ===== *)
theory Utf8
  imports Rados_Prelude
begin

text \<open>
  The standard library's \<open>String::from_utf8_lossy\<close>, which every string field of the wire
  format goes through (\<open>Decoder::string\<close>).  Each maximal ill-formed subsequence is replaced
  by U+FFFD.  The specification is the well-formedness table of the Unicode standard.
\<close>

definition utf8_cont :: "u8 \<Rightarrow> bool" where
  "utf8_cont b \<longleftrightarrow> b AND 0xC0 = 0x80"

definition utf8_second3 :: "u8 \<Rightarrow> u8 \<Rightarrow> bool" where
  "utf8_second3 b c \<longleftrightarrow>
     (b = 0xE0 \<and> 0xA0 \<le> c \<and> c \<le> 0xBF) \<or>
     (0xE1 \<le> b \<and> b \<le> 0xEC \<and> 0x80 \<le> c \<and> c \<le> 0xBF) \<or>
     (b = 0xED \<and> 0x80 \<le> c \<and> c \<le> 0x9F) \<or>
     (0xEE \<le> b \<and> b \<le> 0xEF \<and> 0x80 \<le> c \<and> c \<le> 0xBF)"

definition utf8_second4 :: "u8 \<Rightarrow> u8 \<Rightarrow> bool" where
  "utf8_second4 b c \<longleftrightarrow>
     (b = 0xF0 \<and> 0x90 \<le> c \<and> c \<le> 0xBF) \<or>
     (0xF1 \<le> b \<and> b \<le> 0xF3 \<and> 0x80 \<le> c \<and> c \<le> 0xBF) \<or>
     (b = 0xF4 \<and> 0x80 \<le> c \<and> c \<le> 0x8F)"

definition replacement :: bytes where
  "replacement = [0xEF, 0xBF, 0xBD]"

text \<open>
  \<open>utf8_prefix\<close> reads one character or one maximal ill-formed subsequence: whether it is
  well formed, and how many bytes it takes.
\<close>

fun utf8_prefix :: "bytes \<Rightarrow> bool \<times> nat" where
  "utf8_prefix [] = (True, 0)"
| "utf8_prefix (b # bs) =
     (if b < 0x80 then (True, 1)
      else if 0xC2 \<le> b \<and> b \<le> 0xDF then
        (case bs of c # _ \<Rightarrow> if utf8_cont c then (True, 2) else (False, 1) | [] \<Rightarrow> (False, 1))
      else if 0xE0 \<le> b \<and> b \<le> 0xEF then
        (case bs of
           c # d # _ \<Rightarrow> if \<not> utf8_second3 b c then (False, 1)
                       else if utf8_cont d then (True, 3) else (False, 2)
         | [c] \<Rightarrow> if \<not> utf8_second3 b c then (False, 1) else (False, 2)
         | [] \<Rightarrow> (False, 1))
      else if 0xF0 \<le> b \<and> b \<le> 0xF4 then
        (case bs of
           c # d # f # _ \<Rightarrow> if \<not> utf8_second4 b c then (False, 1)
                           else if \<not> utf8_cont d then (False, 2)
                           else if utf8_cont f then (True, 4) else (False, 3)
         | [c, d] \<Rightarrow> if \<not> utf8_second4 b c then (False, 1)
                     else if \<not> utf8_cont d then (False, 2) else (False, 3)
         | [c] \<Rightarrow> if \<not> utf8_second4 b c then (False, 1) else (False, 2)
         | [] \<Rightarrow> (False, 1))
      else (False, 1))"

lemma utf8_prefix_pos: "0 < snd (utf8_prefix (b # bs))"
  by (auto split: list.splits)

function utf8_lossy :: "bytes \<Rightarrow> rust_string" where
  "utf8_lossy [] = []"
| "utf8_lossy (b # bs) =
     (if fst (utf8_prefix (b # bs)) then take (snd (utf8_prefix (b # bs))) (b # bs) else replacement)
     @ utf8_lossy (drop (snd (utf8_prefix (b # bs))) (b # bs))"
  by pat_completeness auto
termination
  using utf8_prefix_pos by (relation "measure length") auto

declare utf8_prefix.simps [simp del] utf8_lossy.simps [simp del]

inductive valid_utf8 :: "bytes \<Rightarrow> bool" where
  utf8_nil: "valid_utf8 []"
| utf8_1: "b < 0x80 \<Longrightarrow> valid_utf8 bs \<Longrightarrow> valid_utf8 (b # bs)"
| utf8_2: "0xC2 \<le> b \<Longrightarrow> b \<le> 0xDF \<Longrightarrow> utf8_cont c \<Longrightarrow> valid_utf8 bs \<Longrightarrow> valid_utf8 (b # c # bs)"
| utf8_3: "0xE0 \<le> b \<Longrightarrow> b \<le> 0xEF \<Longrightarrow> utf8_second3 b c \<Longrightarrow> utf8_cont d \<Longrightarrow> valid_utf8 bs \<Longrightarrow>
     valid_utf8 (b # c # d # bs)"
| utf8_4: "0xF0 \<le> b \<Longrightarrow> b \<le> 0xF4 \<Longrightarrow> utf8_second4 b c \<Longrightarrow> utf8_cont d \<Longrightarrow> utf8_cont f \<Longrightarrow>
     valid_utf8 bs \<Longrightarrow> valid_utf8 (b # c # d # f # bs)"

lemma word8_order [dest]:
  "(b :: u8) \<le> 0xDF \<Longrightarrow> 0xE0 \<le> b \<Longrightarrow> False"
  "(b :: u8) \<le> 0xDF \<Longrightarrow> 0xF0 \<le> b \<Longrightarrow> False"
  "(b :: u8) \<le> 0xEF \<Longrightarrow> 0xF0 \<le> b \<Longrightarrow> False"
  "(b :: u8) < 0x80 \<Longrightarrow> 0xC2 \<le> b \<Longrightarrow> False"
  "(b :: u8) < 0x80 \<Longrightarrow> 0xE0 \<le> b \<Longrightarrow> False"
  "(b :: u8) < 0x80 \<Longrightarrow> 0xF0 \<le> b \<Longrightarrow> False"
  by (unat_arith)+

lemma utf8_prefix_char:
  "b < 0x80 \<Longrightarrow> utf8_prefix (b # bs) = (True, 1)"
  "0xC2 \<le> b \<Longrightarrow> b \<le> 0xDF \<Longrightarrow> utf8_cont c \<Longrightarrow> utf8_prefix (b # c # bs) = (True, 2)"
  "0xE0 \<le> b \<Longrightarrow> b \<le> 0xEF \<Longrightarrow> utf8_second3 b c \<Longrightarrow> utf8_cont d \<Longrightarrow>
     utf8_prefix (b # c # d # bs) = (True, 3)"
  "0xF0 \<le> b \<Longrightarrow> b \<le> 0xF4 \<Longrightarrow> utf8_second4 b c \<Longrightarrow> utf8_cont d \<Longrightarrow> utf8_cont f \<Longrightarrow>
     utf8_prefix (b # c # d # f # bs) = (True, 4)"
  by (auto simp: utf8_prefix.simps)

lemma utf8_lossy_valid_id: "valid_utf8 bs \<Longrightarrow> utf8_lossy bs = bs"
  by (induction rule: valid_utf8.induct)
    (simp_all add: utf8_lossy.simps utf8_prefix_char numeral_eq_Suc)

lemma valid_replacement_append: "valid_utf8 bs \<Longrightarrow> valid_utf8 (replacement @ bs)"
  by (simp add: replacement_def utf8_3 utf8_second3_def utf8_cont_def)

lemma valid_utf8_prefix_append:
  assumes "fst (utf8_prefix bs)" and "valid_utf8 cs"
  shows "valid_utf8 (take (snd (utf8_prefix bs)) bs @ cs)"
proof (cases bs)
  case (Cons b bs')
  with assms show ?thesis
    by (auto simp: utf8_prefix.simps numeral_eq_Suc intro: valid_utf8.intros
        split: if_splits list.splits)
qed (use assms in \<open>simp add: utf8_prefix.simps\<close>)

lemma utf8_lossy_valid: "valid_utf8 (utf8_lossy bs)"
  by (induction bs rule: utf8_lossy.induct)
    (auto simp: utf8_lossy.simps utf8_nil intro: valid_replacement_append valid_utf8_prefix_append)

text \<open>Decoding twice changes nothing: the strings of a decoded map survive a re-encoding.\<close>

lemma utf8_lossy_idem [simp]: "utf8_lossy (utf8_lossy bs) = utf8_lossy bs"
  by (rule utf8_lossy_valid_id) (rule utf8_lossy_valid)

end
