(* ===== verification/Wire.thy ===== *)
theory Wire
  imports Utf8
begin

text \<open>
  The bounded codec of \<open>src/wire/codec.rs\<close> and \<open>src/wire/crc.rs\<close>.  An \<open>Encoder\<close>
  appends little-endian values up to a byte limit and remembers its first error; a
  \<open>Decoder\<close> walks a byte slice with an offset and a sticky error.  The interface every
  value type of the format meets is the locale \<open>wire_codec\<close>: what a write emits and what a
  read of those bytes gives back.  The round trips of the protocol layers are proved once in it.
\<close>

section \<open>Errors\<close>

datatype wire_error =
    WE_LimitExceeded
  | WE_Malformed
  | WE_UnsupportedVersion (local_version: u8) (required_version: u8)

section \<open>Encoder\<close>

record encoder =
  enc_bytes :: bytes
  enc_limit :: usize
  enc_error :: "wire_error option"

definition enc_new :: "usize \<Rightarrow> encoder" where
  "enc_new limit = \<lparr>enc_bytes = [], enc_limit = limit, enc_error = None\<rparr>"

definition enc_reserve :: "usize \<Rightarrow> encoder \<Rightarrow> bool \<times> encoder" where
  "enc_reserve n e =
     (if enc_error e \<noteq> None then (False, e)
      else if n > enc_limit e - length (enc_bytes e)
      then (False, e\<lparr>enc_error := Some WE_LimitExceeded\<rparr>)
      else (True, e))"

definition enc_raw :: "bytes \<Rightarrow> encoder \<Rightarrow> encoder" where
  "enc_raw value e =
     (let (ok, e') = enc_reserve (length value) e
      in if ok then e'\<lparr>enc_bytes := enc_bytes e' @ value\<rparr> else e')"

definition enc_u8 :: "u8 \<Rightarrow> encoder \<Rightarrow> encoder" where
  "enc_u8 value = enc_raw [value]"

definition enc_u16 :: "u16 \<Rightarrow> encoder \<Rightarrow> encoder" where
  "enc_u16 value = enc_raw (to_le_bytes value)"

definition enc_u32 :: "u32 \<Rightarrow> encoder \<Rightarrow> encoder" where
  "enc_u32 value = enc_raw (to_le_bytes value)"

definition enc_u64 :: "u64 \<Rightarrow> encoder \<Rightarrow> encoder" where
  "enc_u64 value = enc_raw (to_le_bytes value)"

definition enc_i8 :: "i8 \<Rightarrow> encoder \<Rightarrow> encoder" where
  "enc_i8 value = enc_raw (to_le_bytes (word_of_int value :: u8))"

definition enc_i16 :: "i16 \<Rightarrow> encoder \<Rightarrow> encoder" where
  "enc_i16 value = enc_raw (to_le_bytes (word_of_int value :: u16))"

definition enc_i32 :: "i32 \<Rightarrow> encoder \<Rightarrow> encoder" where
  "enc_i32 value = enc_raw (to_le_bytes (word_of_int value :: u32))"

definition enc_i64 :: "i64 \<Rightarrow> encoder \<Rightarrow> encoder" where
  "enc_i64 value = enc_raw (to_le_bytes (word_of_int value :: u64))"

definition enc_bool :: "bool \<Rightarrow> encoder \<Rightarrow> encoder" where
  "enc_bool value = enc_u8 (if value then 1 else 0)"

definition enc_lbytes :: "bytes \<Rightarrow> encoder \<Rightarrow> encoder" where
  "enc_lbytes value e =
     (if length value \<ge> 2 ^ 32 then e\<lparr>enc_error := Some WE_LimitExceeded\<rparr>
      else enc_raw value (enc_u32 (of_nat (length value)) e))"

definition enc_string :: "rust_string \<Rightarrow> encoder \<Rightarrow> encoder" where
  "enc_string value = enc_lbytes value"

definition enc_finish :: "encoder \<Rightarrow> wire_error + bytes" where
  "enc_finish e = (case enc_error e of None \<Rightarrow> Inr (enc_bytes e) | Some err \<Rightarrow> Inl err)"

definition enc_versioned :: "u8 \<Rightarrow> u8 \<Rightarrow> (encoder \<Rightarrow> encoder) \<Rightarrow> encoder \<Rightarrow> encoder" where
  "enc_versioned version compatible encode e =
     (case enc_finish (encode (enc_new (min (enc_limit e) (2 ^ 32 - 1)))) of
        Inl _ \<Rightarrow> e\<lparr>enc_error := Some WE_LimitExceeded\<rparr>
      | Inr payload \<Rightarrow>
          if length payload \<ge> 2 ^ 32 then e\<lparr>enc_error := Some WE_LimitExceeded\<rparr>
          else enc_raw payload (enc_u32 (of_nat (length payload))
                 (enc_u8 compatible (enc_u8 version e))))"

section \<open>Decoder\<close>

record decoder =
  dec_bytes :: bytes
  dec_offset :: usize
  dec_max :: usize
  dec_error :: "wire_error option"

definition dec_new :: "bytes \<Rightarrow> usize \<Rightarrow> decoder" where
  "dec_new bs max_bytes = \<lparr>dec_bytes = bs, dec_offset = 0, dec_max = max_bytes, dec_error = None\<rparr>"

definition dec_take :: "usize \<Rightarrow> decoder \<Rightarrow> bytes \<times> decoder" where
  "dec_take n d =
     (if dec_error d \<noteq> None \<or> n > length (dec_bytes d) - dec_offset d
      then ([], d\<lparr>dec_error := (case dec_error d of None \<Rightarrow> Some WE_Malformed | Some e \<Rightarrow> Some e)\<rparr>)
      else (take n (drop (dec_offset d) (dec_bytes d)), d\<lparr>dec_offset := dec_offset d + n\<rparr>))"

definition dec_raw :: "usize \<Rightarrow> decoder \<Rightarrow> bytes \<times> decoder" where
  "dec_raw n d = dec_take n d"

definition dec_u8 :: "decoder \<Rightarrow> u8 \<times> decoder" where
  "dec_u8 d = (let (data, d') = dec_take 1 d in (case data of [] \<Rightarrow> 0 | b # _ \<Rightarrow> b, d'))"

definition dec_u16 :: "decoder \<Rightarrow> u16 \<times> decoder" where
  "dec_u16 d = (let (data, d') = dec_take 2 d
     in (from_le_bytes (if length data = 2 then data else replicate 2 0), d'))"

definition dec_u32 :: "decoder \<Rightarrow> u32 \<times> decoder" where
  "dec_u32 d = (let (data, d') = dec_take 4 d
     in (from_le_bytes (if length data = 4 then data else replicate 4 0), d'))"

definition dec_u64 :: "decoder \<Rightarrow> u64 \<times> decoder" where
  "dec_u64 d = (let (data, d') = dec_take 8 d
     in (from_le_bytes (if length data = 8 then data else replicate 8 0), d'))"

definition dec_i8 :: "decoder \<Rightarrow> i8 \<times> decoder" where
  "dec_i8 d = (let (w, d') = dec_u8 d in (sint w, d'))"

definition dec_i16 :: "decoder \<Rightarrow> i16 \<times> decoder" where
  "dec_i16 d = (let (w, d') = dec_u16 d in (sint w, d'))"

definition dec_i32 :: "decoder \<Rightarrow> i32 \<times> decoder" where
  "dec_i32 d = (let (w, d') = dec_u32 d in (sint w, d'))"

definition dec_i64 :: "decoder \<Rightarrow> i64 \<times> decoder" where
  "dec_i64 d = (let (w, d') = dec_u64 d in (sint w, d'))"

definition dec_bool :: "decoder \<Rightarrow> bool \<times> decoder" where
  "dec_bool d = (let (w, d') = dec_u8 d in (w \<noteq> 0, d'))"

definition dec_lbytes :: "decoder \<Rightarrow> bytes \<times> decoder" where
  "dec_lbytes d =
     (let (w, d') = dec_u32 d
      in if dec_error d' \<noteq> None then ([], d')
         else if unat w > dec_max d' then ([], d'\<lparr>dec_error := Some WE_LimitExceeded\<rparr>)
         else dec_raw (unat w) d')"

definition dec_string :: "decoder \<Rightarrow> rust_string \<times> decoder" where
  "dec_string d = (let (bs, d') = dec_lbytes d in (utf8_lossy bs, d'))"

definition dec_versioned :: "u8 \<Rightarrow> decoder \<Rightarrow> (u8 \<times> decoder) \<times> decoder" where
  "dec_versioned local d =
     (let (version, d) = dec_u8 d; (compatible, d) = dec_u8 d; (len, d) = dec_u32 d
      in if dec_error d \<noteq> None then ((0, dec_new [] (dec_max d)), d)
         else if local < compatible
         then ((0, dec_new [] (dec_max d)),
               d\<lparr>dec_error := Some (WE_UnsupportedVersion local compatible)\<rparr>)
         else if unat len > dec_max d
         then ((0, dec_new [] (dec_max d)), d\<lparr>dec_error := Some WE_LimitExceeded\<rparr>)
         else let (payload, d) = dec_take (unat len) d
              in ((version, dec_new payload (dec_max d)), d))"

definition dec_remaining :: "decoder \<Rightarrow> usize" where
  "dec_remaining d = length (dec_bytes d) - dec_offset d"

definition dec_finish :: "decoder \<Rightarrow> wire_error + unit" where
  "dec_finish d = (case dec_error d of None \<Rightarrow> Inr () | Some e \<Rightarrow> Inl e)"

text \<open>
  The checksum of \<open>src/wire/crc.rs\<close>.  The table-driven \<open>crc32c_append\<close> belongs to the
  \<open>crc32c\<close> crate and is a parameter.
\<close>

definition crc32c :: "(u32 \<Rightarrow> bytes \<Rightarrow> u32) \<Rightarrow> u32 \<Rightarrow> bytes \<Rightarrow> u32" where
  "crc32c crc32c_append seed payload = NOT (crc32c_append (NOT seed) payload)"

section \<open>Invariants and the contract of a value type\<close>

definition enc_wf :: "encoder \<Rightarrow> bool" where
  "enc_wf e \<longleftrightarrow> length (enc_bytes e) \<le> enc_limit e"

text \<open>
  \<open>emits e e' xs\<close>: the step from \<open>e\<close> to \<open>e'\<close> writes \<open>xs\<close>.  It succeeds exactly when
  no earlier write failed and the limit leaves room for all of \<open>xs\<close>.
\<close>

definition emits :: "encoder \<Rightarrow> encoder \<Rightarrow> bytes \<Rightarrow> bool" where
  "emits e e' xs \<longleftrightarrow>
     enc_limit e' = enc_limit e \<and> enc_wf e' \<and>
     (enc_error e' = None \<longleftrightarrow> enc_error e = None \<and> length (enc_bytes e) + length xs \<le> enc_limit e) \<and>
     (enc_error e' = None \<longrightarrow> enc_bytes e' = enc_bytes e @ xs)"

text \<open>\<open>ready d xs\<close>: no read has failed and \<open>xs\<close> is what is left to read.\<close>

definition ready :: "decoder \<Rightarrow> bytes \<Rightarrow> bool" where
  "ready d xs \<longleftrightarrow> dec_error d = None \<and> dec_offset d \<le> length (dec_bytes d) \<and>
     drop (dec_offset d) (dec_bytes d) = xs"

definition dec_advance :: "usize \<Rightarrow> decoder \<Rightarrow> decoder" where
  "dec_advance n d = d\<lparr>dec_offset := dec_offset d + n\<rparr>"

definition dec_wf :: "decoder \<Rightarrow> bool" where
  "dec_wf d \<longleftrightarrow> dec_offset d \<le> length (dec_bytes d)"

text \<open>
  The canonical form of a decoder that has read \<open>pre\<close> and has \<open>xs\<close> left: reads of it
  rewrite to reads of it, so a round trip is a run of the simplifier.
\<close>

definition rdr :: "bytes \<Rightarrow> bytes \<Rightarrow> usize \<Rightarrow> decoder" where
  "rdr pre xs m = \<lparr>dec_bytes = pre @ xs, dec_offset = length pre, dec_max = m, dec_error = None\<rparr>"

text \<open>
  The interface of a value type: a writer, a reader, the bytes a value is written as, and the
  values that a reader with the given \<open>max_bytes\<close> accepts.
\<close>

locale wire_codec =
  fixes put :: "'a \<Rightarrow> encoder \<Rightarrow> encoder"
    and get :: "decoder \<Rightarrow> 'a \<times> decoder"
    and image :: "'a \<Rightarrow> bytes"
    and ok :: "usize \<Rightarrow> 'a \<Rightarrow> bool"
  assumes put_emits: "ok m v \<Longrightarrow> enc_wf e \<Longrightarrow> emits e (put v e) (image v)"
    and get_image: "ok (dec_max d) v \<Longrightarrow> ready d (image v @ rest) \<Longrightarrow>
      get d = (v, dec_advance (length (image v)) d)"

section \<open>Encoder lemmas\<close>

named_theorems emits_intro \<open>what the write operations emit\<close>

lemma enc_wf_new [simp]: "enc_wf (enc_new l)"
  by (simp add: enc_wf_def enc_new_def)

lemma emitsD:
  assumes "emits e e' xs"
  shows "enc_limit e' = enc_limit e" "enc_wf e'"
    "enc_error e' = None \<Longrightarrow> enc_error e = None"
    "enc_error e' = None \<Longrightarrow> enc_bytes e' = enc_bytes e @ xs"
    "enc_error e' = None \<Longrightarrow> length (enc_bytes e) + length xs \<le> enc_limit e"
    "enc_error e = None \<Longrightarrow> length (enc_bytes e) + length xs \<le> enc_limit e \<Longrightarrow> enc_error e' = None"
  using assms by (auto simp: emits_def)

lemma emits_refl: "enc_wf e \<Longrightarrow> emits e e []"
  by (simp add: emits_def enc_wf_def)

lemma emits_trans: "emits e e' xs \<Longrightarrow> emits e' e'' ys \<Longrightarrow> emits e e'' (xs @ ys)"
  by (auto simp: emits_def)

lemma enc_raw_emits [emits_intro]: "enc_wf e \<Longrightarrow> emits e (enc_raw xs e) xs"
  by (auto simp: emits_def enc_raw_def enc_reserve_def enc_wf_def)

lemma enc_u8_emits [emits_intro]: "enc_wf e \<Longrightarrow> emits e (enc_u8 v e) [v]"
  by (simp add: enc_u8_def enc_raw_emits)

lemma enc_fixed_emits [emits_intro]:
  "enc_wf e \<Longrightarrow> emits e (enc_u16 a e) (to_le_bytes a)"
  "enc_wf e \<Longrightarrow> emits e (enc_u32 b e) (to_le_bytes b)"
  "enc_wf e \<Longrightarrow> emits e (enc_u64 c e) (to_le_bytes c)"
  "enc_wf e \<Longrightarrow> emits e (enc_i32 i e) (to_le_bytes (word_of_int i :: u32))"
  "enc_wf e \<Longrightarrow> emits e (enc_i64 i e) (to_le_bytes (word_of_int i :: u64))"
  "enc_wf e \<Longrightarrow> emits e (enc_bool x e) [if x then 1 else 0]"
  by (simp_all add: enc_u16_def enc_u32_def enc_u64_def enc_i32_def enc_i64_def enc_bool_def
      enc_u8_def enc_raw_emits)

lemma enc_wf_ops [simp]:
  assumes "enc_wf e"
  shows "enc_wf (enc_raw xs e)" "enc_wf (enc_u8 a e)" "enc_wf (enc_u16 b e)" "enc_wf (enc_u32 c e)"
    "enc_wf (enc_u64 f e)" "enc_wf (enc_i32 i e)" "enc_wf (enc_i64 i e)" "enc_wf (enc_bool x e)"
  using assms by (blast intro: emitsD(2) emits_intro)+

definition lbytes_image :: "bytes \<Rightarrow> bytes" where
  "lbytes_image xs = to_le_bytes (of_nat (length xs) :: u32) @ xs"

lemma length_lbytes_image [simp]: "length (lbytes_image xs) = 4 + length xs"
  by (simp add: lbytes_image_def)

lemma enc_lbytes_emits [emits_intro]:
  "enc_wf e \<Longrightarrow> length xs < 2 ^ 32 \<Longrightarrow> emits e (enc_lbytes xs e) (lbytes_image xs)"
  by (auto simp: enc_lbytes_def lbytes_image_def intro!: emits_trans emits_intro)

text \<open>A failed encoder stays failed and its output is never reported.\<close>

lemma enc_raw_failed: "enc_error e = Some x \<Longrightarrow> enc_raw xs e = e"
  by (simp add: enc_raw_def enc_reserve_def)

lemma enc_finish_Inr_iff [simp]:
  "enc_finish e = Inr xs \<longleftrightarrow> enc_error e = None \<and> enc_bytes e = xs"
  by (auto simp: enc_finish_def split: option.splits)

section \<open>Decoder lemmas\<close>

lemma ready_new: "ready (dec_new xs m) xs" "dec_max (dec_new xs m) = m"
  by (simp_all add: ready_def dec_new_def)

lemma dec_advance_simps [simp]:
  "dec_max (dec_advance n d) = dec_max d" "dec_error (dec_advance n d) = dec_error d"
  "dec_bytes (dec_advance n d) = dec_bytes d"
  "dec_advance m (dec_advance n d) = dec_advance (n + m) d" "dec_advance 0 d = d"
  by (simp_all add: dec_advance_def add.assoc)

lemma ready_advance: "ready d (xs @ ys) \<Longrightarrow> n = length xs \<Longrightarrow> ready (dec_advance n d) ys"
proof -
  assume r: "ready d (xs @ ys)" and n: "n = length xs"
  have l: "length (dec_bytes d) - dec_offset d = length xs + length ys"
    using r by (metis ready_def length_append length_drop)
  have "drop n (drop (dec_offset d) (dec_bytes d)) = ys"
    using r n by (simp add: ready_def)
  moreover have "dec_offset d + n \<le> length (dec_bytes d)"
    using r l n unfolding ready_def by linarith
  ultimately show ?thesis using r by (simp add: ready_def dec_advance_def add.commute)
qed

lemma ready_remaining: "ready d xs \<Longrightarrow> dec_remaining d = length xs"
  by (auto simp: ready_def dec_remaining_def)

lemma ready_finish: "ready d xs \<Longrightarrow> dec_finish d = Inr ()"
  by (simp add: ready_def dec_finish_def)

lemma ready_error: "ready d xs \<Longrightarrow> dec_error d = None"
  by (simp add: ready_def)

lemma rdr_simps [simp]:
  "dec_new xs m = rdr [] xs m" "ready (rdr pre xs m) xs" "dec_max (rdr pre xs m) = m"
  "dec_error (rdr pre xs m) = None" "dec_finish (rdr pre xs m) = Inr ()"
  "dec_remaining (rdr pre xs m) = length xs"
  by (simp_all add: rdr_def dec_new_def ready_def dec_finish_def dec_remaining_def)

lemma rdr_advance [simp]:
  "n = length xs \<Longrightarrow> dec_advance n (rdr pre (xs @ ys) m) = rdr (pre @ xs) ys m"
  by (simp add: rdr_def dec_advance_def)

lemma rdr_advance_all [simp]:
  "n = length xs \<Longrightarrow> dec_advance n (rdr pre xs m) = rdr (pre @ xs) [] m"
  by (simp add: rdr_def dec_advance_def)

lemma dec_take_ready:
  assumes "ready d (xs @ ys)" and "n = length xs"
  shows "dec_take n d = (xs, dec_advance n d)"
proof -
  have "dec_remaining d = length xs + length ys"
    using ready_remaining [OF assms(1)] by simp
  then show ?thesis
    using assms by (auto simp: dec_take_def ready_def dec_remaining_def dec_advance_def)
qed

lemma dec_raw_rdr [simp]:
  "n = length xs \<Longrightarrow> dec_raw n (rdr pre (xs @ ys) m) = (xs, rdr (pre @ xs) ys m)"
  "n = length xs \<Longrightarrow> dec_raw n (rdr pre xs m) = (xs, rdr (pre @ xs) [] m)"
  using dec_take_ready [of "rdr pre (xs @ ys) m" xs ys n] dec_take_ready [of "rdr pre xs m" xs "[]" n]
  by (simp_all add: dec_raw_def)

lemma dec_fixed_ready:
  "ready d (w8 # rest) \<Longrightarrow> dec_u8 d = (w8, dec_advance 1 d)"
  "ready d (to_le_bytes w16 @ rest) \<Longrightarrow> dec_u16 d = (w16, dec_advance 2 d)"
  "ready d (to_le_bytes w32 @ rest) \<Longrightarrow> dec_u32 d = (w32, dec_advance 4 d)"
  "ready d (to_le_bytes w64 @ rest) \<Longrightarrow> dec_u64 d = (w64, dec_advance 8 d)"
  using dec_take_ready [of d "[w8]" rest 1] dec_take_ready [of d "to_le_bytes w16" rest 2]
    dec_take_ready [of d "to_le_bytes w32" rest 4] dec_take_ready [of d "to_le_bytes w64" rest 8]
  by (simp_all add: dec_u8_def dec_u16_def dec_u32_def dec_u64_def)

lemma dec_signed_ready:
  "i32_range i \<Longrightarrow> ready d (to_le_bytes (word_of_int i :: u32) @ rest) \<Longrightarrow>
     dec_i32 d = (i, dec_advance 4 d)"
  "i64_range i \<Longrightarrow> ready d (to_le_bytes (word_of_int i :: u64) @ rest) \<Longrightarrow>
     dec_i64 d = (i, dec_advance 8 d)"
  by (simp_all add: dec_i32_def dec_i64_def dec_fixed_ready sint_of_i32 sint_of_i64)

lemma dec_bool_ready: "ready d ((if b then 1 else 0) # rest) \<Longrightarrow> dec_bool d = (b, dec_advance 1 d)"
  by (simp add: dec_bool_def dec_fixed_ready)

lemma unat_of_length: "length xs < 2 ^ 32 \<Longrightarrow> unat (of_nat (length xs) :: u32) = length xs"
  by (simp add: unat_of_nat take_bit_nat_eq_self)

lemma dec_lbytes_ready:
  assumes "length xs < 2 ^ 32" and "length xs \<le> dec_max d" and "ready d (lbytes_image xs @ rest)"
  shows "dec_lbytes d = (xs, dec_advance (4 + length xs) d)"
proof -
  have r: "ready d (to_le_bytes (of_nat (length xs) :: u32) @ (xs @ rest))"
    using assms(3) by (simp add: lbytes_image_def)
  have r': "ready (dec_advance 4 d) (xs @ rest)"
    by (rule ready_advance [OF r]) simp
  show ?thesis
    using dec_fixed_ready(3) [OF r] dec_take_ready [OF r', of "length xs"] assms(1,2) ready_error [OF r]
    by (simp add: dec_lbytes_def dec_raw_def unat_of_length)
qed

lemma dec_string_ready:
  assumes "length xs < 2 ^ 32" and "length xs \<le> dec_max d" and "valid_utf8 xs"
    and "ready d (lbytes_image xs @ rest)"
  shows "dec_string d = (xs, dec_advance (4 + length xs) d)"
  using dec_lbytes_ready [OF assms(1,2,4)] assms(3) by (simp add: dec_string_def utf8_lossy_valid_id)

section \<open>Generic round trips\<close>

context wire_codec
begin

lemma get_rdr:
  assumes "ok m v"
  shows "get (rdr pre (image v @ rest) m) = (v, rdr (pre @ image v) rest m)"
    and "get (rdr pre (image v) m) = (v, rdr (pre @ image v) [] m)"
  using get_image [of "rdr pre (image v @ rest) m" v rest] get_image [of "rdr pre (image v) m" v "[]"]
    assms by simp_all

lemma roundtrip:
  assumes "ok m v" and "enc_finish (put v (enc_new l)) = Inr xs"
  shows "get (dec_new xs m) = (v, rdr xs [] m)"
proof -
  have "emits (enc_new l) (put v (enc_new l)) (image v)"
    using assms(1) by (rule put_emits) simp
  then have "xs = image v"
    using assms(2) emitsD(4) by (fastforce simp: enc_new_def)
  then show ?thesis
    using get_rdr(2) [of m v "[]"] assms(1) by simp
qed

lemma put_list_emits:
  assumes "\<forall>v \<in> set vs. ok m v" and "enc_wf e"
  shows "emits e (fold put vs e) (concat (map image vs))"
  using assms
proof (induction vs arbitrary: e)
  case Nil
  then show ?case by (simp add: emits_refl)
next
  case (Cons v vs)
  then have "emits e (put v e) (image v)" by (auto intro: put_emits)
  with Cons show ?case by (auto intro!: emits_trans dest: emitsD(2))
qed

end

text \<open>\<open>for _ in 0..count { values.push(get(decoder)) }\<close>: a counted run of reads.\<close>

fun dec_times :: "(decoder \<Rightarrow> 'a \<times> decoder) \<Rightarrow> usize \<Rightarrow> decoder \<Rightarrow> 'a list \<times> decoder" where
  "dec_times get 0 d = ([], d)"
| "dec_times get (Suc n) d =
     (let (v, d) = get d; (vs, d) = dec_times get n d in (v # vs, d))"

context wire_codec
begin

lemma get_list_image:
  assumes "\<forall>v \<in> set vs. ok (dec_max d) v" and "ready d (concat (map image vs) @ rest)"
  shows "dec_times get (length vs) d = (vs, dec_advance (length (concat (map image vs))) d)"
  using assms
proof (induction vs arbitrary: d)
  case Nil
  then show ?case by simp
next
  case (Cons v vs)
  have g: "get d = (v, dec_advance (length (image v)) d)"
    using Cons.prems by (intro get_image) auto
  have "ready (dec_advance (length (image v)) d) (concat (map image vs) @ rest)"
    using Cons.prems(2) by (intro ready_advance [where xs = "image v"]) simp_all
  with Cons g show ?case by simp
qed

end

interpretation u8_codec: wire_codec enc_u8 dec_u8 "\<lambda>v. [v]" "\<lambda>_ _. True"
  by unfold_locales (auto intro: emits_intro simp: dec_fixed_ready)

interpretation u16_codec: wire_codec enc_u16 dec_u16 to_le_bytes "\<lambda>_ _. True"
  by unfold_locales (auto intro: emits_intro simp: dec_fixed_ready)

interpretation u32_codec: wire_codec enc_u32 dec_u32 to_le_bytes "\<lambda>_ _. True"
  by unfold_locales (auto intro: emits_intro simp: dec_fixed_ready)

interpretation u64_codec: wire_codec enc_u64 dec_u64 to_le_bytes "\<lambda>_ _. True"
  by unfold_locales (auto intro: emits_intro simp: dec_fixed_ready)

interpretation i32_codec: wire_codec enc_i32 dec_i32
  "\<lambda>i. to_le_bytes (word_of_int i :: u32)" "\<lambda>_. i32_range"
  by unfold_locales (auto intro: emits_intro simp: dec_signed_ready)

interpretation i64_codec: wire_codec enc_i64 dec_i64
  "\<lambda>i. to_le_bytes (word_of_int i :: u64)" "\<lambda>_. i64_range"
  by unfold_locales (auto intro: emits_intro simp: dec_signed_ready)

interpretation bool_codec: wire_codec enc_bool dec_bool "\<lambda>b. [if b then 1 else 0]" "\<lambda>_ _. True"
  by unfold_locales (rule enc_fixed_emits, assumption, simp add: dec_bool_ready)

interpretation lbytes_codec: wire_codec enc_lbytes dec_lbytes lbytes_image
  "\<lambda>m xs. length xs < 2 ^ 32 \<and> length xs \<le> m"
  by unfold_locales (auto intro: emits_intro simp: dec_lbytes_ready)

interpretation string_codec: wire_codec enc_string dec_string lbytes_image
  "\<lambda>m xs. length xs < 2 ^ 32 \<and> length xs \<le> m \<and> valid_utf8 xs"
  by unfold_locales
    (auto intro: emits_intro simp: enc_string_def dec_string_ready)

lemmas get_rdr_simps [simp] =
  u8_codec.get_rdr [OF TrueI, simplified] u16_codec.get_rdr [OF TrueI] u32_codec.get_rdr [OF TrueI]
  u64_codec.get_rdr [OF TrueI] i32_codec.get_rdr i64_codec.get_rdr
  bool_codec.get_rdr [OF TrueI, simplified] lbytes_codec.get_rdr [OF conjI]
  string_codec.get_rdr [OF conjI [OF _ conjI]]

text \<open>Reads of literal bytes, for evaluating decoders on concrete inputs.\<close>

lemma dec_eval:
  "dec_u8 (rdr pre (a # xs) m) = (a, rdr (pre @ [a]) xs m)"
  "dec_u16 (rdr pre (a # b # xs) m) = (from_le_bytes [a, b], rdr (pre @ [a, b]) xs m)"
  "dec_u32 (rdr pre (a # b # c # d # xs) m) =
     (from_le_bytes [a, b, c, d], rdr (pre @ [a, b, c, d]) xs m)"
  "dec_u64 (rdr pre (a # b # c # d # e # f # g # h # xs) m) =
     (from_le_bytes [a, b, c, d, e, f, g, h], rdr (pre @ [a, b, c, d, e, f, g, h]) xs m)"
  by (simp_all add: rdr_def dec_u8_def dec_u16_def dec_u32_def dec_u64_def dec_take_def
      numeral_eq_Suc)

section \<open>Versioned envelopes\<close>

definition versioned_image :: "u8 \<Rightarrow> u8 \<Rightarrow> bytes \<Rightarrow> bytes" where
  "versioned_image version compatible xs =
     version # compatible # to_le_bytes (of_nat (length xs) :: u32) @ xs"

lemma length_versioned_image [simp]: "length (versioned_image v c xs) = 6 + length xs"
  by (simp add: versioned_image_def)

lemma enc_versioned_emits [emits_intro]:
  assumes "enc_wf e" and "length xs < 2 ^ 32"
    and inner: "\<And>l. emits (enc_new l) (encode (enc_new l)) xs"
  shows "emits e (enc_versioned v c encode e) (versioned_image v c xs)"
proof (cases "enc_finish (encode (enc_new (min (enc_limit e) (2 ^ 32 - 1))))")
  case (Inl err)
  then have "\<not> length xs \<le> enc_limit e"
    using emitsD(6) [OF inner [of "min (enc_limit e) (2 ^ 32 - 1)"]] assms(2)
    by (fastforce simp: enc_new_def enc_finish_def split: option.splits)
  with Inl assms(1) show ?thesis
    by (auto simp: enc_versioned_def emits_def enc_wf_def)
next
  case (Inr payload)
  then have "payload = xs"
    using emitsD(4) [OF inner [of "min (enc_limit e) (2 ^ 32 - 1)"]] by (simp add: enc_new_def)
  moreover have "emits e (enc_raw xs (enc_u32 (of_nat (length xs)) (enc_u8 c (enc_u8 v e))))
      ((([v] @ [c]) @ to_le_bytes (of_nat (length xs) :: u32)) @ xs)"
    using assms(1) by (meson emits_trans enc_raw_emits enc_u8_emits enc_fixed_emits(2) enc_wf_ops)
  ultimately show ?thesis
    using Inr assms(2) by (simp add: enc_versioned_def enc_finish_def versioned_image_def)
qed

lemma dec_versioned_ready:
  assumes "ready d (versioned_image v c xs @ rest)" and "c \<le> local"
    and "length xs < 2 ^ 32" and "length xs \<le> dec_max d"
  shows "dec_versioned local d = ((v, dec_new xs (dec_max d)), dec_advance (6 + length xs) d)"
proof -
  let ?n = "to_le_bytes (of_nat (length xs) :: u32)"
  have r0: "ready d (v # c # ?n @ xs @ rest)"
    using assms(1) by (simp add: versioned_image_def)
  then have r1: "ready (dec_advance 1 d) (c # ?n @ xs @ rest)"
    using ready_advance [of d "[v]"] by simp
  then have r2: "ready (dec_advance 2 d) (?n @ xs @ rest)"
    using ready_advance [of "dec_advance 1 d" "[c]"] by (simp flip: Suc_1)
  then have r3: "ready (dec_advance 6 d) (xs @ rest)"
    using ready_advance [of "dec_advance 2 d" ?n] by simp
  show ?thesis
    using dec_fixed_ready(1) [OF r0] dec_fixed_ready(1) [OF r1] dec_fixed_ready(3) [OF r2]
      dec_take_ready [OF r3 refl] ready_error [OF r0] assms(2-4)
    by (auto simp add: dec_versioned_def unat_of_length simp flip: Suc_1)
qed

lemma dec_versioned_rdr [simp]:
  assumes "c \<le> local" and "length xs < 2 ^ 32" and "length xs \<le> m"
  shows "dec_versioned local (rdr pre (versioned_image v c xs @ rest) m) =
      ((v, rdr [] xs m), rdr (pre @ versioned_image v c xs) rest m)"
    and "dec_versioned local (rdr pre (versioned_image v c xs) m) =
      ((v, rdr [] xs m), rdr (pre @ versioned_image v c xs) [] m)"
  using dec_versioned_ready [of "rdr pre (versioned_image v c xs @ rest) m" v c xs rest local]
    dec_versioned_ready [of "rdr pre (versioned_image v c xs) m" v c xs "[]" local] assms
  by simp_all

section \<open>Chains of writes\<close>

lemma emits_eq: "emits e e' xs \<Longrightarrow> xs = ys \<Longrightarrow> emits e e' ys"
  by simp

named_theorems emits_step \<open>appending one write to a chain\<close>

lemma emits_then [emits_step]:
  assumes "emits e e' xs"
  shows "emits e (enc_raw ys e') (xs @ ys)" "emits e (enc_u8 a e') (xs @ [a])"
    "emits e (enc_u16 b e') (xs @ to_le_bytes b)" "emits e (enc_u32 c e') (xs @ to_le_bytes c)"
    "emits e (enc_u64 f e') (xs @ to_le_bytes f)"
    "emits e (enc_i32 i e') (xs @ to_le_bytes (word_of_int i :: u32))"
    "emits e (enc_i64 i e') (xs @ to_le_bytes (word_of_int i :: u64))"
    "emits e (enc_bool x e') (xs @ [if x then 1 else 0])"
  using emitsD(2) [OF assms] by (blast intro: emits_trans [OF assms] emits_intro)+

lemma emits_then_lbytes [emits_step]:
  "emits e e' xs \<Longrightarrow> length ys < 2 ^ 32 \<Longrightarrow> emits e (enc_lbytes ys e') (xs @ lbytes_image ys)"
  by (auto intro!: emits_trans emits_intro dest: emitsD(2))

section \<open>Reads only move forward\<close>

text \<open>
  \<open>dec_ext d d'\<close> holds between a decoder and the same decoder after some reads: same slice and
  limit, the offset never moves back and stays inside the slice, and nothing moves after an error.
\<close>

definition dec_ext :: "decoder \<Rightarrow> decoder \<Rightarrow> bool" where
  "dec_ext d d' \<longleftrightarrow>
     dec_bytes d' = dec_bytes d \<and> dec_max d' = dec_max d \<and> dec_offset d \<le> dec_offset d' \<and>
     (dec_wf d \<longrightarrow> dec_wf d') \<and> (dec_error d \<noteq> None \<longrightarrow> d' = d)"

named_theorems dec_ext_intro \<open>every read extends its decoder\<close>

lemma dec_ext_refl [simp]: "dec_ext d d"
  by (simp add: dec_ext_def)

lemma dec_ext_trans: "dec_ext d d' \<Longrightarrow> dec_ext d' d'' \<Longrightarrow> dec_ext d d''"
  by (auto simp: dec_ext_def)

lemma dec_ext_error: "dec_ext d d' \<Longrightarrow> dec_error d' = None \<Longrightarrow> dec_error d = None"
  by (auto simp: dec_ext_def)

lemma dec_ext_remaining: "dec_ext d d' \<Longrightarrow> dec_remaining d' \<le> dec_remaining d"
  by (auto simp: dec_ext_def dec_remaining_def)

lemma dec_take_ext: "dec_take n d = (xs, d') \<Longrightarrow> dec_ext d d'"
  by (auto simp: dec_take_def dec_ext_def dec_wf_def split: if_splits option.splits)

lemma dec_word_ext [dec_ext_intro]:
  "dec_raw n d = (xs, d') \<Longrightarrow> dec_ext d d'"
  "dec_u8 d = (a, d') \<Longrightarrow> dec_ext d d'"
  "dec_u16 d = (b, d') \<Longrightarrow> dec_ext d d'"
  "dec_u32 d = (c, d') \<Longrightarrow> dec_ext d d'"
  "dec_u64 d = (f, d') \<Longrightarrow> dec_ext d d'"
  by (auto simp: dec_raw_def dec_u8_def dec_u16_def dec_u32_def dec_u64_def intro: dec_take_ext
      split: prod.splits)

lemma dec_signed_ext [dec_ext_intro]:
  "dec_i8 d = (i, d') \<Longrightarrow> dec_ext d d'"
  "dec_i16 d = (i, d') \<Longrightarrow> dec_ext d d'"
  "dec_i32 d = (i, d') \<Longrightarrow> dec_ext d d'"
  "dec_i64 d = (i, d') \<Longrightarrow> dec_ext d d'"
  "dec_bool d = (x, d') \<Longrightarrow> dec_ext d d'"
  by (auto simp: dec_i8_def dec_i16_def dec_i32_def dec_i64_def dec_bool_def intro: dec_ext_intro
      split: prod.splits)

lemma dec_fail_ext: "dec_error d = None \<Longrightarrow> dec_ext d (d\<lparr>dec_error := Some e\<rparr>)"
  by (auto simp: dec_ext_def dec_wf_def)

lemma dec_lbytes_ext [dec_ext_intro]: "dec_lbytes d = (xs, d') \<Longrightarrow> dec_ext d d'"
  by (auto simp: dec_lbytes_def intro: dec_ext_intro dec_ext_trans dec_fail_ext
      split: prod.splits if_splits)

lemma dec_string_ext [dec_ext_intro]: "dec_string d = (xs, d') \<Longrightarrow> dec_ext d d'"
  by (auto simp: dec_string_def intro: dec_ext_intro split: prod.splits)

lemma dec_versioned_ext [dec_ext_intro]:
  assumes "dec_versioned local d = ((v, p), d')"
  shows "dec_ext d d'"
proof -
  obtain a d1 c d2 n d3 where
    steps: "dec_u8 d = (a, d1)" "dec_u8 d1 = (c, d2)" "dec_u32 d2 = (n, d3)"
    by (metis surj_pair)
  then have "dec_ext d d3" by (blast intro: dec_ext_intro dec_ext_trans)
  moreover have "dec_ext d3 d'"
    using assms steps
    by (auto simp: dec_versioned_def Let_def intro: dec_take_ext dec_fail_ext
        split: prod.splits if_splits)
  ultimately show ?thesis by (rule dec_ext_trans)
qed

lemma dec_times_ext:
  assumes "\<And>d v d'. get d = (v, d') \<Longrightarrow> dec_ext d d'"
  shows "dec_times get n d = (vs, d') \<Longrightarrow> dec_ext d d'"
proof (induction n arbitrary: d vs)
  case (Suc n)
  then show ?case by (auto simp: Let_def intro: assms dec_ext_trans split: prod.splits)
qed simp

lemma length_dec_times: "dec_times get n d = (vs, d') \<Longrightarrow> length vs = n"
  by (induction n arbitrary: d vs) (auto simp: Let_def split: prod.splits)

end
