(* ===== verification/Protocol.thy ===== *)
theory Protocol
  imports Wire
begin

text \<open>
  \<open>src/protocol\<close> and \<open>src/error.rs\<close>: the feature masks, the signed wire errno and the
  public error it becomes, and entity addresses with their legacy and modern encodings.
\<close>

section \<open>Feature masks (\<open>features.rs\<close>)\<close>

type_synonym global_features = u64

definition SERVER_NAUTILUS :: global_features where
  "SERVER_NAUTILUS = push_bit 2 1"

definition SERVER_MIMIC_INCARNATION :: global_features where
  "SERVER_MIMIC_INCARNATION = push_bit 57 1 OR push_bit 28 1"

definition SERVER_NAUTILUS_MASK :: global_features where
  "SERVER_NAUTILUS_MASK = SERVER_NAUTILUS OR SERVER_MIMIC_INCARNATION"

definition MESSAGE_ADDRESS_V2 :: global_features where
  "MESSAGE_ADDRESS_V2 = push_bit 59 1"

definition MONITOR_NAMES :: global_features where
  "MONITOR_NAMES = push_bit 5 1"

definition MONITOR_ENCODING :: global_features where
  "MONITOR_ENCODING = push_bit 15 1"

definition PGID64 :: global_features where
  "PGID64 = push_bit 9 1"

definition MONITOR_CLIENT :: global_features where
  "MONITOR_CLIENT = 0x2f070a92d235ea24"

definition OSD_CLIENT :: global_features where
  "OSD_CLIENT = 0x2f070a92d235fa24"

definition features_contains :: "u64 \<Rightarrow> u64 \<Rightarrow> bool" where
  "features_contains self required \<longleftrightarrow> self AND required = required"

section \<open>Errors (\<open>error.rs\<close>, \<open>errno.rs\<close>)\<close>

datatype error_kind =
    EK_NotFound | EK_AlreadyExists | EK_PermissionDenied | EK_Unsupported | EK_InvalidArgument
  | EK_QuotaOrFull | EK_Conflict | EK_Timeout | EK_Canceled | EK_Closed | EK_NotConnected
  | EK_OutcomeUnknown | EK_WatchInterrupted | EK_Unknown

record client_error =
  err_kind :: error_kind
  err_cause_kind :: "error_kind option"
  err_operation :: "string option"
  err_target :: "string option"
  err_wire_errno :: "i32 option"

definition error_new :: "error_kind \<Rightarrow> client_error" where
  "error_new kind = \<lparr>err_kind = kind, err_cause_kind = None, err_operation = None,
     err_target = None, err_wire_errno = None\<rparr>"

definition error_from_wire :: "error_kind \<Rightarrow> i32 \<Rightarrow> client_error" where
  "error_from_wire kind wire_errno = \<lparr>err_kind = kind, err_cause_kind = None,
     err_operation = None, err_target = None, err_wire_errno = Some wire_errno\<rparr>"

definition error_outcome_unknown :: "error_kind \<Rightarrow> client_error" where
  "error_outcome_unknown cause = \<lparr>err_kind = EK_OutcomeUnknown, err_cause_kind = Some cause,
     err_operation = None, err_target = None, err_wire_errno = None\<rparr>"

definition error_with_operation :: "string \<Rightarrow> client_error \<Rightarrow> client_error" where
  "error_with_operation operation e = e\<lparr>err_operation := Some operation\<rparr>"

text \<open>\<open>format!("{} bytes", n)\<close>: decimal digits, most significant first.\<close>

fun show_nat :: "nat \<Rightarrow> string" where
  "show_nat n = (if n < 10 then [char_of (48 + n)] else show_nat (n div 10) @ [char_of (48 + n mod 10)])"

declare show_nat.simps [simp del]

definition error_with_safe_target :: "bytes \<Rightarrow> client_error \<Rightarrow> client_error" where
  "error_with_safe_target bs e = e\<lparr>err_target := Some (show_nat (length bs) @ '' bytes'')\<rparr>"

definition error_is_kind :: "client_error \<Rightarrow> error_kind \<Rightarrow> bool" where
  "error_is_kind e kind \<longleftrightarrow> err_kind e = kind \<or> err_cause_kind e = Some kind"

datatype wire_error_class =
    WC_Unknown | WC_NotFound | WC_Exists | WC_Permission | WC_Unsupported | WC_Invalid
  | WC_QuotaOrFull | WC_Conflict | WC_Timeout | WC_Canceled

definition errno_class :: "i32 \<Rightarrow> wire_error_class" where
  "errno_class e =
     (if e = -2 then WC_NotFound
      else if e = -17 then WC_Exists
      else if e = -1 \<or> e = -13 then WC_Permission
      else if e = -38 \<or> e = -95 then WC_Unsupported
      else if e = -22 then WC_Invalid
      else if e = -28 \<or> e = -122 then WC_QuotaOrFull
      else if e = -11 \<or> e = -16 \<or> e = -35 then WC_Conflict
      else if e = -110 then WC_Timeout
      else if e = -125 then WC_Canceled
      else WC_Unknown)"

fun class_kind :: "wire_error_class \<Rightarrow> error_kind" where
  "class_kind WC_Unknown = EK_Unknown"
| "class_kind WC_NotFound = EK_NotFound"
| "class_kind WC_Exists = EK_AlreadyExists"
| "class_kind WC_Permission = EK_PermissionDenied"
| "class_kind WC_Unsupported = EK_Unsupported"
| "class_kind WC_Invalid = EK_InvalidArgument"
| "class_kind WC_QuotaOrFull = EK_QuotaOrFull"
| "class_kind WC_Conflict = EK_Conflict"
| "class_kind WC_Timeout = EK_Timeout"
| "class_kind WC_Canceled = EK_Canceled"

definition error_from_errno :: "i32 \<Rightarrow> client_error" where
  "error_from_errno errno = error_from_wire (class_kind (errno_class errno)) errno"

definition errno_encode :: "i32 \<Rightarrow> encoder \<Rightarrow> encoder" where
  "errno_encode errno = enc_u32 (from_le_bytes (to_le_bytes (word_of_int errno :: u32)))"

definition errno_decode :: "decoder \<Rightarrow> i32 \<times> decoder" where
  "errno_decode d = (let (w, d') = dec_u32 d in (sint (from_le_bytes (to_le_bytes w) :: u32), d'))"

section \<open>Entity addresses (\<open>address.rs\<close>)\<close>

definition AF_UNSPEC :: u16 where "AF_UNSPEC = 0"
definition AF_INET :: u16 where "AF_INET = 2"
definition AF_INET6 :: u16 where "AF_INET6 = 10"
definition LEGACY_SOCKADDR_SIZE :: usize where "LEGACY_SOCKADDR_SIZE = 128"

definition ADDR_NONE :: u32 where "ADDR_NONE = 0"
definition ADDR_LEGACY :: u32 where "ADDR_LEGACY = 1"
definition ADDR_V2 :: u32 where "ADDR_V2 = 2"
definition ADDR_ANY :: u32 where "ADDR_ANY = 3"

record entity_addr =
  address_type :: u32
  addr_nonce :: u32
  family :: u16
  socket_data :: bytes
  legacy_encoding :: bool

text \<open>\<open>std::net::SocketAddr\<close>: the address octets and the port.\<close>

datatype socket_addr = SocketV4 bytes u16 | SocketV6 bytes u16

fun socket_port :: "socket_addr \<Rightarrow> u16" where
  "socket_port (SocketV4 _ p) = p"
| "socket_port (SocketV6 _ p) = p"

text \<open>\<open>impl PartialEq for EntityAddr\<close> leaves the encoding hint out.\<close>

definition addr_eq :: "entity_addr \<Rightarrow> entity_addr \<Rightarrow> bool" where
  "addr_eq a b \<longleftrightarrow> address_type a = address_type b \<and> addr_nonce a = addr_nonce b \<and>
     family a = family b \<and> socket_data a = socket_data b"

definition addr_ipv4_v2 :: "socket_addr \<Rightarrow> wire_error + entity_addr" where
  "addr_ipv4_v2 endpoint =
     (case endpoint of
        SocketV6 _ _ \<Rightarrow> Inl WE_Malformed
      | SocketV4 octets port \<Rightarrow>
          Inr \<lparr>address_type = ADDR_V2, addr_nonce = 0, family = AF_INET,
               socket_data = to_be_bytes port @ octets @ replicate 8 0,
               legacy_encoding = False\<rparr>)"

definition addr_with_nonce :: "u32 \<Rightarrow> entity_addr \<Rightarrow> entity_addr" where
  "addr_with_nonce nonce a = a\<lparr>addr_nonce := nonce\<rparr>"

definition addr_is_v2 :: "entity_addr \<Rightarrow> bool" where
  "addr_is_v2 a \<longleftrightarrow> address_type a = ADDR_V2"

text \<open>
  \<open>EntityAddr::endpoint\<close>.  The outer option is a panic: the IPv4 branch indexes
  \<open>socket_data[2..=5]\<close> without a check.
\<close>

definition addr_endpoint :: "entity_addr \<Rightarrow> socket_addr option option" where
  "addr_endpoint a =
     (if length (socket_data a) < 2 then Some None
      else let port = from_be_bytes (take 2 (socket_data a)) in
        if family a = AF_INET then
          (if length (socket_data a) < 6 then None
           else Some (Some (SocketV4 (take 4 (drop 2 (socket_data a))) port)))
        else if family a = AF_INET6 then
          (if length (socket_data a) < 22 then Some None
           else Some (Some (SocketV6 (take 16 (drop 6 (socket_data a))) port)))
        else Some None)"

definition socket_data_length :: "u16 \<Rightarrow> wire_error + usize" where
  "socket_data_length fam =
     (if fam = AF_INET then Inr 14
      else if fam = AF_UNSPEC \<or> fam = AF_INET6 then Inr 26
      else Inl WE_Malformed)"

definition addr_decode_after_marker :: "decoder \<Rightarrow> u8 \<Rightarrow> wire_error + (entity_addr \<times> decoder)" where
  "addr_decode_after_marker d marker =
     (if marker = 0 then
        let (_, d) = dec_raw 3 d; (nonce, d) = dec_u32 d; (socket, d) = dec_raw LEGACY_SOCKADDR_SIZE d
        in rbind (dec_finish d) (\<lambda>_.
           let fam = from_be_bytes [socket ! 0, socket ! 1]
           in rbind (socket_data_length fam) (\<lambda>len.
              Inr (\<lparr>address_type = (if fam = AF_UNSPEC then ADDR_NONE else ADDR_LEGACY),
                    addr_nonce = nonce, family = fam,
                    socket_data = take len (drop 2 socket), legacy_encoding = True\<rparr>, d)))
      else if marker = 1 then
        let ((_, p), d) = dec_versioned 1 d;
            (ty, p) = dec_u32 p; (nonce, p) = dec_u32 p; (encoded_length, p) = dec_u32 p
        in if unat encoded_length = 0 then
             rbind (dec_finish p) (\<lambda>_. rbind (dec_finish d) (\<lambda>_.
             Inr (\<lparr>address_type = ty, addr_nonce = nonce, family = AF_UNSPEC,
                   socket_data = replicate 26 0, legacy_encoding = False\<rparr>, d)))
           else if unat encoded_length < 2 then Inl WE_Malformed
           else let (fam, p) = dec_u16 p in
             rbind (socket_data_length fam) (\<lambda>maximum.
             let data_length = unat encoded_length - 2 in
             if data_length > maximum then Inl WE_Malformed
             else let (encoded, p) = dec_raw data_length p in
               rbind (dec_finish p) (\<lambda>_. rbind (dec_finish d) (\<lambda>_.
               Inr (\<lparr>address_type = ty, addr_nonce = nonce, family = fam,
                     socket_data = encoded @ replicate (maximum - length encoded) 0,
                     legacy_encoding = False\<rparr>, d))))
      else Inl WE_Malformed)"

definition addr_decode :: "decoder \<Rightarrow> wire_error + (entity_addr \<times> decoder)" where
  "addr_decode d =
     (let (marker, d) = dec_u8 d
      in rbind (dec_finish d) (\<lambda>_. addr_decode_after_marker d marker))"

definition addr_encode :: "entity_addr \<Rightarrow> global_features \<Rightarrow> encoder \<Rightarrow> wire_error + encoder" where
  "addr_encode a features e =
     rbind (socket_data_length (family a)) (\<lambda>len.
       if length (socket_data a) \<noteq> len then Inl WE_Malformed
       else if \<not> features_contains features MESSAGE_ADDRESS_V2 then
         Inr (enc_raw (to_be_bytes (family a) @ socket_data a
                        @ replicate (LEGACY_SOCKADDR_SIZE - 2 - length (socket_data a)) 0)
               (enc_u32 (addr_nonce a) (enc_u32 0 e)))
       else
         let ty = (if address_type a = ADDR_ANY \<and> \<not> features_contains features SERVER_NAUTILUS_MASK
                   then ADDR_LEGACY else address_type a)
         in Inr (enc_versioned 1 1
                   (\<lambda>p. enc_raw (socket_data a) (enc_u16 (family a)
                      (enc_u32 (of_nat (2 + length (socket_data a)))
                      (enc_u32 (addr_nonce a) (enc_u32 ty p)))))
                   (enc_u8 1 e)))"

definition addr_encoding_features :: "entity_addr \<Rightarrow> global_features" where
  "addr_encoding_features a =
     (if legacy_encoding a then 0 else MESSAGE_ADDRESS_V2 OR SERVER_NAUTILUS_MASK)"

definition addr_has_same_endpoint :: "entity_addr \<Rightarrow> entity_addr \<Rightarrow> bool" where
  "addr_has_same_endpoint a b \<longleftrightarrow>
     family a \<noteq> AF_UNSPEC \<and> family a = family b \<and> socket_data a = socket_data b"

type_synonym entity_addr_vec = "entity_addr list"

fun addr_decode_times :: "nat \<Rightarrow> decoder \<Rightarrow> wire_error + (entity_addr list \<times> decoder)" where
  "addr_decode_times 0 d = Inr ([], d)"
| "addr_decode_times (Suc n) d =
     rbind (addr_decode d) (\<lambda>(a, d). rbind (addr_decode_times n d) (\<lambda>(as, d). Inr (a # as, d)))"

definition addrvec_decode :: "decoder \<Rightarrow> u32 \<Rightarrow> wire_error + (entity_addr_vec \<times> decoder)" where
  "addrvec_decode d max_addresses =
     (let (marker, d) = dec_u8 d in
      rbind (dec_finish d) (\<lambda>_.
      if marker < 2 then rbind (addr_decode_after_marker d marker) (\<lambda>(a, d). Inr ([a], d))
      else if marker \<noteq> 2 then Inl WE_Malformed
      else let (count, d) = dec_u32 d in
        if count > max_addresses then Inl WE_LimitExceeded
        else if unat count > dec_remaining d then Inl WE_Malformed
        else rbind (addr_decode_times (unat count) d) (\<lambda>(as, d).
             rbind (dec_finish d) (\<lambda>_. Inr (as, d)))))"

fun addr_encode_all ::
    "entity_addr list \<Rightarrow> global_features \<Rightarrow> encoder \<Rightarrow> wire_error + encoder" where
  "addr_encode_all [] features e = Inr e"
| "addr_encode_all (a # as) features e =
     rbind (addr_encode a features e) (addr_encode_all as features)"

definition addrvec_encode ::
    "entity_addr_vec \<Rightarrow> global_features \<Rightarrow> encoder \<Rightarrow> wire_error + encoder" where
  "addrvec_encode as features e =
     (if \<not> features_contains features MESSAGE_ADDRESS_V2 then
        (case find (\<lambda>a. address_type a = ADDR_LEGACY) as of
           Some a \<Rightarrow> addr_encode a 0 e
         | None \<Rightarrow> addr_encode \<lparr>address_type = ADDR_NONE, addr_nonce = 0, family = AF_UNSPEC,
                      socket_data = replicate 26 0, legacy_encoding = True\<rparr> 0 e)
      else if length as \<ge> 2 ^ 32 then Inl WE_LimitExceeded
      else addr_encode_all as features (enc_u32 (of_nat (length as)) (enc_u8 2 e)))"

section \<open>Well-formed addresses\<close>

definition addr_wf :: "entity_addr \<Rightarrow> bool" where
  "addr_wf a \<longleftrightarrow> socket_data_length (family a) = Inr (length (socket_data a))"

lemma socket_data_length_cases:
  "socket_data_length fam = Inr n \<Longrightarrow> n = 14 \<or> n = 26"
  by (auto simp: socket_data_length_def split: if_splits)

lemma length_dec_raw: "dec_raw n d = (xs, d') \<Longrightarrow> dec_finish d' = Inr () \<Longrightarrow> length xs = n"
  by (auto simp: dec_raw_def dec_take_def dec_finish_def split: if_splits option.splits)

lemma length_dec_raw_le: "dec_raw n d = (xs, d') \<Longrightarrow> length xs \<le> n"
  by (auto simp: dec_raw_def dec_take_def split: if_splits)

lemma addr_decode_after_marker_wf:
  assumes "addr_decode_after_marker d marker = Inr (a, d')"
  shows "addr_wf a"
proof -
  consider "marker = 0" | "marker = 1" | "marker \<noteq> 0" "marker \<noteq> 1" by blast
  then show ?thesis
  proof cases
    case 1
    obtain x0 d0 nonce d1 socket d2 where
      reads: "dec_raw 3 d = (x0, d0)" "dec_u32 d0 = (nonce, d1)"
        "dec_raw LEGACY_SOCKADDR_SIZE d1 = (socket, d2)"
      by (metis surj_pair)
    from assms 1 reads obtain len where
      len: "dec_finish d2 = Inr ()" "socket_data_length (from_be_bytes [socket ! 0, socket ! 1]) = Inr len"
        "family a = from_be_bytes [socket ! 0, socket ! 1]" "socket_data a = take len (drop 2 socket)"
      by (auto simp: addr_decode_after_marker_def Let_def)
    moreover have "length socket = 128"
      using length_dec_raw [OF reads(3) len(1)] by (simp add: LEGACY_SOCKADDR_SIZE_def)
    ultimately show ?thesis
      using socket_data_length_cases [OF len(2)] by (auto simp: addr_wf_def)
  next
    case 2
    then show ?thesis
      using assms
      by (auto simp: addr_decode_after_marker_def addr_wf_def Let_def
          dest!: length_dec_raw_le split: prod.splits if_splits)
        (simp_all add: socket_data_length_def AF_UNSPEC_def AF_INET_def)
  next
    case 3
    then show ?thesis using assms by (simp add: addr_decode_after_marker_def)
  qed
qed

lemma addr_decode_wf: "addr_decode d = Inr (a, d') \<Longrightarrow> addr_wf a"
  by (auto simp: addr_decode_def Let_def intro: addr_decode_after_marker_wf split: prod.splits)

lemma addr_decode_times_wf: "addr_decode_times n d = Inr (as, d') \<Longrightarrow> list_all addr_wf as"
  by (induction n arbitrary: d as d') (auto intro: addr_decode_wf)

lemma addrvec_decode_all_wf: "addrvec_decode d n = Inr (as, d') \<Longrightarrow> list_all addr_wf as"
  by (auto simp: addrvec_decode_def Let_def
      intro: addr_decode_after_marker_wf addr_decode_times_wf split: prod.splits if_splits)

lemma addr_endpoint_wf: "addr_wf a \<Longrightarrow> addr_endpoint a \<noteq> None"
  by (auto simp: addr_wf_def addr_endpoint_def socket_data_length_def Let_def AF_INET_def AF_INET6_def
      AF_UNSPEC_def split: if_splits)

section \<open>The modern encoding round trips\<close>

text \<open>
  An address keeps its type on the wire unless it is \<open>ANY\<close> and the peer predates Nautilus.
\<close>

definition modern_features :: "global_features \<Rightarrow> entity_addr \<Rightarrow> bool" where
  "modern_features features a \<longleftrightarrow> features_contains features MESSAGE_ADDRESS_V2 \<and>
     (address_type a = ADDR_ANY \<longrightarrow> features_contains features SERVER_NAUTILUS_MASK)"

definition addr_payload :: "entity_addr \<Rightarrow> bytes" where
  "addr_payload a = to_le_bytes (address_type a) @ to_le_bytes (addr_nonce a) @
     to_le_bytes (of_nat (2 + length (socket_data a)) :: u32) @ to_le_bytes (family a) @ socket_data a"

definition addr_image :: "entity_addr \<Rightarrow> bytes" where
  "addr_image a = 1 # versioned_image 1 1 (addr_payload a)"

lemma addr_wf_length: "addr_wf a \<Longrightarrow> length (socket_data a) = 14 \<or> length (socket_data a) = 26"
  by (auto simp: addr_wf_def dest: socket_data_length_cases)

lemma addr_encode_emits:
  assumes "addr_wf a" and "modern_features features a" and "enc_wf e"
  shows "\<exists>e'. addr_encode a features e = Inr e' \<and> emits e e' (addr_image a)"
proof -
  let ?enc = "\<lambda>p. enc_raw (socket_data a) (enc_u16 (family a)
      (enc_u32 (of_nat (2 + length (socket_data a))) (enc_u32 (addr_nonce a)
      (enc_u32 (address_type a) p))))"
  have "emits (enc_new l) (?enc (enc_new l)) (addr_payload a)" for l
    by (rule emits_eq, (rule emits_step)+, rule emits_refl) (simp_all add: addr_payload_def)
  then have "emits (enc_u8 1 e) (enc_versioned 1 1 ?enc (enc_u8 1 e)) (versioned_image 1 1 (addr_payload a))"
    using assms(3) addr_wf_length [OF assms(1)]
    by (intro enc_versioned_emits) (auto simp: addr_payload_def)
  then have "emits e (enc_versioned 1 1 ?enc (enc_u8 1 e)) (addr_image a)"
    using emits_trans [OF enc_u8_emits [OF assms(3), of 1]] by (simp add: addr_image_def)
  then show ?thesis
    using assms(1,2) by (auto simp: addr_encode_def addr_wf_def modern_features_def Let_def)
qed

lemma length_addr_payload: "addr_wf a \<Longrightarrow> length (addr_payload a) \<le> 40"
  using addr_wf_length [of a] by (auto simp: addr_payload_def)

lemma list_all_addr_payload:
  "list_all addr_wf as \<Longrightarrow> 40 \<le> m \<Longrightarrow> list_all (\<lambda>a. length (addr_payload a) \<le> m) as"
  by (induction as) (auto dest: length_addr_payload)

lemma addr_decode_rdr:
  assumes wf: "addr_wf a" and modern: "\<not> legacy_encoding a" and m: "length (addr_payload a) \<le> m"
  shows "addr_decode (rdr pre (addr_image a @ rest) m) = Inr (a, rdr (pre @ addr_image a) rest m)"
proof -
  have len: "unat (of_nat (2 + length (socket_data a)) :: u32) = 2 + length (socket_data a)"
    using addr_wf_length [OF wf] by auto
  have pl: "length (addr_payload a) < 2 ^ 32" "length (addr_payload a) \<le> m"
    using length_addr_payload [OF wf] m by simp_all
  have "addr_decode_after_marker (rdr (pre @ [1]) (versioned_image 1 1 (addr_payload a) @ rest) m) 1 =
      Inr (a, rdr ((pre @ [1]) @ versioned_image 1 1 (addr_payload a)) rest m)"
    using pl wf modern len
    by (simp add: addr_decode_after_marker_def Let_def addr_wf_def addr_payload_def)
  then show ?thesis
    by (simp add: addr_decode_def addr_image_def)
qed

text \<open>The address vector: count, then the addresses.\<close>

definition addrvec_image :: "entity_addr list \<Rightarrow> bytes" where
  "addrvec_image as = 2 # to_le_bytes (of_nat (length as) :: u32) @ concat (map addr_image as)"

lemma addr_encode_all_emits:
  assumes "list_all addr_wf as" and "list_all (modern_features features) as" and "enc_wf e"
  shows "\<exists>e'. addr_encode_all as features e = Inr e' \<and> emits e e' (concat (map addr_image as))"
  using assms
proof (induction as arbitrary: e)
  case Nil
  then show ?case by (simp add: emits_refl)
next
  case (Cons a as)
  from Cons.prems obtain e1 where e1: "addr_encode a features e = Inr e1" "emits e e1 (addr_image a)"
    using addr_encode_emits [of a features e] by auto
  with Cons obtain e2 where "addr_encode_all as features e1 = Inr e2"
      "emits e1 e2 (concat (map addr_image as))"
    by (fastforce dest: emitsD(2))
  with e1 show ?case by (auto intro: emits_trans)
qed

lemma addr_decode_times_rdr:
  assumes "list_all addr_wf as" and "list_all (Not \<circ> legacy_encoding) as"
    and "list_all (\<lambda>a. length (addr_payload a) \<le> m) as"
  shows "addr_decode_times (length as) (rdr pre (concat (map addr_image as) @ rest) m) =
    Inr (as, rdr (pre @ concat (map addr_image as)) rest m)"
  using assms by (induction as arbitrary: pre) (simp_all add: addr_decode_rdr)

lemma length_concat_addr_image: "length as \<le> length (concat (map addr_image as))"
  by (induction as) (simp_all add: addr_image_def)

lemma addrvec_encode_emits:
  assumes "list_all addr_wf as" and "list_all (modern_features features) as" and "enc_wf e"
    and "length as < 2 ^ 32" and "features_contains features MESSAGE_ADDRESS_V2"
  shows "\<exists>e'. addrvec_encode as features e = Inr e' \<and> emits e e' (addrvec_image as)"
proof -
  let ?e = "enc_u32 (of_nat (length as)) (enc_u8 2 e)"
  have "emits e ?e ([2] @ to_le_bytes (of_nat (length as) :: u32))"
    by (rule emits_then) (rule enc_u8_emits [OF assms(3)])
  moreover obtain e' where "addr_encode_all as features ?e = Inr e'"
      "emits ?e e' (concat (map addr_image as))"
    using addr_encode_all_emits [OF assms(1,2), of ?e] assms(3) by auto
  ultimately have "emits e e' (addrvec_image as)"
    using emits_trans by (fastforce simp: addrvec_image_def)
  with \<open>addr_encode_all as features ?e = Inr e'\<close> show ?thesis
    using assms(4,5) by (simp add: addrvec_encode_def)
qed

lemma addrvec_decode_rdr:
  assumes "list_all addr_wf as" and "list_all (Not \<circ> legacy_encoding) as"
    and "list_all (\<lambda>a. length (addr_payload a) \<le> m) as" and "length as \<le> unat max_addresses"
  shows "addrvec_decode (rdr pre (addrvec_image as @ rest) m) max_addresses =
    Inr (as, rdr (pre @ addrvec_image as) rest m)"
proof -
  have lt: "length as < 2 ^ 32"
    using assms(4) unsigned_less [of max_addresses, where 'a = nat] by simp
  have n: "unat (of_nat (length as) :: u32) = length as"
    using lt by (rule unat_of_length)
  then have "\<not> max_addresses < of_nat (length as)"
    using assms(4) by (simp add: word_less_nat_alt)
  then show ?thesis
    using assms n length_concat_addr_image [of as]
      addr_decode_times_rdr [OF assms(1-3), of "pre @ 2 # to_le_bytes (of_nat (length as) :: u32)" rest]
    by (simp add: addrvec_decode_def addrvec_image_def)
qed

section \<open>Properties\<close>

definition sample_addr :: entity_addr where
  "sample_addr = \<lparr>address_type = ADDR_V2, addr_nonce = 7, family = AF_INET,
     socket_data = to_be_bytes (6800 :: u16) @ [192, 0, 2, 1] @ replicate 8 0,
     legacy_encoding = False\<rparr>"

lemma sample_addr_wf [simp]: "addr_wf sample_addr" "\<not> legacy_encoding sample_addr"
  by (simp_all add: sample_addr_def addr_wf_def socket_data_length_def)

lemma modern_features_control:
  "features_contains features (MESSAGE_ADDRESS_V2 OR SERVER_NAUTILUS_MASK) \<Longrightarrow>
     features_contains features MESSAGE_ADDRESS_V2 \<and> modern_features features a"
  unfolding features_contains_def modern_features_def bit_eq_iff
  by (auto simp: bit_and_iff bit_or_iff)

text \<open>C26: Address vectors survive the wire.  For a peer with the modern address features, the
  bytes \<open>EntityAddrVec::encode\<close> writes for well-formed addresses decode back to the same
  addresses, in order, with nothing left over.\<close>

theorem addrvec_roundtrip:
  assumes "list_all addr_wf as" and "list_all (Not \<circ> legacy_encoding) as"
    and "features_contains features (MESSAGE_ADDRESS_V2 OR SERVER_NAUTILUS_MASK)"
    and "length as \<le> unat max_addresses" and "40 \<le> max_bytes"
    and "addrvec_encode as features (enc_new limit) = Inr e" and "enc_finish e = Inr wire"
  shows "\<exists>d. addrvec_decode (dec_new wire max_bytes) max_addresses = Inr (as, d) \<and>
    dec_finish d = Inr () \<and> dec_remaining d = 0"
proof -
  have "length as < 2 ^ 32"
    using assms(4) unsigned_less [of max_addresses, where 'a = nat] by simp
  then obtain e' where "addrvec_encode as features (enc_new limit) = Inr e'"
      "emits (enc_new limit) e' (addrvec_image as)"
    using addrvec_encode_emits [OF assms(1), of features "enc_new limit"]
      modern_features_control [OF assms(3)] by (auto simp: list_all_iff)
  then have "wire = addrvec_image as"
    using assms(6,7) emitsD(4) by (fastforce simp: enc_new_def)
  then show ?thesis
    using addrvec_decode_rdr [OF assms(1,2) list_all_addr_payload [OF assms(1,5)] assms(4), of "[]" "[]"]
    by simp
qed

theorem addrvec_roundtrip_witness:
  "\<exists>e wire d. addrvec_encode [sample_addr, sample_addr] MONITOR_CLIENT (enc_new 256) = Inr e \<and>
     enc_finish e = Inr wire \<and>
     addrvec_decode (dec_new wire 64) 4 = Inr ([sample_addr, sample_addr], d) \<and> dec_remaining d = 0"
proof -
  let ?as = "[sample_addr, sample_addr]"
  have f: "features_contains MONITOR_CLIENT (MESSAGE_ADDRESS_V2 OR SERVER_NAUTILUS_MASK)"
    by (simp add: features_contains_def MONITOR_CLIENT_def MESSAGE_ADDRESS_V2_def
        SERVER_NAUTILUS_MASK_def SERVER_NAUTILUS_def SERVER_MIMIC_INCARNATION_def)
  obtain e where e: "addrvec_encode ?as MONITOR_CLIENT (enc_new 256) = Inr e"
      "emits (enc_new 256) e (addrvec_image ?as)"
    using addrvec_encode_emits [of ?as MONITOR_CLIENT "enc_new 256"] modern_features_control [OF f]
    by auto
  have "length (addrvec_image ?as) \<le> 256"
    by (simp add: addrvec_image_def addr_image_def addr_payload_def sample_addr_def)
  then have fin: "enc_finish e = Inr (enc_bytes e)"
    using emitsD(6) [OF e(2)] by (simp add: enc_new_def)
  show ?thesis
    using addrvec_roundtrip [OF _ _ f _ _ e(1) fin, of 4 64] e(1) fin by auto
qed

text \<open>C27: Reading the endpoint of a decoded address never panics: every address the decoder
  accepts, in either encoding, carries exactly the socket bytes its family needs, so the
  unchecked indexing in \<open>EntityAddr::endpoint\<close> stays in range.\<close>

theorem decoded_endpoint_total:
  assumes "addrvec_decode d max_addresses = Inr (as, d')" and "a \<in> set as"
  shows "addr_wf a \<and> (\<exists>r. addr_endpoint a = Some r)"
  using addrvec_decode_all_wf [OF assms(1)] assms(2) addr_endpoint_wf [of a]
  by (auto simp: list_all_iff)

theorem decoded_endpoint_total_witness:
  "\<exists>d. addrvec_decode (rdr [] (addrvec_image [sample_addr]) 64) 4 = Inr ([sample_addr], d) \<and>
     (\<exists>r. addr_endpoint sample_addr = Some r)"
proof -
  have "addrvec_decode (rdr [] (addrvec_image [sample_addr]) 64) 4 =
      Inr ([sample_addr], rdr (addrvec_image [sample_addr]) [] 64)"
    using addrvec_decode_rdr [of "[sample_addr]" 64 4 "[]" "[]"] list_all_addr_payload [of "[sample_addr]" 64]
    by simp
  then show ?thesis
    using decoded_endpoint_total by fastforce
qed

text \<open>Errno values cross the wire as signed 32-bit numbers and reach the caller unchanged:
  decoding what \<open>WireErrno::encode\<close> wrote gives the same number, and the public error made of it
  keeps that number, whatever class it falls in.\<close>

theorem errno_roundtrip:
  assumes "i32_range errno" and "enc_finish (errno_encode errno (enc_new limit)) = Inr wire"
  shows "\<exists>d. errno_decode (dec_new wire m) = (errno, d) \<and> dec_finish d = Inr () \<and>
    err_wire_errno (error_from_errno errno) = Some errno \<and>
    err_kind (error_from_errno errno) = class_kind (errno_class errno)"
proof -
  have "emits (enc_new limit) (errno_encode errno (enc_new limit)) (to_le_bytes (word_of_int errno :: u32))"
    by (simp add: errno_encode_def enc_fixed_emits)
  then have "wire = to_le_bytes (word_of_int errno :: u32)"
    using assms(2) emitsD(4) by (fastforce simp: enc_new_def)
  then show ?thesis
    using assms(1) by (simp add: errno_decode_def error_from_errno_def error_from_wire_def sint_of_i32)
qed

theorem errno_roundtrip_witness:
  "\<exists>d. errno_decode (dec_new [0x85, 0xff, 0xff, 0xff] 0) = (- 123, d) \<and>
     err_wire_errno (error_from_errno (- 123)) = Some (- 123)"
proof -
  have "(word_of_int (- 123) :: u32) = 0xffffff85" by simp
  moreover have "to_le_bytes (0xffffff85 :: u32) = [0x85, 0xff, 0xff, 0xff]"
    by (simp add: to_le_bytes_def)
  ultimately have "enc_finish (errno_encode (- 123) (enc_new 4)) = Inr [0x85, 0xff, 0xff, 0xff]"
    by (simp only: errno_encode_def from_to_le_word) (simp add: enc_u32_def enc_raw_def enc_reserve_def enc_new_def to_from_le_bytes)
  then show ?thesis
    using errno_roundtrip [of "- 123" 4] by (auto simp: i32_range_def)
qed

end
