(* ===== verification/Crush_Map.thy ===== *)
theory Crush_Map
  imports Wire
begin

text \<open>
  \<open>src/crush/map.rs\<close>: the decoded CRUSH map, its bounded decoder, and the graph validation that
  every map passes before it places anything.  The main lemma is that a validated map is a finite
  acyclic hierarchy of bounded height whose leaves are existing devices.
\<close>

section \<open>Data\<close>

definition MAGIC :: u32 where "MAGIC = 0x00010000"
definition BUCKET_STRAW2 :: u32 where "BUCKET_STRAW2 = 5"
definition HASH_RJENKINS1 :: u8 where "HASH_RJENKINS1 = 0"
definition RULE_TAKE :: u32 where "RULE_TAKE = 1"
definition RULE_CHOOSE_FIRST_N :: u32 where "RULE_CHOOSE_FIRST_N = 2"
definition RULE_CHOOSE_INDEP :: u32 where "RULE_CHOOSE_INDEP = 3"
definition RULE_EMIT :: u32 where "RULE_EMIT = 4"
definition RULE_CHOOSELEAF_FIRST_N :: u32 where "RULE_CHOOSELEAF_FIRST_N = 6"
definition RULE_SET_CHOOSE_TRIES :: u32 where "RULE_SET_CHOOSE_TRIES = 8"
definition RULE_SET_CHOOSELEAF_TRIES :: u32 where "RULE_SET_CHOOSELEAF_TRIES = 9"
definition RULE_TYPE_REPLICATED :: u8 where "RULE_TYPE_REPLICATED = 1"
definition RULE_TYPE_ERASURE :: u8 where "RULE_TYPE_ERASURE = 3"
definition MAX_CERTIFIED_RETRIES :: u32 where "MAX_CERTIFIED_RETRIES = 1000"
definition MAX_CERTIFIED_DEPTH :: usize where "MAX_CERTIFIED_DEPTH = 64"

datatype decode_error = DE_Wire wire_error | DE_Unsupported

text \<open>
  \<open>GE_Panic\<close> is not an error of the source: it stands for the panic of the map index
  \<open>heights[&id]\<close>, which \<open>visit_bucket_no_panic\<close> rules out.
\<close>

datatype graph_error = GE_Malformed | GE_DepthExceeded | GE_Panic

record decode_limits =
  lim_max_bytes :: u32
  lim_max_buckets :: u32
  lim_max_rules :: u32
  lim_max_items :: u32
  lim_max_names :: u32

record bucket =
  bucket_id :: i32
  bucket_type :: u16
  bucket_weight :: u32
  bucket_items :: "i32 list"
  item_weights :: "u32 list"

record rule_step =
  operation :: u32
  argument1 :: i32
  argument2 :: i32

record crush_rule =
  rule_type :: u8
  min_size :: u8
  max_size :: u8
  rule_steps :: "rule_step list"

record crush_map =
  max_devices :: i32
  buckets :: "(i32 \<times> bucket) list"
  rules :: "(u32 \<times> crush_rule) list"
  choose_local_tries :: u32
  choose_local_fallback_tries :: u32
  choose_total_tries :: u32
  chooseleaf_descend_once :: u32
  chooseleaf_vary_r :: u8
  straw_calc_version :: u8
  allowed_bucket_algorithms :: u32
  chooseleaf_stable :: u8
  msr_descents :: u32
  msr_collision_tries :: u32
  class_shadow_buckets :: "i32 set"

definition has_bucket_type :: "crush_map \<Rightarrow> u16 \<Rightarrow> bool" where
  "has_bucket_type m ty \<longleftrightarrow> list_ex (\<lambda>(_, b). bucket_type b = ty) (buckets m)"

section \<open>Graph validation\<close>

type_synonym visit_state = "(i32 \<rightharpoonup> nat) \<times> (i32 \<rightharpoonup> usize)"

function visit_bucket ::
    "crush_map \<Rightarrow> i32 \<Rightarrow> usize \<Rightarrow> visit_state \<Rightarrow> graph_error + (usize \<times> visit_state)"
  and visit_items ::
    "crush_map \<Rightarrow> i32 list \<Rightarrow> usize \<Rightarrow> usize \<Rightarrow> visit_state \<Rightarrow> graph_error + (usize \<times> visit_state)"
where
  "visit_bucket m bid depth (states, heights) =
     (if depth > MAX_CERTIFIED_DEPTH then Inl GE_DepthExceeded
      else if states bid = Some 1 then Inl GE_Malformed
      else if states bid = Some 2 then
        (case heights bid of
           None \<Rightarrow> Inl GE_Panic
         | Some height \<Rightarrow>
             if depth + height - 1 > MAX_CERTIFIED_DEPTH then Inl GE_DepthExceeded
             else Inr (height, states, heights))
      else (case map_of (buckets m) bid of
              None \<Rightarrow> Inl GE_Malformed
            | Some b \<Rightarrow>
                rbind (visit_items m (bucket_items b) depth 1 (states(bid \<mapsto> 1), heights))
                  (\<lambda>(height, states, heights).
                     Inr (height, states(bid \<mapsto> 2), heights(bid \<mapsto> height)))))"
| "visit_items m [] depth height st = Inr (height, st)"
| "visit_items m (item # items) depth height st =
     (if item \<ge> 0 then
        (if item \<ge> max_devices m then Inl GE_Malformed
         else visit_items m items depth height st)
      else if map_of (buckets m) item = None then Inl GE_Malformed
      else rbind (visit_bucket m item (depth + 1) st) (\<lambda>(child_height, st).
             visit_items m items depth (max height (child_height + 1)) st))"
  by pat_completeness auto
termination
  by (relation "measures
      [\<lambda>x. case x of
          Inl (m, bid, d, st) \<Rightarrow> (if d > MAX_CERTIFIED_DEPTH then 0 else 2 * (65 - d) + 1)
        | Inr (m, items, d, h, st) \<Rightarrow> (if d > MAX_CERTIFIED_DEPTH then 1 else 2 * (65 - d)),
       \<lambda>x. case x of Inl _ \<Rightarrow> 0 | Inr (m, items, d, h, st) \<Rightarrow> length items]")
    (auto simp: MAX_CERTIFIED_DEPTH_def)

declare visit_bucket.simps [simp del] visit_items.simps [simp del]

fun visit_all :: "crush_map \<Rightarrow> i32 list \<Rightarrow> visit_state \<Rightarrow> graph_error + visit_state" where
  "visit_all m [] st = Inr st"
| "visit_all m (bid # ids) st = rbind (visit_bucket m bid 1 st) (\<lambda>(_, st). visit_all m ids st)"

definition validate_graph :: "crush_map \<Rightarrow> graph_error + unit" where
  "validate_graph m =
     rbind (visit_all m (map fst (buckets m)) (Map.empty, Map.empty)) (\<lambda>_. Inr ())"

fun map_graph_decode_error :: "graph_error \<Rightarrow> decode_error" where
  "map_graph_decode_error GE_Malformed = DE_Wire WE_Malformed"
| "map_graph_decode_error GE_DepthExceeded = DE_Unsupported"
| "map_graph_decode_error GE_Panic = DE_Wire WE_Malformed"

section \<open>Decoding\<close>

definition bounded_count :: "decoder \<Rightarrow> u32 \<Rightarrow> usize \<Rightarrow> wire_error + (usize \<times> decoder)" where
  "bounded_count d maximum minimum_bytes =
     (let (count, d) = dec_u32 d in
      rbind (dec_finish d) (\<lambda>_.
      if count > maximum then Inl WE_LimitExceeded
      else if minimum_bytes \<noteq> 0 \<and> unat count > dec_remaining d div minimum_bytes
      then Inl WE_Malformed
      else Inr (unat count, d)))"

definition consume_name_map :: "decoder \<Rightarrow> u32 \<Rightarrow> wire_error + decoder" where
  "consume_name_map d maximum =
     rbind (bounded_count d maximum 4) (\<lambda>(count, d).
       let (_, d) = dec_times (\<lambda>d. let (k, d) = dec_i32 d; (s, d) = dec_string d in ((k, s), d)) count d
       in rbind (dec_finish d) (\<lambda>_. Inr d))"

definition consume_int_map :: "decoder \<Rightarrow> u32 \<Rightarrow> wire_error + decoder" where
  "consume_int_map d maximum =
     rbind (bounded_count d maximum 8) (\<lambda>(count, d).
       let (_, d) = dec_times (\<lambda>d. let (k, d) = dec_i32 d; (v, d) = dec_i32 d in ((k, v), d)) count d
       in rbind (dec_finish d) (\<lambda>_. Inr d))"

fun consume_nested :: "nat \<Rightarrow> u32 \<Rightarrow> decoder \<Rightarrow> i32 set \<Rightarrow> wire_error + (i32 set \<times> decoder)" where
  "consume_nested 0 maximum d values = Inr (values, d)"
| "consume_nested (Suc n) maximum d values =
     (let (_, d) = dec_i32 d in
      rbind (bounded_count d maximum 8) (\<lambda>(inner, d).
        let (kvs, d) = dec_times (\<lambda>d. let (k, d) = dec_i32 d; (v, d) = dec_i32 d in ((k, v), d)) inner d
        in consume_nested n maximum d (values \<union> set (map snd kvs))))"

definition consume_nested_int_map :: "decoder \<Rightarrow> u32 \<Rightarrow> wire_error + (i32 set \<times> decoder)" where
  "consume_nested_int_map d maximum =
     rbind (bounded_count d maximum 8) (\<lambda>(count, d).
     rbind (consume_nested count maximum d {}) (\<lambda>(values, d).
     rbind (dec_finish d) (\<lambda>_. Inr (values, d))))"

text \<open>The loop over the bucket slots; slot \<open>index\<close> holds the bucket with id \<open>-1 - index\<close>.\<close>

fun decode_buckets :: "decode_limits \<Rightarrow> nat \<Rightarrow> int \<Rightarrow> decoder \<Rightarrow> (i32 \<times> bucket) list \<Rightarrow>
    decode_error + ((i32 \<times> bucket) list \<times> decoder)" where
  "decode_buckets limits 0 index d bs = Inr (bs, d)"
| "decode_buckets limits (Suc n) index d bs =
     (let (algorithm, d) = dec_u32 d in
      if algorithm = 0 then decode_buckets limits n (index + 1) d bs
      else if algorithm \<noteq> BUCKET_STRAW2 then Inl DE_Unsupported
      else
        let (id, d) = dec_i32 d; (ty, d) = dec_u16 d; (encoded_algorithm, d) = dec_u8 d;
            (hash, d) = dec_u8 d; (weight, d) = dec_u32 d; (count, d) = dec_u32 d in
        rbind (map_err DE_Wire (dec_finish d)) (\<lambda>_.
        if id \<noteq> -1 - index \<or> encoded_algorithm \<noteq> 5 \<or> hash \<noteq> HASH_RJENKINS1
        then Inl (DE_Wire WE_Malformed)
        else if count > lim_max_items limits then Inl (DE_Wire WE_LimitExceeded)
        else if unat count * 8 > dec_remaining d then Inl (DE_Wire WE_Malformed)
        else
          let (items, d) = dec_times dec_i32 (unat count) d;
              (weights, d) = dec_times dec_u32 (unat count) d in
          decode_buckets limits n (index + 1) d
            (btree_insert id
               \<lparr>bucket_id = id, bucket_type = ty, bucket_weight = weight, bucket_items = items,
                item_weights = weights\<rparr> bs)))"

definition decode_step :: "decoder \<Rightarrow> rule_step \<times> decoder" where
  "decode_step d =
     (let (op, d) = dec_u32 d; (a1, d) = dec_i32 d; (a2, d) = dec_i32 d
      in (\<lparr>operation = op, argument1 = a1, argument2 = a2\<rparr>, d))"

fun decode_rules :: "decode_limits \<Rightarrow> nat \<Rightarrow> u32 \<Rightarrow> decoder \<Rightarrow> (u32 \<times> crush_rule) list \<Rightarrow>
    decode_error + ((u32 \<times> crush_rule) list \<times> decoder)" where
  "decode_rules limits 0 index d rs = Inr (rs, d)"
| "decode_rules limits (Suc n) index d rs =
     (let (present, d) = dec_u32 d in
      if present = 0 then decode_rules limits n (index + 1) d rs
      else
        let (count, d) = dec_u32 d in
        if count > lim_max_items limits then Inl (DE_Wire WE_LimitExceeded)
        else if unat count * 12 + 4 > dec_remaining d then Inl (DE_Wire WE_Malformed)
        else
          let (rule_id, d) = dec_u8 d; (ty, d) = dec_u8 d; (mn, d) = dec_u8 d; (mx, d) = dec_u8 d in
          if ucast rule_id \<noteq> index then Inl (DE_Wire WE_Malformed)
          else
            let (sts, d) = dec_times decode_step (unat count) d in
            decode_rules limits n (index + 1) d
              (btree_insert index
                 \<lparr>rule_type = ty, min_size = mn, max_size = mx, rule_steps = sts\<rparr> rs))"

text \<open>The optional tunables that follow the name maps, each read only if bytes remain.\<close>

definition decode_tunables :: "decoder \<Rightarrow> crush_map \<Rightarrow> decode_error + (crush_map \<times> decoder)" where
  "decode_tunables d m =
     rbind
       (if dec_remaining d \<ge> 12 then
          let (lt, d) = dec_u32 d; (lft, d) = dec_u32 d; (tt, d) = dec_u32 d in
          if lt > MAX_CERTIFIED_RETRIES \<or> lft > MAX_CERTIFIED_RETRIES \<or> tt \<ge> MAX_CERTIFIED_RETRIES
          then Inl DE_Unsupported
          else Inr (m\<lparr>choose_local_tries := lt, choose_local_fallback_tries := lft,
                      choose_total_tries := tt\<rparr>, d)
        else Inr (m, d))
       (\<lambda>(m, d).
        let (m, d) = (if dec_remaining d \<ge> 4
              then let (v, d) = dec_u32 d in (m\<lparr>chooseleaf_descend_once := v\<rparr>, d) else (m, d));
            (m, d) = (if dec_remaining d \<ge> 1
              then let (v, d) = dec_u8 d in (m\<lparr>chooseleaf_vary_r := v\<rparr>, d) else (m, d));
            (m, d) = (if dec_remaining d \<ge> 1
              then let (v, d) = dec_u8 d in (m\<lparr>straw_calc_version := v\<rparr>, d) else (m, d));
            (m, d) = (if dec_remaining d \<ge> 4
              then let (v, d) = dec_u32 d in (m\<lparr>allowed_bucket_algorithms := v\<rparr>, d) else (m, d));
            (m, d) = (if dec_remaining d \<ge> 1
              then let (v, d) = dec_u8 d in (m\<lparr>chooseleaf_stable := v\<rparr>, d) else (m, d))
        in Inr (m, d))"

definition decode_tail :: "decode_limits \<Rightarrow> decoder \<Rightarrow> crush_map \<Rightarrow>
    decode_error + (crush_map \<times> decoder)" where
  "decode_tail limits d m =
     rbind
       (if dec_remaining d \<noteq> 0 then
          rbind (map_err DE_Wire (consume_int_map d (lim_max_names limits))) (\<lambda>d.
          rbind (map_err DE_Wire (consume_name_map d (lim_max_names limits))) (\<lambda>d.
          rbind (map_err DE_Wire (consume_nested_int_map d (lim_max_names limits))) (\<lambda>(shadow, d).
          let m = m\<lparr>class_shadow_buckets := shadow\<rparr>; (choose_args, d) = dec_u32 d in
          if choose_args \<noteq> 0 then Inl DE_Unsupported else Inr (m, d))))
        else Inr (m, d))
       (\<lambda>(m, d).
        let (m, d) = (if dec_remaining d \<ge> 8
              then let (a, d) = dec_u32 d; (b, d) = dec_u32 d
                   in (m\<lparr>msr_descents := a, msr_collision_tries := b\<rparr>, d)
              else (m, d))
        in if dec_remaining d \<noteq> 0 then Inl (DE_Wire WE_Malformed)
           else rbind (map_err DE_Wire (dec_finish d)) (\<lambda>_. Inr (m, d)))"

definition initial_map :: "i32 \<Rightarrow> crush_map" where
  "initial_map devices =
     \<lparr>max_devices = devices, buckets = [], rules = [], choose_local_tries = 2,
      choose_local_fallback_tries = 5, choose_total_tries = 19, chooseleaf_descend_once = 0,
      chooseleaf_vary_r = 0, straw_calc_version = 0,
      allowed_bucket_algorithms = push_bit 1 1 OR push_bit 2 1 OR push_bit 4 1,
      chooseleaf_stable = 0, msr_descents = 100, msr_collision_tries = 100,
      class_shadow_buckets = {}\<rparr>"

definition map_decode :: "bytes \<Rightarrow> decode_limits \<Rightarrow> decode_error + crush_map" where
  "map_decode data limits =
     (if lim_max_bytes limits = 0 \<or> lim_max_buckets limits = 0 \<or> lim_max_rules limits = 0 \<or>
         lim_max_items limits = 0 \<or> lim_max_names limits = 0
      then Inl (DE_Wire WE_LimitExceeded)
      else
        let d = dec_new data (unat (lim_max_bytes limits)); (magic, d) = dec_u32 d in
        if magic \<noteq> MAGIC then Inl (DE_Wire WE_Malformed)
        else
          let (max_buckets, d) = dec_i32 d; (max_rules, d) = dec_u32 d; (devices, d) = dec_i32 d in
          rbind (map_err DE_Wire (dec_finish d)) (\<lambda>_.
          if max_buckets < 0 \<or> max_buckets > uint (lim_max_buckets limits) \<or>
             max_rules > lim_max_rules limits \<or>
             devices < 0 \<or> devices > uint (lim_max_items limits)
          then Inl (DE_Wire WE_LimitExceeded)
          else
            rbind (decode_buckets limits (nat max_buckets) 0 d []) (\<lambda>(bs, d).
            rbind (decode_rules limits (unat max_rules) 0 d []) (\<lambda>(rs, d).
            rbind (map_err DE_Wire (consume_name_map d (lim_max_names limits))) (\<lambda>d.
            rbind (map_err DE_Wire (consume_name_map d (lim_max_names limits))) (\<lambda>d.
            rbind (map_err DE_Wire (consume_name_map d (lim_max_names limits))) (\<lambda>d.
            rbind (decode_tunables d ((initial_map devices)\<lparr>buckets := bs, rules := rs\<rparr>)) (\<lambda>(m, d).
            rbind (decode_tail limits d m) (\<lambda>(m, d).
            rbind (map_err map_graph_decode_error (validate_graph m)) (\<lambda>_. Inr m))))))))))"

section \<open>Validated hierarchies\<close>

text \<open>
  The specification of validation: a rank that is at most \<open>MAX_CERTIFIED_DEPTH\<close>, falls from every
  bucket to each child bucket, and under which every non-negative item is an existing device.
\<close>

definition item_ok :: "crush_map \<Rightarrow> (i32 \<Rightarrow> nat) \<Rightarrow> nat \<Rightarrow> i32 \<Rightarrow> bool" where
  "item_ok m rk r item \<longleftrightarrow>
     (if item \<ge> 0 then item < max_devices m
      else item \<in> dom (map_of (buckets m)) \<and> rk item < r)"

definition ranked :: "crush_map \<Rightarrow> (i32 \<Rightarrow> nat) \<Rightarrow> bool" where
  "ranked m rk \<longleftrightarrow>
     (\<forall>i b. map_of (buckets m) i = Some b \<longrightarrow>
        1 \<le> rk i \<and> rk i \<le> MAX_CERTIFIED_DEPTH \<and> (\<forall>item \<in> set (bucket_items b). item_ok m rk (rk i) item))"

text \<open>What the two mutable maps of the traversal mean between calls.\<close>

definition settled :: "(i32 \<rightharpoonup> nat) \<Rightarrow> (i32 \<rightharpoonup> usize) \<Rightarrow> nat \<Rightarrow> crush_map \<Rightarrow> i32 \<Rightarrow> bool" where
  "settled S H h m item \<longleftrightarrow>
     (if item \<ge> 0 then item < max_devices m
      else S item = Some 2 \<and> (\<exists>h'. H item = Some h' \<and> h' < h))"

definition visit_inv :: "crush_map \<Rightarrow> visit_state \<Rightarrow> bool" where
  "visit_inv m = (\<lambda>(S, H). \<forall>i. S i = Some 2 \<longrightarrow>
     (\<exists>h b. H i = Some h \<and> map_of (buckets m) i = Some b \<and> 1 \<le> h \<and> h \<le> MAX_CERTIFIED_DEPTH \<and>
        (\<forall>item \<in> set (bucket_items b). settled S H h m item)))"

definition visit_ext :: "visit_state \<Rightarrow> visit_state \<Rightarrow> bool" where
  "visit_ext = (\<lambda>(S, H) (S', H').
     (\<forall>i. S i = Some 2 \<longrightarrow> S' i = Some 2 \<and> H' i = H i) \<and> (\<forall>i. S i = Some 1 \<longrightarrow> S' i = Some 1))"

lemma visit_ext_refl [simp]: "visit_ext st st"
  by (cases st) (simp add: visit_ext_def)

lemma visit_ext_trans: "visit_ext a b \<Longrightarrow> visit_ext b c \<Longrightarrow> visit_ext a c"
  by (cases a; cases b; cases c) (auto simp: visit_ext_def)

lemma settled_ext:
  "settled S H h m item \<Longrightarrow> visit_ext (S, H) (S', H') \<Longrightarrow> h \<le> h' \<Longrightarrow> settled S' H' h' m item"
  by (fastforce simp: settled_def visit_ext_def split: if_splits)

lemma visit_inv_start:
  assumes "visit_inv m (S, H)" "S i \<noteq> Some 2"
  shows "visit_inv m (S(i \<mapsto> 1), H)"
proof -
  have ext: "settled S H h m item \<Longrightarrow> settled (S(i \<mapsto> 1)) H h m item" for h item
    using assms(2) by (auto simp: settled_def split: if_splits)
  show ?thesis
    unfolding visit_inv_def prod.case
  proof (intro allI impI)
    fix j assume "(S(i \<mapsto> 1)) j = Some 2"
    then have "S j = Some 2" by (auto split: if_splits)
    then show "\<exists>h b. H j = Some h \<and> map_of (buckets m) j = Some b \<and> 1 \<le> h \<and> h \<le> MAX_CERTIFIED_DEPTH \<and>
        (\<forall>item \<in> set (bucket_items b). settled (S(i \<mapsto> 1)) H h m item)"
      using assms(1) ext unfolding visit_inv_def prod.case by blast
  qed
qed

lemma visit_inv_finish:
  assumes "visit_inv m (S, H)" "S i = Some 1" "map_of (buckets m) i = Some b"
    "\<forall>item \<in> set (bucket_items b). settled S H h m item" "1 \<le> h" "h \<le> MAX_CERTIFIED_DEPTH"
  shows "visit_inv m (S(i \<mapsto> 2), H(i \<mapsto> h))"
proof -
  have ext: "settled S H k m item \<Longrightarrow> settled (S(i \<mapsto> 2)) (H(i \<mapsto> h)) k m item" for k item
    using assms(2) by (auto simp: settled_def split: if_splits)
  show ?thesis
    unfolding visit_inv_def prod.case
  proof (intro allI impI)
    fix j assume j: "(S(i \<mapsto> 2)) j = Some 2"
    show "\<exists>k b. (H(i \<mapsto> h)) j = Some k \<and> map_of (buckets m) j = Some b \<and> 1 \<le> k \<and>
        k \<le> MAX_CERTIFIED_DEPTH \<and>
        (\<forall>item \<in> set (bucket_items b). settled (S(i \<mapsto> 2)) (H(i \<mapsto> h)) k m item)"
    proof (cases "j = i")
      case True
      then show ?thesis using assms(3-6) ext by auto
    next
      case False
      then have "S j = Some 2" using j by simp
      then obtain k b where "H j = Some k" "map_of (buckets m) j = Some b" "1 \<le> k"
        "k \<le> MAX_CERTIFIED_DEPTH" "\<forall>item \<in> set (bucket_items b). settled S H k m item"
        using assms(1) unfolding visit_inv_def prod.case by blast
      then show ?thesis using False ext by auto
    qed
  qed
qed

definition bucket_post :: "crush_map \<Rightarrow> i32 \<Rightarrow> nat \<Rightarrow> visit_state \<Rightarrow> graph_error + (nat \<times> visit_state) \<Rightarrow> bool" where
  "bucket_post m i d st r = (case r of Inl e \<Rightarrow> e \<noteq> GE_Panic | Inr (h, S', H') \<Rightarrow>
     visit_inv m (S', H') \<and> visit_ext st (S', H') \<and> S' i = Some 2 \<and> H' i = Some h \<and> 1 \<le> h \<and>
     d + h - 1 \<le> MAX_CERTIFIED_DEPTH)"

definition items_post ::
  "crush_map \<Rightarrow> i32 list \<Rightarrow> nat \<Rightarrow> nat \<Rightarrow> visit_state \<Rightarrow> graph_error + (nat \<times> visit_state) \<Rightarrow> bool" where
  "items_post m items d h st r = (case r of Inl e \<Rightarrow> e \<noteq> GE_Panic | Inr (h', S', H') \<Rightarrow>
     visit_inv m (S', H') \<and> visit_ext st (S', H') \<and> h \<le> h' \<and> d + h' - 1 \<le> MAX_CERTIFIED_DEPTH \<and>
     (\<forall>item \<in> set items. settled S' H' h' m item))"

lemma visit_sound:
  "visit_inv m st \<Longrightarrow> 1 \<le> d \<Longrightarrow> bucket_post m i d st (visit_bucket m i d st)"
  "visit_inv m st \<Longrightarrow> 1 \<le> d \<Longrightarrow> 1 \<le> h \<Longrightarrow> d + h - 1 \<le> MAX_CERTIFIED_DEPTH \<Longrightarrow>
     items_post m items d h st (visit_items m items d h st)"
proof (induction m i d st and m items d h st rule: visit_bucket_visit_items.induct)
  case (1 m i depth S H)
  show ?case
  proof (cases "depth > MAX_CERTIFIED_DEPTH \<or> S i = Some 1 \<or> S i = Some 2 \<or> map_of (buckets m) i = None")
    case True
    then show ?thesis
      using 1(2,3) by (auto simp: visit_bucket.simps bucket_post_def visit_inv_def split: option.splits)
  next
    case False
    then obtain b where b: "map_of (buckets m) i = Some b" by auto
    have start: "visit_inv m (S(i \<mapsto> 1), H)"
      using 1(2) False by (intro visit_inv_start) auto
    have post: "items_post m (bucket_items b) depth 1 (S(i \<mapsto> 1), H)
        (visit_items m (bucket_items b) depth 1 (S(i \<mapsto> 1), H))"
      using 1(1)[OF _ _ _ b] False start 1(3) by simp
    show ?thesis
    proof (cases "visit_items m (bucket_items b) depth 1 (S(i \<mapsto> 1), H)")
      case (Inl e)
      then show ?thesis
        using post False b by (auto simp: visit_bucket.simps bucket_post_def items_post_def)
    next
      case (Inr r)
      obtain h' S' H' where r: "r = (h', S', H')" by (cases r)
      have "visit_inv m (S'(i \<mapsto> 2), H'(i \<mapsto> h'))"
        using post Inr r b 1(3) by (intro visit_inv_finish) (auto simp: items_post_def visit_ext_def)
      then show ?thesis
        using post Inr r b False 1(3)
        by (auto simp: visit_bucket.simps bucket_post_def items_post_def visit_ext_def)
    qed
  qed
next
  case (2 m depth height st)
  then show ?case by (cases st) (simp add: items_post_def visit_items.simps)
next
  case (3 m item items depth height st)
  show ?case
  proof (cases "item \<ge> 0 \<or> map_of (buckets m) item = None")
    case True
    then show ?thesis
      using 3(1,4-7) by (auto simp: visit_items.simps items_post_def settled_def split: sum.splits)
  next
    case False
    have post: "bucket_post m item (depth + 1) st (visit_bucket m item (depth + 1) st)"
      using 3(2) False 3(4) by simp
    show ?thesis
    proof (cases "visit_bucket m item (depth + 1) st")
      case (Inl e)
      then show ?thesis
        using post False by (auto simp: visit_items.simps bucket_post_def items_post_def)
    next
      case (Inr r)
      obtain h' S' H' where r: "r = (h', S', H')" by (cases r)
      define k where "k = max height (h' + 1)"
      have rest: "items_post m items depth k (S', H') (visit_items m items depth k (S', H'))"
      proof (unfold k_def, rule 3(3))
        show "visit_inv m (S', H')" "depth + max height (h' + 1) - 1 \<le> MAX_CERTIFIED_DEPTH"
          using post Inr r 3(7) by (auto simp: bucket_post_def)
      qed (use Inr r False 3(5,6) in auto)
      have item: "settled S' H' k m item" and ext: "visit_ext st (S', H')"
        using post Inr r False by (auto simp: bucket_post_def settled_def k_def)
      have eq: "visit_items m (item # items) depth height st = visit_items m items depth k (S', H')"
        using False Inr r by (auto simp: visit_items.simps k_def)
      show ?thesis
      proof (cases "visit_items m items depth k (S', H')")
        case (Inl e)
        then show ?thesis using rest eq by (simp add: items_post_def)
      next
        case (Inr r')
        obtain h2 S2 H2 where r': "r' = (h2, S2, H2)" by (cases r')
        have ext2: "visit_ext (S', H') (S2, H2)" "k \<le> h2"
          using rest Inr r' by (auto simp: items_post_def)
        have "settled S2 H2 h2 m item" "visit_ext st (S2, H2)"
          using settled_ext [OF item ext2] visit_ext_trans [OF ext ext2(1)] by auto
        then show ?thesis using rest eq Inr r' by (auto simp: items_post_def k_def)
      qed
    qed
  qed
qed

lemma visit_bucket_no_panic:
  "visit_inv m st \<Longrightarrow> 1 \<le> d \<Longrightarrow> visit_bucket m i d st \<noteq> Inl GE_Panic"
  using visit_sound(1) [of m st d i] by (auto simp: bucket_post_def)

lemma visit_all_sound:
  "visit_inv m st \<Longrightarrow>
   case visit_all m is st of
     Inl e \<Rightarrow> e \<noteq> GE_Panic
   | Inr st' \<Rightarrow> visit_inv m st' \<and> visit_ext st st' \<and> (\<forall>i \<in> set is. fst st' i = Some 2)"
proof (induction "is" arbitrary: st)
  case (Cons i "is")
  have post: "bucket_post m i 1 st (visit_bucket m i 1 st)"
    using Cons.prems by (intro visit_sound(1)) auto
  show ?case
  proof (cases "visit_bucket m i 1 st")
    case (Inr r)
    obtain h S' H' where r: "r = (h, S', H')" by (cases r)
    show ?thesis
      using Cons.IH [of "(S', H')"] post Inr r visit_ext_trans [of st "(S', H')"]
      by (auto simp: bucket_post_def visit_ext_def split: sum.splits)
  qed (use post in \<open>auto simp: bucket_post_def\<close>)
qed auto

lemma visit_inv_empty: "visit_inv m (Map.empty, Map.empty)"
  by (simp add: visit_inv_def)

lemma validate_graph_no_panic: "validate_graph m \<noteq> Inl GE_Panic"
  using visit_all_sound [OF visit_inv_empty, of m "map fst (buckets m)"]
  by (auto simp: validate_graph_def split: sum.splits)

lemma validate_graph_sound:
  assumes "validate_graph m = Inr ()"
  shows "\<exists>rk. ranked m rk"
proof -
  obtain S H where all: "visit_all m (map fst (buckets m)) (Map.empty, Map.empty) = Inr (S, H)"
    using assms by (auto simp: validate_graph_def)
  have inv: "visit_inv m (S, H)" and all2: "\<And>i. i \<in> dom (map_of (buckets m)) \<Longrightarrow> S i = Some 2"
    using visit_all_sound [OF visit_inv_empty, of m "map fst (buckets m)"] all
    by (auto simp: dom_map_of_conv_image_fst)
  have "ranked m (\<lambda>i. the (H i))"
    unfolding ranked_def
  proof (intro allI impI)
    fix i b assume b: "map_of (buckets m) i = Some b"
    then have "S i = Some 2" using all2 by auto
    then obtain h where h: "H i = Some h" "1 \<le> h" "h \<le> MAX_CERTIFIED_DEPTH"
      "\<forall>item \<in> set (bucket_items b). settled S H h m item"
      using inv b unfolding visit_inv_def prod.case by (metis option.inject)
    have "item_ok m (\<lambda>i. the (H i)) h item" if s: "settled S H h m item" for item
    proof (cases "item \<ge> 0")
      case False
      then obtain h' where "S item = Some 2" "H item = Some h'" "h' < h"
        using s by (auto simp: settled_def)
      moreover have "item \<in> dom (map_of (buckets m))"
        using inv \<open>S item = Some 2\<close> by (auto simp: visit_inv_def)
      ultimately show ?thesis using False by (simp add: item_ok_def)
    qed (use s in \<open>simp add: settled_def item_ok_def\<close>)
    then show "1 \<le> the (H i) \<and> the (H i) \<le> MAX_CERTIFIED_DEPTH \<and>
        (\<forall>item \<in> set (bucket_items b). item_ok m (\<lambda>i. the (H i)) (the (H i)) item)"
      using h by simp
  qed
  then show ?thesis by blast
qed

text \<open>
  Conversely a ranked map is accepted: the depth of the traversal plus the rank of the bucket it
  stands at never exceeds the limit, and an unfinished bucket outranks everything below it.
\<close>

definition below_open :: "(i32 \<Rightarrow> nat) \<Rightarrow> nat \<Rightarrow> visit_state \<Rightarrow> bool" where
  "below_open rk r = (\<lambda>(S, H). (\<forall>i. S i = Some 1 \<longrightarrow> r \<le> rk i) \<and>
     (\<forall>i. S i = Some 2 \<longrightarrow> (\<exists>h. H i = Some h \<and> h \<le> rk i)))"

definition visit_accepts :: "(i32 \<Rightarrow> nat) \<Rightarrow> nat \<Rightarrow> visit_state \<Rightarrow> graph_error + (nat \<times> visit_state) \<Rightarrow> bool" where
  "visit_accepts rk r st res \<longleftrightarrow> (\<exists>h S' H'. res = Inr (h, S', H') \<and> h \<le> r \<and>
     (\<forall>i. S' i = Some 1 \<longrightarrow> fst st i = Some 1) \<and>
     (\<forall>i. S' i = Some 2 \<longrightarrow> (\<exists>h. H' i = Some h \<and> h \<le> rk i)))"

lemma visit_complete:
  "ranked m rk \<Longrightarrow> i \<in> dom (map_of (buckets m)) \<Longrightarrow> d + rk i \<le> MAX_CERTIFIED_DEPTH + 1 \<Longrightarrow>
     below_open rk (rk i + 1) st \<Longrightarrow> visit_accepts rk (rk i) st (visit_bucket m i d st)"
  "ranked m rk \<Longrightarrow> \<forall>item \<in> set items. item_ok m rk r item \<Longrightarrow> d + r \<le> MAX_CERTIFIED_DEPTH + 1 \<Longrightarrow>
     h \<le> r \<Longrightarrow> below_open rk r st \<Longrightarrow> visit_accepts rk r st (visit_items m items d h st)"
proof (induction m i d st and m items d h st arbitrary: and r rule: visit_bucket_visit_items.induct)
  case (1 m i depth S H)
  then obtain b where b: "map_of (buckets m) i = Some b" by auto
  have rk: "1 \<le> rk i" "\<forall>item \<in> set (bucket_items b). item_ok m rk (rk i) item"
    using 1(2) b by (auto simp: ranked_def)
  have not1: "S i \<noteq> Some 1" and depth: "\<not> depth > MAX_CERTIFIED_DEPTH"
    using 1(4,5) rk by (auto simp: below_open_def)
  show ?case
  proof (cases "S i = Some 2")
    case True
    then obtain h where "H i = Some h" "h \<le> rk i" using 1(5) by (auto simp: below_open_def)
    then show ?thesis
      using True depth 1(4,5) by (auto simp: visit_bucket.simps visit_accepts_def below_open_def)
  next
    case False
    have "visit_accepts rk (rk i) (S(i \<mapsto> 1), H)
        (visit_items m (bucket_items b) depth 1 (S(i \<mapsto> 1), H))"
      using 1(4,5) rk False
      by (intro 1(1)[OF depth not1 False b 1(2)]) (auto simp: below_open_def)
    then obtain h S' H' where res: "visit_items m (bucket_items b) depth 1 (S(i \<mapsto> 1), H) = Inr (h, S', H')"
        "h \<le> rk i" "\<forall>j. S' j = Some 1 \<longrightarrow> (S(i \<mapsto> 1)) j = Some 1"
        "\<forall>j. S' j = Some 2 \<longrightarrow> (\<exists>h. H' j = Some h \<and> h \<le> rk j)"
      by (auto simp: visit_accepts_def)
    then show ?thesis
      using b False not1 depth by (auto simp: visit_bucket.simps visit_accepts_def split: if_splits)
  qed
next
  case (2 m depth height st)
  then show ?case by (cases st) (auto simp: visit_accepts_def visit_items.simps below_open_def)
next
  case (3 m item items depth height st)
  show ?case
  proof (cases "item \<ge> 0")
    case True
    then show ?thesis
      using 3(1)[OF True _ 3(4) _ 3(6-8)] 3(5) by (auto simp: visit_items.simps item_ok_def)
  next
    case False
    have ok: "item \<in> dom (map_of (buckets m))" "rk item < r"
      using 3(5) False by (auto simp: item_ok_def)
    have "visit_accepts rk (rk item) st (visit_bucket m item (depth + 1) st)"
      using ok 3(6,8) by (intro 3(2)[OF False _ 3(4)]) (auto simp: below_open_def split: prod.splits)
    then obtain h S' H' where res: "visit_bucket m item (depth + 1) st = Inr (h, S', H')"
        "h \<le> rk item" "\<forall>j. S' j = Some 1 \<longrightarrow> fst st j = Some 1"
        "\<forall>j. S' j = Some 2 \<longrightarrow> (\<exists>h. H' j = Some h \<and> h \<le> rk j)"
      by (auto simp: visit_accepts_def)
    have "visit_accepts rk r (S', H') (visit_items m items depth (max height (h + 1)) (S', H'))"
      using ok res 3(5-8) by (intro 3(3)[OF False _ res(1) refl 3(4)]) (auto simp: below_open_def)
    moreover have "visit_items m (item # items) depth height st =
        visit_items m items depth (max height (h + 1)) (S', H')"
      using False ok res(1) by (auto simp: visit_items.simps)
    ultimately show ?thesis using res(3) by (auto simp: visit_accepts_def)
  qed
qed

lemma visit_all_complete:
  "ranked m rk \<Longrightarrow> set is \<subseteq> dom (map_of (buckets m)) \<Longrightarrow> \<forall>i. fst st i \<noteq> Some 1 \<Longrightarrow>
   below_open rk r st \<Longrightarrow> \<exists>st'. visit_all m is st = Inr st'"
proof (induction "is" arbitrary: st)
  case (Cons i "is")
  have "visit_accepts rk (rk i) st (visit_bucket m i 1 st)"
    using Cons.prems by (intro visit_complete(1)) (auto simp: ranked_def below_open_def split: prod.splits)
  then obtain h S' H' where "visit_bucket m i 1 st = Inr (h, S', H')" "\<forall>j. S' j \<noteq> Some 1"
      "\<forall>j. S' j = Some 2 \<longrightarrow> (\<exists>h. H' j = Some h \<and> h \<le> rk j)"
    using Cons.prems(3) by (auto simp: visit_accepts_def)
  then show ?case using Cons.IH [of "(S', H')"] Cons.prems by (auto simp: below_open_def)
qed simp

lemma validate_graph_complete: "ranked m rk \<Longrightarrow> validate_graph m = Inr ()"
  using visit_all_complete [of m rk "map fst (buckets m)" "(Map.empty, Map.empty)" 0]
  by (auto simp: validate_graph_def below_open_def dom_map_of_conv_image_fst)

section \<open>What the decoder guarantees\<close>

definition bucket_wf :: "i32 \<Rightarrow> bucket \<Rightarrow> bool" where
  "bucket_wf i b \<longleftrightarrow> bucket_id b = i \<and> i < 0 \<and> length (bucket_items b) = length (item_weights b)"

definition buckets_wf :: "(i32 \<times> bucket) list \<Rightarrow> bool" where
  "buckets_wf bs \<longleftrightarrow> btree_inv bs \<and> (\<forall>(i, b) \<in> set bs. bucket_wf i b)"

definition map_wf :: "crush_map \<Rightarrow> bool" where
  "map_wf m \<longleftrightarrow> 0 \<le> max_devices m \<and> max_devices m < 2 ^ 31 \<and> buckets_wf (buckets m) \<and> btree_inv (rules m)"

lemma buckets_wf_insert: "buckets_wf bs \<Longrightarrow> bucket_wf i b \<Longrightarrow> buckets_wf (btree_insert i b bs)"
  by (auto simp: buckets_wf_def btree.inv_ins btree.set_ins)

lemma decode_buckets_wf:
  "decode_buckets limits n index d bs = Inr (bs', d') \<Longrightarrow> 0 \<le> index \<Longrightarrow> buckets_wf bs \<Longrightarrow>
   buckets_wf bs'"
proof (induction n arbitrary: index d bs)
  case (Suc n)
  have wf: "bucket_wf (-1 - index) \<lparr>bucket_id = -1 - index, bucket_type = ty, bucket_weight = w,
      bucket_items = is, item_weights = ws\<rparr>" if "length is = length ws" for ty w "is" ws
    using Suc.prems(2) that by (simp add: bucket_wf_def)
  show ?case
    using Suc.prems
    by (auto simp: Let_def intro!: buckets_wf_insert wf split: prod.splits if_splits
        dest!: Suc.IH length_dec_times)
qed simp

lemma decode_rules_wf:
  "decode_rules limits n index d rs = Inr (rs', d') \<Longrightarrow> btree_inv rs \<Longrightarrow> btree_inv rs'"
  by (induction limits n index d rs rule: decode_rules.induct)
    (auto simp: Let_def btree.inv_ins split: prod.splits if_splits)

lemma decode_tunables_keeps:
  "decode_tunables d m = Inr (m', d') \<Longrightarrow>
   max_devices m' = max_devices m \<and> buckets m' = buckets m \<and> rules m' = rules m"
  by (auto simp: decode_tunables_def Let_def split: prod.splits if_splits)

lemma decode_tail_keeps:
  "decode_tail limits d m = Inr (m', d') \<Longrightarrow>
   max_devices m' = max_devices m \<and> buckets m' = buckets m \<and> rules m' = rules m"
  by (auto simp: decode_tail_def Let_def split: prod.splits if_splits)

lemma dec_i32_less: "dec_i32 d = (i, d') \<Longrightarrow> i < 2 ^ 31"
  using sint_lt [of "fst (dec_u32 d)"] by (auto simp: dec_i32_def split: prod.splits)

lemma map_decode_wf:
  assumes "map_decode data limits = Inr m"
  shows "map_wf m \<and> validate_graph m = Inr ()"
  using assms
  by (auto simp: map_decode_def Let_def map_wf_def initial_map_def buckets_wf_def btree_inv_def
      split: prod.splits if_splits
      dest!: dec_i32_less decode_buckets_wf decode_rules_wf decode_tunables_keeps decode_tail_keeps)

section \<open>Properties\<close>

text \<open>
  C4: graph validation accepts a map exactly when its buckets form a hierarchy with a rank of at
  most \<open>MAX_CERTIFIED_DEPTH\<close> that falls along every edge, with every leaf an existing device;
  in particular a cycle, a dangling child or a device beyond \<open>max_devices\<close> is rejected.
\<close>

theorem validate_graph_iff: "validate_graph m = Inr () \<longleftrightarrow> (\<exists>rk. ranked m rk)"
  using validate_graph_sound validate_graph_complete by blast

text \<open>
  C5: every map the decoder returns is well formed (keys in order, each bucket filed under its own
  negative id with one weight per item) and its graph is validated.
\<close>

theorem map_decode_validated:
  assumes "map_decode data limits = Inr m"
  shows "map_wf m \<and> (\<exists>rk. ranked m rk)"
  using map_decode_wf [OF assms] validate_graph_sound by blast

definition sample_map_bytes :: bytes where
  "sample_map_bytes =
     [0,0,1,0, 1,0,0,0, 0,0,0,0, 1,0,0,0,
      5,0,0,0, 255,255,255,255, 1,0, 5, 0, 0,0,1,0, 1,0,0,0, 0,0,0,0, 0,0,1,0,
      0,0,0,0, 0,0,0,0, 0,0,0,0]"

definition sample_limits :: decode_limits where
  "sample_limits = \<lparr>lim_max_bytes = 100, lim_max_buckets = 4, lim_max_rules = 4, lim_max_items = 4,
     lim_max_names = 4\<rparr>"

definition sample_map :: crush_map where
  "sample_map = (initial_map 1)\<lparr>buckets := [(-1, \<lparr>bucket_id = -1, bucket_type = 1,
     bucket_weight = 0x10000, bucket_items = [0], item_weights = [0x10000]\<rparr>)]\<rparr>"

lemma sample_map_decodes: "map_decode sample_map_bytes sample_limits = Inr sample_map"
proof -
  have "ranked sample_map (\<lambda>_. 1)"
    by (simp add: ranked_def item_ok_def sample_map_def initial_map_def MAX_CERTIFIED_DEPTH_def)
  note validate_graph_complete [OF this]
  then show ?thesis
    by (simp add: map_decode_def sample_map_bytes_def sample_limits_def sample_map_def initial_map_def
        MAGIC_def BUCKET_STRAW2_def HASH_RJENKINS1_def dec_eval dec_i32_def from_le_bytes_def
        consume_name_map_def bounded_count_def decode_tunables_def decode_tail_def)
qed

theorem map_decode_validated_witness: "map_wf sample_map \<and> (\<exists>rk. ranked sample_map rk)"
  by (rule map_decode_validated [OF sample_map_decodes])

end
