(* ===== verification/Crush_Hash.thy ===== *)
theory Crush_Hash
  imports Rados_Prelude
begin

text \<open>
  \<open>src/crush/hash.rs\<close>: the Jenkins hash of object names and CRUSH inputs, and
  \<open>stable_mod\<close>, which folds a hash into a placement-group number.  The lemmas show that
  \<open>stable_mod\<close> is in range and that adding one placement group only moves objects into it.
\<close>

definition NAMESPACE_SEPARATOR :: u8 where
  "NAMESPACE_SEPARATOR = 0x1f"

definition mix :: "u32 \<Rightarrow> u32 \<Rightarrow> u32 \<Rightarrow> u32 \<times> u32 \<times> u32" where
  "mix first second third =
     (let first = (first - second - third) XOR drop_bit 13 third;
          second = (second - third - first) XOR push_bit 8 first;
          third = (third - first - second) XOR drop_bit 13 second;
          first = (first - second - third) XOR drop_bit 12 third;
          second = (second - third - first) XOR push_bit 16 first;
          third = (third - first - second) XOR drop_bit 5 second;
          first = (first - second - third) XOR drop_bit 3 third;
          second = (second - third - first) XOR push_bit 10 first;
          third = (third - first - second) XOR drop_bit 15 second
      in (first, second, third))"

definition hash32_pair :: "u32 \<Rightarrow> u32 \<Rightarrow> u32" where
  "hash32_pair first second =
     (let hash = 0x4e67c6a7 XOR first XOR second;
          (first, second, hash) = mix first second hash;
          (_, _, hash) = mix 231232 first hash;
          (_, _, hash) = mix second 1232 hash
      in hash)"

definition hash32_triple :: "u32 \<Rightarrow> u32 \<Rightarrow> u32 \<Rightarrow> u32" where
  "hash32_triple first second third =
     (let hash = 0x4e67c6a7 XOR first XOR second XOR third;
          x = 231232; y = 1232;
          (first, second, hash) = mix first second hash;
          (third, x, hash) = mix third x hash;
          (y, _, hash) = mix y first hash;
          (_, _, hash) = mix second x hash;
          (_, _, hash) = mix y third hash
      in hash)"

text \<open>The loop over 12-byte chunks; the result is the accumulators and the remainder.\<close>

fun rjenkins_chunks :: "u32 \<times> u32 \<times> u32 \<Rightarrow> bytes \<Rightarrow> (u32 \<times> u32 \<times> u32) \<times> bytes" where
  "rjenkins_chunks (first, second, hash) value =
     (if length value < 12 then ((first, second, hash), value)
      else rjenkins_chunks
             (mix (first + from_le_bytes (take 4 value))
                  (second + from_le_bytes (take 4 (drop 4 value)))
                  (hash + from_le_bytes (take 4 (drop 8 value))))
             (drop 12 value))"

declare rjenkins_chunks.simps [simp del]

fun rjenkins_tail :: "usize \<Rightarrow> bytes \<Rightarrow> u32 \<times> u32 \<times> u32 \<Rightarrow> u32 \<times> u32 \<times> u32" where
  "rjenkins_tail index [] acc = acc"
| "rjenkins_tail index (byte # rest) (first, second, hash) =
     rjenkins_tail (Suc index) rest
       (if index \<le> 3 then (first + push_bit (index * 8) (ucast byte), second, hash)
        else if index \<le> 7 then (first, second + push_bit ((index - 4) * 8) (ucast byte), hash)
        else (first, second, hash + push_bit ((index - 7) * 8) (ucast byte)))"

definition rjenkins :: "bytes \<Rightarrow> u32" where
  "rjenkins value =
     (let ((first, second, hash), remainder) = rjenkins_chunks (0x9e3779b9, 0x9e3779b9, 0) value;
          hash = hash + (if length value < 2 ^ 32 then of_nat (length value) else U32_MAX);
          (first, second, hash) = rjenkins_tail 0 remainder (first, second, hash)
      in snd (snd (mix first second hash)))"

definition object_hash :: "bytes \<Rightarrow> bytes \<Rightarrow> bytes \<Rightarrow> u32" where
  "object_hash object locator namespace =
     (let key = (if locator = [] then object else locator)
      in if namespace = [] then rjenkins key
         else rjenkins (namespace @ [NAMESPACE_SEPARATOR] @ key))"

text \<open>\<open>u32::leading_zeros\<close>, by the number of significant bits.\<close>

fun bit_length :: "nat \<Rightarrow> nat" where
  "bit_length n = (if n = 0 then 0 else Suc (bit_length (n div 2)))"

declare bit_length.simps [simp del]

definition leading_zeros :: "u32 \<Rightarrow> nat" where
  "leading_zeros w = 32 - bit_length (unat w)"

definition stable_mask :: "u32 \<Rightarrow> u32" where
  "stable_mask count =
     (let shift = 32 - leading_zeros (count - 1)
      in (if shift < 32 then push_bit shift 1 else 0) - 1)"

definition stable_mod :: "u32 \<Rightarrow> u32 \<Rightarrow> u32" where
  "stable_mod value count =
     (if count = 0 then 0
      else if value AND stable_mask count < count then value AND stable_mask count
      else value AND drop_bit 1 (stable_mask count))"

section \<open>Arithmetic of \<open>stable_mod\<close>\<close>

lemma bit_length_0 [simp]: "bit_length 0 = 0"
  by (subst bit_length.simps) simp

lemma bit_length_pos: "0 < n \<Longrightarrow> bit_length n = Suc (bit_length (n div 2))"
  by (subst bit_length.simps) simp

lemma bit_length_upper: "n < 2 ^ bit_length n"
proof (induction n rule: bit_length.induct)
  case (1 n)
  then show ?case by (cases "n = 0") (auto simp: bit_length_pos)
qed

lemma bit_length_lower: "0 < n \<Longrightarrow> 2 ^ (bit_length n - 1) \<le> n"
proof (induction n rule: bit_length.induct)
  case (1 n)
  show ?case
  proof (cases "n div 2 = 0")
    case True
    with 1 show ?thesis by (auto simp: bit_length_pos)
  next
    case False
    with 1 have ih: "2 ^ (bit_length (n div 2) - 1) \<le> n div 2" by auto
    from False have "bit_length (n div 2) > 0" by (simp add: bit_length_pos)
    then have "2 ^ bit_length (n div 2) = 2 * (2::nat) ^ (bit_length (n div 2) - 1)"
      by (cases "bit_length (n div 2)") auto
    also have "\<dots> \<le> n" using ih by linarith
    finally show ?thesis using 1(2) by (simp add: bit_length_pos)
  qed
qed

lemma bit_length_le: "n < 2 ^ k \<Longrightarrow> bit_length n \<le> k"
proof (rule ccontr)
  assume n: "n < 2 ^ k" and "\<not> bit_length n \<le> k"
  then have "0 < n" and "k \<le> bit_length n - 1" by (cases "n = 0"; auto)+
  then have "(2::nat) ^ k \<le> n"
    using bit_length_lower [of n] power_increasing [of k "bit_length n - 1" "2::nat"] by linarith
  with n show False by simp
qed

text \<open>The reference definition over natural numbers.\<close>

definition stable_mod_nat :: "nat \<Rightarrow> nat \<Rightarrow> nat" where
  "stable_mod_nat v n =
     (let k = bit_length (n - 1)
      in if v mod 2 ^ k < n then v mod 2 ^ k else v mod 2 ^ (k - 1))"

lemma leading_zeros_bits: "32 - leading_zeros w = bit_length (unat w)"
proof -
  have "unat w < 2 ^ 32" using unsigned_less [of w, where 'a = nat] by simp
  then have "bit_length (unat w) \<le> 32" by (rule bit_length_le)
  then show ?thesis by (simp add: leading_zeros_def)
qed

lemma stable_mask_eq:
  assumes "count \<noteq> 0"
  shows "stable_mask count = mask (bit_length (unat count - 1))"
proof -
  have u: "unat (count - 1) = unat count - 1"
    using assms by (simp add: unat_minus_one)
  show ?thesis
    by (auto simp: stable_mask_def leading_zeros_bits u mask_eq_exp_minus_1 push_bit_eq_mult Let_def
        exp_eq_zero_iff)
qed

lemma unat_and_mask: "unat (v AND mask k :: u32) = unat v mod 2 ^ k"
proof -
  have "unat (v AND mask k) = unat (take_bit k v)" by (simp only: take_bit_eq_mask)
  also have "\<dots> = take_bit k (unat v)" by (rule unsigned_take_bit_eq)
  finally show ?thesis by (simp only: take_bit_eq_mod)
qed

lemma drop_mask: "k \<le> 32 \<Longrightarrow> drop_bit (Suc 0) (mask k :: u32) = mask (k - Suc 0)"
  by (auto simp: bit_eq_iff bit_drop_bit_eq bit_mask_iff)

lemma bit_length_count: "bit_length (unat (count :: u32) - 1) \<le> 32"
  by (rule bit_length_le) (use unsigned_less [of count, where 'a = nat] in auto)

lemma stable_mod_refines:
  assumes "count \<noteq> 0"
  shows "unat (stable_mod value count) = stable_mod_nat (unat value) (unat count)"
  using assms
  by (simp add: stable_mod_def stable_mask_eq stable_mod_nat_def Let_def drop_mask bit_length_count [simplified]
      unat_and_mask word_less_nat_alt)

lemma stable_mod_nat_less:
  assumes "0 < n"
  shows "stable_mod_nat v n < n"
proof (cases "v mod 2 ^ bit_length (n - 1) < n")
  case True
  then show ?thesis by (simp add: stable_mod_nat_def Let_def)
next
  case False
  have "n \<noteq> 1" using False by (auto simp: stable_mod_nat_def)
  then have "2 ^ (bit_length (n - 1) - 1) < n"
    using bit_length_lower [of "n - 1"] assms by linarith
  then have "v mod 2 ^ (bit_length (n - 1) - 1) < n"
    using mod_less_divisor [of "2 ^ (bit_length (n - 1) - 1)" v] by (meson less_trans zero_less_numeral zero_less_power)
  with False show ?thesis by (simp add: stable_mod_nat_def Let_def)
qed

lemma bit_length_exp: "0 < k \<Longrightarrow> bit_length (2 ^ k - 1) = k"
proof -
  assume k: "0 < k"
  have le: "bit_length (2 ^ k - 1) \<le> k" by (rule bit_length_le) simp
  have "\<not> bit_length (2 ^ k - 1) \<le> k - 1"
  proof
    assume "bit_length (2 ^ k - 1) \<le> k - 1"
    then have "2 ^ bit_length (2 ^ k - 1) \<le> (2::nat) ^ (k - 1)" by (rule power_increasing) simp
    then have "(2::nat) ^ k - 1 < 2 ^ (k - 1)" using bit_length_upper [of "2 ^ k - 1"] by linarith
    with k show False by (cases k) simp_all
  qed
  with le k show ?thesis by linarith
qed

text \<open>Adding one placement group changes the bit width only at a power of two.\<close>

lemma bit_length_step:
  assumes "0 < n"
  shows "bit_length n = bit_length (n - 1) \<or>
    (bit_length n = Suc (bit_length (n - 1)) \<and> n = 2 ^ bit_length (n - 1))"
proof (cases "n < 2 ^ bit_length (n - 1)")
  case True
  have "bit_length n \<le> bit_length (n - 1)" using True by (rule bit_length_le)
  moreover have "bit_length (n - 1) \<le> bit_length n"
    using bit_length_upper [of n] by (intro bit_length_le) linarith
  ultimately show ?thesis by simp
next
  case False
  have "n = 2 ^ bit_length (n - 1)"
    using bit_length_upper [of "n - 1"] False assms by linarith
  moreover have "bit_length (2 ^ j) = Suc j" for j
  proof (induction j)
    case 0
    show ?case by (simp add: bit_length_pos)
  next
    case (Suc j)
    have "bit_length (2 ^ Suc j) = Suc (bit_length (2 ^ Suc j div 2))"
      by (rule bit_length_pos) simp
    with Suc show ?case by simp
  qed
  ultimately show ?thesis by metis
qed

lemma mod_half:
  fixes v :: nat
  shows "v mod 2 ^ Suc k = v mod 2 ^ k \<or> v mod 2 ^ Suc k = v mod 2 ^ k + 2 ^ k"
proof -
  have "v mod (2 ^ k * 2) = 2 ^ k * (v div 2 ^ k mod 2) + v mod 2 ^ k" by (rule mod_mult2_eq)
  moreover have "v div 2 ^ k mod 2 = 0 \<or> v div 2 ^ k mod 2 = 1" by presburger
  ultimately show ?thesis by (auto simp: mult.commute)
qed

lemma stable_mod_nat_grow:
  assumes "0 < n"
  shows "stable_mod_nat v (Suc n) = stable_mod_nat v n \<or> stable_mod_nat v (Suc n) = n"
  using bit_length_step [OF assms]
proof
  assume "bit_length n = bit_length (n - 1)"
  then show ?thesis by (auto simp: stable_mod_nat_def Let_def less_Suc_eq)
next
  let ?k = "bit_length (n - 1)"
  assume "bit_length n = Suc ?k \<and> n = 2 ^ ?k"
  then have k: "bit_length n = Suc ?k" and n: "n = 2 ^ ?k" by simp_all
  have low: "v mod 2 ^ ?k < n" by (subst n) simp
  then have old: "stable_mod_nat v n = v mod 2 ^ ?k" by (simp add: stable_mod_nat_def Let_def)
  show ?thesis
    using mod_half [of v ?k] low n unfolding old stable_mod_nat_def Let_def diff_Suc_1 k
    by (auto simp: less_Suc_eq)
qed

section \<open>Properties\<close>

text \<open>Folding a hash into placement groups is in range: for a pool with at least one
  placement group the bit-mask computation of \<open>stable_mod\<close>, at full 32-bit width, gives a group
  number below the count, and for a power of two it is the remainder of the hash.\<close>

theorem stable_mod_in_range:
  assumes "count \<noteq> 0"
  shows "stable_mod value count < count \<and>
    (\<forall>k. unat count = 2 ^ k \<longrightarrow> unat (stable_mod value count) = unat value mod unat count)"
proof -
  have pos: "0 < unat count" using assms by (simp add: unat_gt_0)
  have "stable_mod_nat v (2 ^ k) = v mod 2 ^ k" for v k
    by (cases "k = 0") (simp_all add: stable_mod_nat_def Let_def bit_length_exp [simplified])
  then show ?thesis
    using stable_mod_nat_less [OF pos, of "unat value"]
    by (simp add: word_less_nat_alt stable_mod_refines [OF assms])
qed

theorem stable_mod_in_range_witness:
  "stable_mod 0x96fc93a8 32 < 32 \<and> unat (stable_mod 0x96fc93a8 32) = 8"
  using stable_mod_in_range [of 32 "0x96fc93a8"]
    stable_mod_in_range [of 32 "0x96fc93a8", THEN conjunct2, rule_format, of 5] by simp

text \<open>C24: Growing a pool by one placement group moves objects only into the new group: every hash
  keeps its group or lands in the group that was added.\<close>

theorem stable_mod_grows_minimally:
  assumes "count \<noteq> 0" and "count \<noteq> U32_MAX"
  shows "stable_mod value (count + 1) = stable_mod value count \<or>
    stable_mod value (count + 1) = count"
proof -
  have nz: "count + 1 \<noteq> 0" using assms(2) by (metis add.inverse_unique add.commute)
  then have suc: "unat (count + 1) = Suc (unat count)" by (simp add: unatSuc add.commute)
  have pos: "0 < unat count" using assms(1) by (simp add: unat_gt_0)
  show ?thesis
    using stable_mod_nat_grow [OF pos, of "unat value"]
    by (auto simp: stable_mod_refines [OF assms(1)] stable_mod_refines [OF nz] suc
        word_unat_eq_iff)
qed

theorem stable_mod_grows_minimally_witness:
  "stable_mod 12 (12 + 1) = stable_mod 12 12 \<or> stable_mod 12 (12 + 1) = 12"
  using stable_mod_grows_minimally [of 12 12] by simp

end
