(* ===== verification/Crush_Ln.thy ===== *)
theory Crush_Ln
  imports Crush_Hash
begin

text \<open>
  \<open>src/crush/ln.rs\<close>: the fixed-point logarithm of straw2.  The two tables are the rows of the
  base64 texts in the source.  Every panic of the function (an underflow, an index out of a table, a
  product beyond 64 bits) is the value \<open>None\<close>; the property is that none happens on the
  16-bit inputs straw2 draws from, and that the result never exceeds \<open>2 ^ 48\<close>, which makes
  every straw2 draw a non-positive number.
\<close>

definition crush_ln_lh :: "int list" where
  "crush_ln_lh =
    [0x0, 0x2dfca16dde1, 0x5b9e5a170b4, 0x88e68ea899a, 0xb5d69bac77e, 0xe26fd5c8555,
     0x10eb389fa29f, 0x13aa2fdd27f1, 0x1663f6fac913, 0x1918a16e4633, 0x1bc84240adab,
     0x1e72ec117fa5, 0x2118b119b4f3, 0x23b9a32eaa56, 0x2655d3c4f15c, 0x28ed53f307ee,
     0x2b803473f7ad, 0x2e0e85a9de04, 0x309857a05e07, 0x331dba0efce1, 0x359ebc5b69d9,
     0x381b6d9bb29b, 0x3a93dc9864b2, 0x3d0817ce9cd4, 0x3f782d7204d0, 0x41e42b6ec0c0,
     0x444c1f6b4c2d, 0x46b016ca47c1, 0x49101eac381c, 0x4b6c43f1366a, 0x4dc4933a9337,
     0x501918ec6c11, 0x5269e12f346e, 0x54b6f7f1325a, 0x570068e7ef5a, 0x59463f919dee,
     0x5b8887367433, 0x5dc74ae9fbec, 0x6002958c5871, 0x623a71cb82c8, 0x646eea247c5c,
     0x66a008e4788c, 0x68cdd829fd81, 0x6af861e5fc7d, 0x6d1fafdce20a, 0x6f43cba79e40,
     0x7164beb4a56d, 0x73829248e961, 0x759d4f80cba8, 0x77b4ff5108d9, 0x79c9aa879d53,
     0x7bdb59cca388, 0x7dea15a32c1b, 0x7ff5e66a0ffe, 0x81fed45cbccb, 0x8404e793fb81,
     0x86082806b1d5, 0x88089d8a9e47, 0x8a064fd50f2a, 0x8c01467b94bb, 0x8df988f4ae80,
     0x8fef1e987409, 0x91e20ea1393e, 0x93d2602c2e5f, 0x95c01a39fbd6, 0x97ab43af59f9,
     0x9993e355a4e5, 0x9b79ffdb6c8b, 0x9d5d9fd5010b, 0x9f3ec9bcfb80, 0xa11d83f4c355,
     0xa2f9d4c51039, 0xa4d3c25e68dc, 0xa6ab52d99e76, 0xa8808c384547, 0xaa5374652a1c,
     0xac241134c4e9, 0xadf26865a8a1, 0xafbe7fa0f04d, 0xb1885c7aa982, 0xb35004723c46,
     0xb5157cf2d078, 0xb6d8cb53b0ca, 0xb899f4d8ab63, 0xba58feb2703a, 0xbc15edfeed32,
     0xbdd0c7c9a817, 0xbf89910c1678, 0xc1404eadf383, 0xc2f5058593d9, 0xc4a7ba58377c,
     0xc65871da59dd, 0xc80730b00016, 0xc9b3fb6d0559, 0xcb5ed69565af, 0xcd07c69d8702,
     0xceaecfea8085, 0xd053f6d26089, 0xd1f73f9c70c0, 0xd398ae817906, 0xd53847ac00a6,
     0xd6d60f388e41, 0xd8720935e643, 0xda0c39a54804, 0xdba4a47aa996, 0xdd3b4d9cf24b,
     0xded038e633f3, 0xe0636a23e2ee, 0xe1f4e5170d02, 0xe384ad748f0e, 0xe512c6e54998,
     0xe69f35065448, 0xe829fb693044, 0xe9b31d93f98e, 0xeb3a9f019750, 0xecc08321eb30,
     0xee44cd59ffab, 0xefc781043579, 0xf148a170700a, 0xf2c831e44116, 0xf446359b1353,
     0xf5c2afc65447, 0xf73da38d9d4a, 0xf8b7140edbb1, 0xfa2f045e7832, 0xfba577877d7d,
     0xfd1a708bbe11, 0xfe8df263f957, 0xffff00000000]"

definition crush_ln_ll :: "int list" where
  "crush_ln_ll =
    [0x0, 0x2e2a60a00, 0x70cb64ec5, 0x9ef50ce67, 0xcd1e588fd, 0xfb4747e9c, 0x1296fdaf5e,
     0x1579811b58, 0x185bfec2a1, 0x1b3e76a552, 0x1e20e8c380, 0x2103551d43, 0x23e5bbb2b2,
     0x26c81c83e4, 0x29aa7790f0, 0x2c8cccd9ed, 0x2f6f1c5ef2, 0x3251662017, 0x3533aa1d71,
     0x3815e8571a, 0x3af820cd26, 0x3dda537fae, 0x40bc806ec8, 0x439ea79a8c, 0x4680c90310,
     0x4962e4a86c, 0x4c44fa8ab6, 0x4f270aaa06, 0x5209150672, 0x54eb19a013, 0x57cd1876fd,
     0x5aaf118b4a, 0x5d9104dd0f, 0x6072f26c64, 0x6354da3960, 0x6636bc441a, 0x6918988ca8,
     0x6bfa6f1322, 0x6edc3fd79f, 0x71be0ada35, 0x749fd01afd, 0x77818f9a0c, 0x7a6349577a,
     0x7d44fd535e, 0x8026ab8dce, 0x83085406e3, 0x85e9f6beb2, 0x88cb93b552, 0x8bad2aeadc,
     0x8e8ebc5f65, 0x9170481305, 0x9451ce05d3, 0x97334e37e5, 0x9a14c8a953, 0x9cf63d5a33,
     0x9fd7ac4a9d, 0xa2b07f3458, 0xa59a78ea6a, 0xa87bd699fb, 0xab5d2e8970, 0xae3e80b8e3,
     0xb11fcd2869, 0xb40113d818, 0xb6e254c80a, 0xb9c38ff853, 0xbca4c5690c, 0xbf85f51a4a,
     0xc2671f0c26, 0xc548433eb6, 0xc82961b211, 0xcb0a7a664d, 0xcdeb8d5b82, 0xd0cc9a91c8,
     0xd3ada20933, 0xd68ea3c1dd, 0xd96f9fbbdb, 0xdc5095f744, 0xdf31867430, 0xe2127132b5,
     0xe4f35632ea, 0xe7d43574e6, 0xeab50ef8c1, 0xed95e2be90, 0xf076b0c66c, 0xf35779106a,
     0xf6383b9ca2, 0xf918f86b2a, 0xfbf9af7c1a, 0xfeda60cf88, 0x101bb0c658c, 0x1049bb23e3c,
     0x1077c5259af, 0x10a5cecb7fc, 0x10d3d81593a, 0x1101e103d7f, 0x112fe9964e4, 0x115df1ccf7e,
     0x118bf9a7d64, 0x11ba0126ead, 0x11e8084a371, 0x12160f11bc6, 0x1244157d7c3, 0x12721b8d77f,
     0x12a02141b10, 0x12ce269a28e, 0x12fc2b96e0f, 0x132a3037daa, 0x1358347d177, 0x1386386698c,
     0x13b43bf45ff, 0x13e23f266e9, 0x141041fcc5e, 0x143e4477678, 0x146c469654b, 0x149a48598f0,
     0x14c849c117c, 0x14f64accf08, 0x15244b7d1a9, 0x15524bd1976, 0x15804bca687, 0x15ae4b678f2,
     0x15dc4aa90ce, 0x160a498ee31, 0x16384819134, 0x166646479ec, 0x1694441a870, 0x16c24191cd7,
     0x16df6ca19bd, 0x171e3b6d7aa, 0x174c37d1e44, 0x177a33dab1c, 0x17a82f87e49, 0x17d62ad97e2,
     0x180425cf7fe, 0x182b07f3458, 0x18601aa8c19, 0x188e148c046, 0x18bc0e13b52, 0x18ea073fd52,
     0x1918001065d, 0x1945f88568b, 0x1973f09edf2, 0x19a1e85ccaa, 0x19cfdfbf2c8, 0x19fdd6c6063,
     0x1a2bcd71593, 0x1a59c3c126e, 0x1a87b9b570b, 0x1ab5af4e380, 0x1ae3a48b7e5, 0x1b11996d450,
     0x1b3f8df38d9, 0x1b6d821e595, 0x1b9b75eda9b, 0x1bc96961803, 0x1bf75c79de3, 0x1c254f36c51,
     0x1c534198365, 0x1c81339e336, 0x1caf2548bd9, 0x1cdd1697d67, 0x1d0b078b7f5, 0x1d38f823b9a,
     0x1d66e86086d, 0x1d94d841e86, 0x1dc2c7c7df9, 0x1df0b6f26df, 0x1e1ea5c194e, 0x1e4c943555d,
     0x1e7a824db23, 0x1ea8700aab5, 0x1ed65d6c42b, 0x1f044a7279d, 0x1f32371d51f, 0x1f60236ccca,
     0x1f8e0f60eb3, 0x1fbbfaf9af3, 0x1fe9e63719e, 0x2017d1192cc, 0x2045bb9fe94, 0x2073a5cb50d,
     0x209c06e6212, 0x20cf791026a, 0x20fd622997c, 0x212b07f3458, 0x2159334a8d8, 0x21871b52150,
     0x21b502fe517, 0x21d6a73a78f, 0x2210d144eee, 0x223eb7df52c, 0x226c9e1e713, 0x229a84024bb,
     0x22c23679b4e, 0x22f64eb83a8, 0x2324338a51b, 0x235218012a9, 0x237ffc1cc69, 0x23a2c3b0ea4,
     0x23d13ee805b, 0x24035e9221f, 0x243788faf25, 0x24656b4e735, 0x247ed646bfe, 0x24c12ee3d98,
     0x24ef1025c1a, 0x251cf10c799, 0x25492644d65, 0x2578b1c85ee, 0x25a6919d8f0, 0x25d13ee805b,
     0x26025036716, 0x26296453882, 0x265e0d62b53, 0x268beb701f3, 0x26b9c92265e, 0x26d32f798a9,
     0x271583758eb, 0x2743601673b, 0x27713c5c3b0, 0x279f1846e5f, 0x27ccf3d6761, 0x27e6580aecb,
     0x2828a9e44b3, 0x28568462932, 0x287bdbf5255, 0x28b2384de4a, 0x28d13ee805b, 0x29035e9221f,
     0x29296453882, 0x29699bdfb61, 0x29902a37aab, 0x29c54b864c9, 0x29deabd1083, 0x2a20f9c0bb5,
     0x2a4c7605d61, 0x2a7bdbf5255, 0x2a96056dafc, 0x2ac3daf14ef, 0x2af1b019eca, 0x2b296453882,
     0x2b5d022d80f, 0x2b8fa471cb3, 0x2ba9012e713, 0x2bd6d4901cc, 0x2c04a796cf6, 0x2c327a428a6,
     0x2c61a5e8f4c, 0x2c8e1e891f6, 0x2cbbf023fc2, 0x2ce9c163e6e, 0x2d179248e13, 0x2d4562d2ec6,
     0x2d73330209d, 0x2da102d63b0, 0x2dced24f814]"

definition table_u64 :: "int list \<Rightarrow> nat \<Rightarrow> int option" where
  "table_u64 table index = (if index < length table then Some (table ! index) else None)"

definition crush_ln_scaled :: "u32 \<Rightarrow> nat \<Rightarrow> int option" where
  "crush_ln_scaled x exponent =
     (let coarse = uint (drop_bit 8 x) in
      if coarse = 0 then None
      else let reciprocal = (2 ^ 55 + coarse - 1) div coarse;
               product = uint x * reciprocal
        in if product \<ge> 2 ^ 64 then None
           else let fraction = product div 2 ^ 48 mod 256
             in if coarse < 128 then None
                else (case (table_u64 crush_ln_lh (nat (coarse - 128)),
                            table_u64 crush_ln_ll (nat fraction)) of
                        (Some high, Some low) \<Rightarrow>
                          Some (int exponent * 2 ^ 44 + (high + low) div 16)
                      | _ \<Rightarrow> None))"

definition crush_ln :: "u32 \<Rightarrow> int option" where
  "crush_ln input =
     (let x = input + 1 in
      if x AND 0x18000 = 0 then
        let zeros = leading_zeros (x AND 0x1ffff) in
        if zeros < 16 \<or> zeros - 16 > 15 then None
        else crush_ln_scaled (push_bit (zeros - 16) x) (15 - (zeros - 16))
      else crush_ln_scaled x 15)"

section \<open>Table facts\<close>

lemma length_tables: "length crush_ln_lh = 129" "length crush_ln_ll = 256"
  by (simp_all add: crush_ln_lh_def crush_ln_ll_def)

lemma sorted_ll: "sorted crush_ln_ll"
  unfolding crush_ln_ll_def by (simp add: sorted2 sorted1 del: sorted_wrt.simps)

lemma tables_nonneg: "list_all (\<lambda>v. 0 \<le> v) crush_ln_lh" "list_all (\<lambda>v. 0 \<le> v) crush_ln_ll"
  unfolding crush_ln_lh_def crush_ln_ll_def by simp_all

lemma tables_ends: "crush_ln_lh ! 128 = 0xffff00000000" "crush_ln_ll ! 0 = 0"
  unfolding crush_ln_lh_def crush_ln_ll_def by simp_all

text \<open>
  The row sums that can occur together: with high bits \<open>coarse\<close> the low table is read at
  \<open>32640 div coarse\<close> at most.
\<close>

lemma row_sums:
  "list_all (\<lambda>c. crush_ln_lh ! c + crush_ln_ll ! nat (32640 div (int c + 128)) < 2 ^ 48) [0..<128]"
  unfolding crush_ln_lh_def crush_ln_ll_def by code_simp

section \<open>The fraction is bounded by the coarse bits\<close>

lemma fraction_bound:
  fixes c t r s :: int
  assumes c: "128 \<le> c" "c < 256" and t: "0 \<le> t" "t < 256"
    and r: "c * r = 2 ^ 55 + s" and s: "0 \<le> s" "s < c"
  shows "(256 * s + t * r) div 2 ^ 48 \<le> 32640 div c"
proof -
  let ?q = "32640 div c"
  have "32640 < c * (?q + 1)"
    using c mult_div_mod_eq [of c 32640] pos_mod_bound [of c 32640]
    unfolding distrib_left by linarith
  then have "32641 * 2 ^ 48 \<le> (c * (?q + 1)) * 2 ^ 48" by (intro mult_right_mono) auto
  then have q: "255 * 2 ^ 55 + 2 ^ 48 \<le> c * ((?q + 1) * 2 ^ 48)" by (simp only: mult.assoc) simp
  have s256: "s \<le> 255" and t255: "t \<le> 255" using s c t by simp_all
  have "c * (256 * s + t * r) = 256 * s * c + t * (c * r)"
    by (simp add: algebra_simps)
  also have "\<dots> = 256 * s * c + t * (2 ^ 55 + s)" by (simp only: r)
  also have "\<dots> \<le> 256 * 255 * 255 + 255 * (2 ^ 55 + 255)"
    using s t c s256 t255 by (intro add_mono mult_mono) auto
  also have "\<dots> < 255 * 2 ^ 55 + 2 ^ 48" by simp
  finally have "c * (256 * s + t * r) < c * ((?q + 1) * 2 ^ 48)" using q by linarith
  then have "256 * s + t * r < (?q + 1) * 2 ^ 48"
    using c by (simp add: mult_less_cancel_left_pos)
  then have "(256 * s + t * r) div 2 ^ 48 < ?q + 1"
    by (simp add: div_less_iff_less_mult)
  then show ?thesis by simp
qed

lemma ceil_div:
  fixes c n :: int
  assumes "0 < c"
  obtains s where "c * ((n + c - 1) div c) = n + s" "0 \<le> s" "s < c"
proof
  show "c * ((n + c - 1) div c) = n + (c - 1 - (n + c - 1) mod c)"
    using mult_div_mod_eq [of c "n + c - 1"] by linarith
  show "0 \<le> c - 1 - (n + c - 1) mod c" "c - 1 - (n + c - 1) mod c < c"
    using pos_mod_bound [OF assms, of "n + c - 1"] pos_mod_sign [OF assms, of "n + c - 1"]
    by linarith+
qed

lemma crush_ln_product:
  fixes x :: int
  assumes x: "32768 \<le> x" "x < 65536"
  defines "c \<equiv> x div 256"
  defines "p \<equiv> x * ((2 ^ 55 + c - 1) div c)"
  shows "p < 2 ^ 64" "p div 2 ^ 48 mod 256 \<le> 32640 div c" "128 \<le> c" "c < 256"
proof -
  show c: "128 \<le> c" "c < 256" using x by (simp_all add: c_def)
  let ?t = "x mod 256"
  obtain s where s: "c * ((2 ^ 55 + c - 1) div c) = 2 ^ 55 + s" "0 \<le> s" "s < c"
    using ceil_div [of c "2 ^ 55"] c by auto
  define r where "r = (2 ^ 55 + c - 1) div c"
  have cr: "c * r = 2 ^ 55 + s" using s(1) by (simp add: r_def)
  have t: "0 \<le> ?t" "?t < 256" by simp_all
  have "x = 256 * c + ?t" by (simp add: c_def)
  then have "p = 256 * (c * r) + ?t * r"
    by (metis (no_types) p_def r_def distrib_right mult.assoc)
  then have p: "p = 2 ^ 15 * 2 ^ 48 + (256 * s + ?t * r)" by (simp add: cr)
  have w: "(256 * s + ?t * r) div 2 ^ 48 \<le> 32640 div c"
    by (rule fraction_bound [OF c t cr s(2,3)])
  moreover have q: "32640 div c \<le> 255" using zdiv_mono2 [of 32640 128 c] c by simp
  ultimately have "(256 * s + ?t * r) div 2 ^ 48 < 256" by linarith
  then have "256 * s + ?t * r < 256 * 2 ^ 48" by (simp add: div_less_iff_less_mult)
  then show "p < 2 ^ 64" by (simp add: p)
  have r0: "0 \<le> r" using c by (simp add: r_def pos_imp_zdiv_nonneg_iff)
  have "p div 2 ^ 48 = 2 ^ 15 + (256 * s + ?t * r) div 2 ^ 48" unfolding p by simp
  also have "\<dots> mod 256 = (256 * s + ?t * r) div 2 ^ 48 mod 256"
    by (simp add: mod_add_left_eq [symmetric])
  also have "\<dots> \<le> (256 * s + ?t * r) div 2 ^ 48"
    using s t r0 by (intro zmod_le_nonneg_dividend pos_imp_zdiv_nonneg_iff [THEN iffD2]) auto
  finally show "p div 2 ^ 48 mod 256 \<le> 32640 div c" using w by simp
qed

section \<open>Totality and the upper bound\<close>

lemma row_sum_less:
  assumes "128 \<le> c" "c < 256" "0 \<le> f" "f \<le> 32640 div c"
  shows "crush_ln_lh ! nat (c - 128) + crush_ln_ll ! nat f < 2 ^ 48"
proof -
  have "32640 div c \<le> 255" using zdiv_mono2 [of 32640 128 c] assms(1) by simp
  then have "crush_ln_ll ! nat f \<le> crush_ln_ll ! nat (32640 div c)"
    using assms by (intro sorted_nth_mono sorted_ll) (auto simp: length_tables)
  moreover have "crush_ln_lh ! nat (c - 128) + crush_ln_ll ! nat (32640 div c) < 2 ^ 48"
  proof -
    have "nat (c - 128) \<in> set [0..<128]" "int (nat (c - 128)) + 128 = c" using assms by auto
    then show ?thesis using row_sums unfolding list_all_iff by metis
  qed
  ultimately show ?thesis by linarith
qed

lemma crush_ln_scaled_bound:
  assumes "32768 \<le> uint x" "uint x \<le> 65536"
  shows "\<exists>v. crush_ln_scaled x e = Some v \<and> v < (int e + 1) * 2 ^ 44 \<and> 0 \<le> v"
proof -
  have coarse: "uint (drop_bit 8 x) = uint x div 256"
    by (simp add: drop_bit_eq_div uint_div)
  have nn: "0 \<le> crush_ln_lh ! i" "0 \<le> crush_ln_ll ! j" if "i < 129" "j < 256" for i j
    using tables_nonneg that by (auto simp: list_all_length length_tables)
  show ?thesis
  proof (cases "uint x = 65536")
    case True
    then have "crush_ln_scaled x e = Some (int e * 2 ^ 44 + 0xffff00000000 div 16)"
      by (simp add: crush_ln_scaled_def coarse table_u64_def length_tables tables_ends)
    then show ?thesis by simp
  next
    case False
    with assms have x: "32768 \<le> uint x" "uint x < 65536" by simp_all
    define c where "c = uint x div 256"
    define p where "p = uint x * ((2 ^ 55 + c - 1) div c)"
    define f where "f = p div 2 ^ 48 mod 256"
    have pr: "p < 2 ^ 64" "f \<le> 32640 div c" "128 \<le> c" "c < 256"
      using crush_ln_product [OF x] by (simp_all only: c_def p_def f_def)
    have f: "0 \<le> f" "f < 256" by (simp_all add: f_def)
    have idx: "nat (c - 128) < 129" "nat f < 256" using pr(3,4) f by simp_all
    have sum: "crush_ln_lh ! nat (c - 128) + crush_ln_ll ! nat f < 2 ^ 48"
      by (rule row_sum_less [OF pr(3,4) f(1) pr(2)])
    have "\<not> 2 ^ 64 \<le> p" "c \<noteq> 0" "\<not> c < 128" using pr by simp_all
    then have "crush_ln_scaled x e =
        Some (int e * 2 ^ 44 + (crush_ln_lh ! nat (c - 128) + crush_ln_ll ! nat f) div 16)"
      unfolding crush_ln_scaled_def Let_def coarse c_def [symmetric] p_def [symmetric] f_def [symmetric]
      using idx by (simp only: table_u64_def length_tables if_True if_False simp_thms option.case prod.case)
    moreover have "(crush_ln_lh ! nat (c - 128) + crush_ln_ll ! nat f) div 16 < 2 ^ 44"
      using sum by simp
    moreover have "0 \<le> (crush_ln_lh ! nat (c - 128) + crush_ln_ll ! nat f) div 16"
      using nn [OF idx] by simp
    ultimately show ?thesis by (simp add: distrib_right)
  qed
qed

lemma and_0x18000:
  assumes "uint x \<le> 65536"
  shows "(x AND 0x18000 = (0::u32)) = (uint x < 32768)"
proof -
  consider "uint x < 32768" | "32768 \<le> uint x" "uint x < 65536" | "uint x = 65536"
    using assms by linarith
  then show ?thesis
  proof cases
    case 1
    then have "x = x AND mask 15"
      by (simp add: word_uint_eq_iff unsigned_take_bit_eq take_bit_int_eq_self flip: take_bit_eq_mask)
    then have "x AND 0x18000 = x AND (mask 15 AND 0x18000)" by (metis and.assoc)
    also have "(mask 15 AND 0x18000 :: u32) = 0" by (simp add: mask_eq_exp_minus_1)
    finally show ?thesis using 1 by simp
  next
    case 2
    then have "uint x div 2 ^ 15 = 1" by simp
    then have "bit (uint x) 15" by (simp add: bit_iff_odd)
    then have "bit x 15" by (simp add: bit_uint_iff)
    then have "bit (x AND 0x18000) 15" by (simp add: bit_and_iff)
    then show ?thesis using 2 by auto
  next
    case 3
    then have "x = 65536" by (simp add: word_uint_eq_iff)
    then show ?thesis by simp
  qed
qed

lemma leading_zeros_low:
  fixes x :: u32
  assumes "0 < uint x" "uint x < 32768"
  shows "leading_zeros x = 32 - bit_length (unat x)" "0 < bit_length (unat x)" "bit_length (unat x) \<le> 15"
    "2 ^ (bit_length (unat x) - 1) \<le> unat x" "unat x < 2 ^ bit_length (unat x)"
proof -
  have pos: "0 < unat x" using assms(1) by (auto simp: unat_gt_0)
  have "unat x < 32768" using assms(2) uint_nat [of x] by linarith
  then have "unat x < 2 ^ 15" by simp
  then show "bit_length (unat x) \<le> 15" by (rule bit_length_le)
  show "leading_zeros x = 32 - bit_length (unat x)" by (simp add: leading_zeros_def)
  show "0 < bit_length (unat x)" using pos by (simp add: bit_length_pos)
  show "2 ^ (bit_length (unat x) - 1) \<le> unat x" using pos by (rule bit_length_lower)
  show "unat x < 2 ^ bit_length (unat x)" by (rule bit_length_upper)
qed

lemma normalised_range:
  fixes x :: u32
  assumes "0 < uint x" "uint x < 32768"
  defines "k \<equiv> 16 - bit_length (unat x)"
  shows "32768 \<le> uint (push_bit k x)" "uint (push_bit k x) < 65536"
proof -
  note lz = leading_zeros_low [OF assms(1,2)]
  have bl: "bit_length (unat x) + k = 16" using lz(3) by (simp add: k_def)
  have lo: "(2::nat) ^ 15 \<le> unat x * 2 ^ k"
  proof -
    have "(2::nat) ^ 15 = 2 ^ (bit_length (unat x) - 1) * 2 ^ k"
      using bl lz(2) by (simp flip: power_add)
    also have "\<dots> \<le> unat x * 2 ^ k" using lz(4) by simp
    finally show ?thesis .
  qed
  have hi: "unat x * 2 ^ k < 2 ^ 16"
  proof -
    have "unat x * 2 ^ k < 2 ^ bit_length (unat x) * 2 ^ k" using lz(5) by simp
    also have "\<dots> = 2 ^ 16" using bl by (simp flip: power_add)
    finally show ?thesis .
  qed
  have "unat (push_bit k x) = take_bit 32 (unat x * 2 ^ k)"
    using unsigned_push_bit_eq [of k x, where 'a = nat] by (simp add: push_bit_eq_mult)
  also have "\<dots> = unat x * 2 ^ k" using hi by (intro take_bit_nat_eq_self) simp
  finally have "uint (push_bit k x) = int (unat x * 2 ^ k)" by (metis uint_nat)
  moreover have "32768 \<le> unat x * 2 ^ k" "unat x * 2 ^ k < 65536" using lo hi by simp_all
  ultimately show "32768 \<le> uint (push_bit k x)" "uint (push_bit k x) < 65536" by linarith+
qed

lemma crush_ln_total:
  assumes "input \<le> 0xffff"
  shows "\<exists>v. crush_ln input = Some v \<and> 0 \<le> v \<and> v \<le> 2 ^ 48"
proof -
  let ?x = "input + 1"
  have "uint input \<le> 65535" using assms by (simp add: word_le_def)
  then have x: "uint ?x = uint input + 1" by (simp add: uint_word_ariths)
  then have x1: "0 < uint ?x" "uint ?x \<le> 65536" using \<open>uint input \<le> 65535\<close> by simp_all
  show ?thesis
  proof (cases "uint ?x < 32768")
    case True
    note lz = leading_zeros_low [OF x1(1) True]
    have low: "?x AND 0x1ffff = ?x"
    proof -
      have "?x AND 0x1ffff = take_bit 17 ?x" by (simp add: take_bit_eq_mask mask_eq_exp_minus_1)
      also have "\<dots> = ?x" using True by (simp add: word_uint_eq_iff unsigned_take_bit_eq take_bit_int_eq_self)
      finally show ?thesis .
    qed
    let ?k = "16 - bit_length (unat ?x)"
    have "crush_ln input = crush_ln_scaled (push_bit ?k ?x) (15 - ?k)"
    proof -
      have "\<not> 32 - bit_length (unat ?x) < 16" "\<not> 15 < 16 - bit_length (unat ?x)"
        using lz(2,3) by linarith+
      then show ?thesis
        using lz(1) True unfolding crush_ln_def Let_def and_0x18000 [OF x1(2)] low by simp
    qed
    moreover obtain v where "crush_ln_scaled (push_bit ?k ?x) (15 - ?k) = Some v"
        "v < (int (15 - ?k) + 1) * 2 ^ 44" "0 \<le> v"
      using crush_ln_scaled_bound [of "push_bit ?k ?x" "15 - ?k"] normalised_range [OF x1(1) True] by auto
    moreover have "(int (15 - ?k) + 1) * 2 ^ 44 \<le> 16 * 2 ^ 44" by (intro mult_right_mono) auto
    ultimately show ?thesis by auto
  next
    case False
    then have "crush_ln input = crush_ln_scaled ?x 15"
      by (simp add: crush_ln_def and_0x18000 [OF x1(2)])
    with crush_ln_scaled_bound [of ?x 15] False x1(2) show ?thesis by auto
  qed
qed

section \<open>Properties\<close>

text \<open>C25: The fixed-point logarithm is total on the inputs straw2 gives it: for every 16-bit value the
  computation has no underflow, no overflow of 64 bits and no table index out of range, and its
  result lies between 0 and \<open>2 ^ 48\<close>, so that \<open>crush_ln(u) - 2 ^ 48\<close> is never positive.\<close>

theorem crush_ln_bounded:
  assumes "input \<le> 0xffff"
  shows "\<exists>v. crush_ln input = Some v \<and> 0 \<le> v \<and> v \<le> 2 ^ 48"
  using assms by (rule crush_ln_total)

theorem crush_ln_bounded_witness:
  "\<exists>v. crush_ln 65534 = Some v \<and> 0 \<le> v \<and> v \<le> 2 ^ 48"
  using crush_ln_bounded [of 65534] by simp

end
