(* ===== verification/Crush_Place.thy ===== *)
theory Crush_Place
  imports Crush_Map Crush_Ln "HOL-Library.Monad_Syntax" "HOL-Library.Signed_Division"
begin

text \<open>
  \<open>src/crush/place.rs\<close>: CRUSH placement.  Every function that can panic (an index out of range, a
  failed \<open>expect\<close>, an underflow) or loop for ever returns an option, and None is that outcome; the
  main theorem is that for a well-formed map the whole of \<open>place\<close> returns, and that what it returns
  is a list of distinct devices that are in the map and not out.

  The recursion of \<open>choose_first_n\<close> and \<open>choose_indep\<close> into a leaf always passes
  \<open>recurse_to_leaf = false\<close>, so it is never more than one level deep: the loops take the recursive
  call as a parameter and are tied twice.  \<open>choose_first_n\<close> has a \<open>Result\<close> type in the source but
  produces no error of its own, so its model has no error case.
\<close>

section \<open>Selection within a bucket\<close>

definition ITEM_NONE :: i32 where "ITEM_NONE = 2147483647"
definition MAX_CERTIFIED_REPLICAS :: usize where "MAX_CERTIFIED_REPLICAS = 64"

datatype placement_error = PlacementError

definition u32_of_usize :: "usize \<Rightarrow> u32 option" where
  "u32_of_usize n = (if n < 2 ^ 32 then Some (of_nat n) else None)"

definition straw2_draw :: "bucket \<Rightarrow> u32 \<Rightarrow> usize \<Rightarrow> usize \<Rightarrow> u32 \<Rightarrow> i64 option" where
  "straw2_draw b seed replica index weight =
     (if weight = 0 then Some (- (2 ^ 63))
      else do {
        item \<leftarrow> list_get (bucket_items b) index;
        r \<leftarrow> u32_of_usize replica;
        ln \<leftarrow> crush_ln (hash32_triple seed (word_of_int item) r AND 0xffff);
        Some ((ln - 2 ^ 48) sdiv uint weight)
      })"

fun straw2_loop :: "bucket \<Rightarrow> u32 \<Rightarrow> usize \<Rightarrow> usize \<Rightarrow> u32 list \<Rightarrow> usize \<Rightarrow> i64 \<Rightarrow> usize option" where
  "straw2_loop b seed replica index [] high high_draw = Some high"
| "straw2_loop b seed replica index (weight # ws) high high_draw = do {
     draw \<leftarrow> straw2_draw b seed replica index weight;
     if index = 0 \<or> draw > high_draw then straw2_loop b seed replica (index + 1) ws index draw
     else straw2_loop b seed replica (index + 1) ws high high_draw
   }"

definition straw2_choose :: "bucket \<Rightarrow> u32 \<Rightarrow> usize \<Rightarrow> i32 option" where
  "straw2_choose b seed replica = do {
     high \<leftarrow> straw2_loop b seed replica 0 (item_weights b) 0 (- (2 ^ 63));
     list_get (bucket_items b) high
   }"

text \<open>The cached permutations.  The count is at most the bucket size, so it is a natural number.\<close>

record permutation =
  perm_seed :: u32
  perm_count :: nat
  perm_items :: "u32 list"

type_synonym permutations = "(i32 \<times> permutation) list"

function permutation_extend :: "u32 \<Rightarrow> u32 \<Rightarrow> usize \<Rightarrow> usize \<Rightarrow> permutation \<Rightarrow> permutation option" where
  "permutation_extend seed bid len position st =
     (if perm_count st \<le> position then do {
        st \<leftarrow> (if perm_count st < len - 1 then
                let current = perm_count st;
                    offset = unat (hash32_triple seed bid (of_nat current) mod of_nat (len - current))
                in if offset \<noteq> 0 then do {
                     a \<leftarrow> list_get (perm_items st) current;
                     b \<leftarrow> list_get (perm_items st) (current + offset);
                     Some (st\<lparr>perm_items := (perm_items st)[current := b, current + offset := a]\<rparr>)
                   } else Some st
              else Some st);
        permutation_extend seed bid len position (st\<lparr>perm_count := perm_count st + 1\<rparr>)
      } else Some st)"
  by pat_completeness auto
termination
  by (relation "measure (\<lambda>(_, _, _, position, st). position + 1 - perm_count st)")
    (auto simp: Let_def split: if_splits Option.bind_splits)

definition permutation_choose :: "bucket \<Rightarrow> u32 \<Rightarrow> usize \<Rightarrow> permutations \<Rightarrow> (i32 \<times> permutations) option" where
  "permutation_choose b seed replica perms = do {
     let len = length (bucket_items b);
     let bid = word_of_int (bucket_id b);
     let st = (case map_of perms (bucket_id b) of
                 Some st \<Rightarrow> st
               | None \<Rightarrow> \<lparr>perm_seed = 0, perm_count = 0, perm_items = replicate len 0\<rparr>);
     r \<leftarrow> u32_of_usize replica;
     n \<leftarrow> u32_of_usize len;
     if n = 0 then None else do {
     let position = unat (r mod n);
     if (perm_seed st \<noteq> seed \<or> perm_count st = 0) \<and> position = 0 then do {
       let selected = hash32_triple seed bid 0 mod n;
       items \<leftarrow> list_set (perm_items st) 0 selected;
       item \<leftarrow> list_get (bucket_items b) (unat selected);
       Some (item, btree_insert (bucket_id b)
                     \<lparr>perm_seed = seed, perm_count = 0xffff, perm_items = items\<rparr> perms)
     } else do {
       st \<leftarrow>
         (if perm_seed st \<noteq> seed \<or> perm_count st = 0 then
            Some (st\<lparr>perm_seed := seed, perm_items := map of_nat [0..<length (perm_items st)],
                     perm_count := 0\<rparr>)
          else if perm_count st = 0xffff then do {
            first \<leftarrow> list_get (perm_items st) 0;
            items \<leftarrow> list_set (first # map of_nat [1..<length (perm_items st)]) (unat first) 0;
            Some (st\<lparr>perm_items := items, perm_count := 1\<rparr>)
          } else Some st);
       st \<leftarrow> permutation_extend seed bid len position st;
       selected \<leftarrow> list_get (perm_items st) position;
       item \<leftarrow> list_get (bucket_items b) (unat selected);
       Some (item, btree_insert (bucket_id b) st perms)
     }}
   }"

section \<open>Placement\<close>

definition is_out :: "u32 list \<Rightarrow> i32 \<Rightarrow> u32 \<Rightarrow> bool" where
  "is_out weights item seed =
     (if item < 0 then True
      else case list_get weights (nat item) of
             None \<Rightarrow> True
           | Some weight \<Rightarrow>
               if weight \<ge> 0x10000 then False
               else if weight = 0 then True
               else hash32_pair seed (word_of_int item) AND 0xffff \<ge> weight)"

definition valid_take :: "crush_map \<Rightarrow> i32 \<Rightarrow> bool" where
  "valid_take m item =
     (if item \<ge> 0 then item < max_devices m else map_of (buckets m) item \<noteq> None)"

text \<open>
  \<open>choose_indep\<close>.  A break out of the inner loop returns \<open>left\<close>, \<open>output\<close> and \<open>leaves\<close>; a
  continue carries on at the child bucket.
\<close>

type_synonym indep_state = "usize \<times> i32 list \<times> i32 list option"
type_synonym indep_leaf = "bucket \<Rightarrow> usize \<Rightarrow> usize \<Rightarrow> i32 list \<Rightarrow> usize \<Rightarrow> u32 \<Rightarrow> usize \<Rightarrow> i32 list option"

record indep_args =
  ia_replicas :: usize
  ia_target :: i32
  ia_position :: usize
  ia_end :: usize
  ia_recurse_tries :: u32
  ia_recurse_to_leaf :: bool
  ia_parent_r :: usize

definition indep_leaf_step :: "indep_leaf \<Rightarrow> indep_args \<Rightarrow> usize \<Rightarrow> usize \<Rightarrow> bucket option \<Rightarrow> i32 \<Rightarrow>
    i32 list option \<Rightarrow> (i32 list option \<times> bool) option" where
  "indep_leaf_step leaf a position r child item leaves =
     (case leaves of
        Some values \<Rightarrow>
          if ia_recurse_to_leaf a then
            if item < 0 then do {
              values \<leftarrow> leaf (the child) 1 (ia_replicas a) values position (ia_recurse_tries a) r;
              v \<leftarrow> list_get values position;
              Some (Some values, v \<noteq> ITEM_NONE)
            } else do {
              values \<leftarrow> list_set values position item;
              Some (Some values, True)
            }
          else Some (Some values, True)
      | None \<Rightarrow> Some (None, True))"

definition indep_body :: "crush_map \<Rightarrow> u32 list \<Rightarrow> u32 \<Rightarrow> indep_leaf \<Rightarrow> indep_args \<Rightarrow> usize \<Rightarrow> usize \<Rightarrow>
    indep_state \<Rightarrow> bucket \<Rightarrow> (bucket + indep_state) option" where
  "indep_body m weights seed leaf a failure position = (\<lambda>(left, output, leaves) current.
     let r = position + ia_parent_r a + ia_replicas a * failure in
     if bucket_items current = [] then Some (Inr (left, output, leaves))
     else do {
       item \<leftarrow> straw2_choose current seed r;
       if item \<ge> max_devices m \<or> (item < 0 \<and> map_of (buckets m) item = None) then do {
         left \<leftarrow> checked_sub left 1;
         Some (Inr (left, output, leaves))
       } else do {
         let child = map_of (buckets m) item;
         let item_type = (if item < 0 then int (unat (bucket_type (the child))) else 0);
         if item_type \<noteq> ia_target a then
           if item \<ge> 0 then do {
             left \<leftarrow> checked_sub left 1;
             Some (Inr (left, output, leaves))
           } else Some (Inl (the child))
         else do {
           window \<leftarrow> list_slice output (ia_position a) (ia_end a);
           if item \<in> set window then Some (Inr (left, output, leaves))
           else do {
             (leaves, found) \<leftarrow> indep_leaf_step leaf a position r child item leaves;
             if \<not> found \<or> (item_type = 0 \<and> is_out weights item seed)
             then Some (Inr (left, output, leaves))
             else do {
               output \<leftarrow> list_set output position item;
               left \<leftarrow> checked_sub left 1;
               Some (Inr (left, output, leaves))
             }
           }
         }
       }
     })"

definition indep_position :: "crush_map \<Rightarrow> u32 list \<Rightarrow> u32 \<Rightarrow> indep_leaf \<Rightarrow> indep_args \<Rightarrow> bucket \<Rightarrow>
    usize \<Rightarrow> usize \<Rightarrow> indep_state \<Rightarrow> indep_state option" where
  "indep_position m weights seed leaf a bucket failure position = (\<lambda>(left, output, leaves). do {
     v \<leftarrow> list_get output position;
     if v \<noteq> ITEM_NONE then Some (left, output, leaves)
     else run (indep_body m weights seed leaf a failure position (left, output, leaves)) bucket
   })"

function indep_rounds :: "crush_map \<Rightarrow> u32 list \<Rightarrow> u32 \<Rightarrow> indep_leaf \<Rightarrow> indep_args \<Rightarrow> bucket \<Rightarrow>
    usize \<Rightarrow> usize \<Rightarrow> indep_state \<Rightarrow> indep_state option" where
  "indep_rounds m weights seed leaf a bucket tries failure st =
     (if fst st > 0 \<and> failure < tries then do {
        st \<leftarrow> fold_opt (indep_position m weights seed leaf a bucket failure)
               [ia_position a..<ia_end a] st;
        indep_rounds m weights seed leaf a bucket tries (failure + 1) st
      } else Some st)"
  by pat_completeness auto
termination
  by (relation "measure (\<lambda>(m, weights, seed, leaf, a, bucket, tries, failure, st). tries - failure)") auto

declare indep_rounds.simps [simp del] permutation_extend.simps [simp del]

definition indep_clear :: "usize \<Rightarrow> i32 list \<times> i32 list option \<Rightarrow> (i32 list \<times> i32 list option) option" where
  "indep_clear position = (\<lambda>(output, leaves). do {
     output \<leftarrow> list_set output position ITEM_NONE;
     leaves \<leftarrow> (case leaves of None \<Rightarrow> Some None
               | Some values \<Rightarrow> map_option Some (list_set values position ITEM_NONE));
     Some (output, leaves)
   })"

definition choose_indep_with :: "crush_map \<Rightarrow> u32 list \<Rightarrow> indep_leaf \<Rightarrow> bucket \<Rightarrow> u32 \<Rightarrow> usize \<Rightarrow> usize \<Rightarrow>
    i32 \<Rightarrow> i32 list \<Rightarrow> usize \<Rightarrow> u32 \<Rightarrow> u32 \<Rightarrow> bool \<Rightarrow> i32 list option \<Rightarrow> usize \<Rightarrow>
    (i32 list \<times> i32 list option) option" where
  "choose_indep_with m weights leaf bucket seed left replicas target output position tries recurse_tries
       recurse_to_leaf leaves parent_r = do {
     (output, leaves) \<leftarrow> fold_opt indep_clear [position..<position + left] (output, leaves);
     (_, output, leaves) \<leftarrow>
       indep_rounds m weights seed leaf
         \<lparr>ia_replicas = replicas, ia_target = target, ia_position = position, ia_end = position + left,
          ia_recurse_tries = recurse_tries, ia_recurse_to_leaf = recurse_to_leaf,
          ia_parent_r = parent_r\<rparr>
         bucket (unat tries) 0 (left, output, leaves);
     Some (output, leaves)
   }"

definition choose_indep_leaf :: "crush_map \<Rightarrow> u32 list \<Rightarrow> u32 \<Rightarrow> indep_leaf" where
  "choose_indep_leaf m weights seed child left replicas values position tries r = do {
     (values, _) \<leftarrow> choose_indep_with m weights (\<lambda>_ _ _ _ _ _ _. None) child seed left replicas 0 values
                     position tries 0 False None r;
     Some values
   }"

definition choose_indep :: "crush_map \<Rightarrow> u32 list \<Rightarrow> bucket \<Rightarrow> u32 \<Rightarrow> usize \<Rightarrow> usize \<Rightarrow>
    i32 \<Rightarrow> i32 list \<Rightarrow> usize \<Rightarrow> u32 \<Rightarrow> u32 \<Rightarrow> bool \<Rightarrow> i32 list option \<Rightarrow> usize \<Rightarrow>
    (i32 list \<times> i32 list option) option" where
  "choose_indep m weights bucket seed =
     choose_indep_with m weights (choose_indep_leaf m weights seed) bucket seed"

text \<open>
  \<open>choose_first_n\<close>.  One iteration of the two nested retry loops is \<open>first_n_body\<close>: it starts
  again at a bucket with new failure counters, or ends with the chosen item or None for a skipped
  replica.  The cached permutations and the leaves are the state it changes.
\<close>

type_synonym first_n_leaf = "bucket \<Rightarrow> usize \<Rightarrow> i32 list \<Rightarrow> usize \<Rightarrow> usize \<Rightarrow> permutations \<Rightarrow> usize \<Rightarrow>
    (usize \<times> i32 list \<times> permutations) option"
type_synonym first_n_state = "bucket \<times> u32 \<times> u32 \<times> permutations \<times> i32 list option"

record first_n_args =
  fa_target :: i32
  fa_tries :: u32
  fa_local_retries :: u32
  fa_local_fallback_retries :: u32
  fa_recurse_to_leaf :: bool
  fa_vary_r :: u32
  fa_stable :: bool
  fa_parent_r :: usize

text \<open>
  The descent into a leaf and the test for an out device, on a chosen item of the target type:
  whether it is rejected, and the changed leaves and permutations.
\<close>

definition first_n_leaf_step :: "u32 list \<Rightarrow> u32 \<Rightarrow> first_n_leaf \<Rightarrow> first_n_args \<Rightarrow> usize \<Rightarrow> usize \<Rightarrow>
    usize \<Rightarrow> bucket option \<Rightarrow> i32 \<Rightarrow> permutations \<times> i32 list option \<Rightarrow>
    (bool \<times> permutations \<times> i32 list option) option" where
  "first_n_leaf_step weights seed leaf a r position count child item = (\<lambda>(perms, leaves).
     if \<not> fa_recurse_to_leaf a then Some (False, perms, leaves)
     else case leaves of
       None \<Rightarrow> Some (False, perms, None)
     | Some values \<Rightarrow>
         if item < 0 then do {
           let sub_r = (if fa_vary_r a \<noteq> 0 then drop_bit (unat (fa_vary_r a) - 1) r else 0);
           let recursive_replicas = (if fa_stable a then 1 else position + 1);
           (chosen, values, perms) \<leftarrow> leaf (the child) recursive_replicas values position count perms sub_r;
           Some (chosen \<le> position, perms, Some values)
         } else do {
           values \<leftarrow> list_set values position item;
           Some (False, perms, Some values)
         })"

definition first_n_body :: "crush_map \<Rightarrow> u32 list \<Rightarrow> u32 \<Rightarrow> first_n_leaf \<Rightarrow> first_n_args \<Rightarrow> bucket \<Rightarrow>
    i32 list \<Rightarrow> usize \<Rightarrow> usize \<Rightarrow> usize \<Rightarrow> first_n_state \<Rightarrow>
    (first_n_state + (i32 option \<times> permutations \<times> i32 list option)) option" where
  "first_n_body m weights seed leaf a bucket output position count replica =
     (\<lambda>(current, total, local, perms, leaves). do {
     let r = replica + fa_parent_r a + unat total;
     let empty = (bucket_items current = []);
     let len = length (bucket_items current);
     (item, perms) \<leftarrow>
       (if empty then Some (ITEM_NONE, perms)
        else if fa_local_fallback_retries a > 0 \<and> unat local \<ge> len div 2 \<and>
                local > fa_local_fallback_retries a
        then permutation_choose current seed r perms
        else map_option (\<lambda>item. (item, perms)) (straw2_choose current seed r));
     if \<not> empty \<and> (item \<ge> max_devices m \<or> (item < 0 \<and> map_of (buckets m) item = None))
     then Some (Inr (None, perms, leaves))
     else do {
       let child = map_of (buckets m) item;
       let item_type = (if \<not> empty \<and> item < 0 then int (unat (bucket_type (the child))) else 0);
       if \<not> empty \<and> item_type \<noteq> fa_target a then
         if item \<ge> 0 then Some (Inr (None, perms, leaves))
         else Some (Inl (the child, total, local, perms, leaves))
       else do {
         taken \<leftarrow> list_slice output 0 position;
         let collide = (\<not> empty \<and> item \<in> set taken);
         (reject, perms, leaves) \<leftarrow>
           (if \<not> empty \<and> \<not> collide
            then first_n_leaf_step weights seed leaf a r position count child item (perms, leaves)
            else Some (empty, perms, leaves));
         let reject = (if \<not> reject \<and> \<not> collide \<and> item_type = 0 then is_out weights item seed
                       else reject);
         if reject \<or> collide then
           let total = total + 1; local = local + 1 in
           if (collide \<and> local \<le> fa_local_retries a) \<or>
              (fa_local_fallback_retries a > 0 \<and>
               unat local \<le> len + unat (fa_local_fallback_retries a))
           then Some (Inl (current, total, local, perms, leaves))
           else if total < fa_tries a then Some (Inl (bucket, total, 0, perms, leaves))
           else Some (Inr (None, perms, leaves))
         else Some (Inr (Some item, perms, leaves))
       }
     }
   })"

text \<open>One replica: the state is \<open>output\<close>, \<open>output_position\<close>, \<open>count\<close> and the two above.\<close>

definition first_n_replica :: "crush_map \<Rightarrow> u32 list \<Rightarrow> u32 \<Rightarrow> first_n_leaf \<Rightarrow> first_n_args \<Rightarrow> bucket \<Rightarrow>
    usize \<Rightarrow> i32 list \<times> usize \<times> usize \<times> permutations \<times> i32 list option \<Rightarrow>
    (i32 list \<times> usize \<times> usize \<times> permutations \<times> i32 list option) option" where
  "first_n_replica m weights seed leaf a bucket replica = (\<lambda>(output, position, count, perms, leaves).
     if count = 0 then Some (output, position, count, perms, leaves)
     else do {
       (chosen, perms, leaves) \<leftarrow>
         run (first_n_body m weights seed leaf a bucket output position count replica)
           (bucket, 0, 0, perms, leaves);
       case chosen of
         None \<Rightarrow> Some (output, position, count, perms, leaves)
       | Some item \<Rightarrow> do {
           output \<leftarrow> list_set output position item;
           Some (output, position + 1, count - 1, perms, leaves)
         }
     })"

definition choose_first_n_with :: "crush_map \<Rightarrow> u32 list \<Rightarrow> first_n_leaf \<Rightarrow> bucket \<Rightarrow> u32 \<Rightarrow> usize \<Rightarrow>
    first_n_args \<Rightarrow> i32 list \<Rightarrow> usize \<Rightarrow> usize \<Rightarrow> permutations \<Rightarrow> i32 list option \<Rightarrow>
    (usize \<times> i32 list \<times> permutations \<times> i32 list option) option" where
  "choose_first_n_with m weights leaf bucket seed replicas a output position output_size perms leaves = do {
     (output, position, _, perms, leaves) \<leftarrow>
       fold_opt (first_n_replica m weights seed leaf a bucket)
         [(if fa_stable a then 0 else position)..<replicas] (output, position, output_size, perms, leaves);
     Some (position, output, perms, leaves)
   }"

definition choose_first_n_leaf :: "crush_map \<Rightarrow> u32 list \<Rightarrow> u32 \<Rightarrow> u32 \<Rightarrow> first_n_args \<Rightarrow> first_n_leaf" where
  "choose_first_n_leaf m weights seed recurse_tries a child replicas values position count perms sub_r = do {
     (chosen, values, perms, _) \<leftarrow>
       choose_first_n_with m weights (\<lambda>_ _ _ _ _ _ _. None) child seed replicas
         (a\<lparr>fa_target := 0, fa_tries := recurse_tries, fa_recurse_to_leaf := False, fa_parent_r := sub_r\<rparr>)
         values position count perms None;
     Some (chosen, values, perms)
   }"

definition choose_first_n :: "crush_map \<Rightarrow> u32 list \<Rightarrow> bucket \<Rightarrow> u32 \<Rightarrow> usize \<Rightarrow> u32 \<Rightarrow> first_n_args \<Rightarrow>
    i32 list \<Rightarrow> usize \<Rightarrow> usize \<Rightarrow> permutations \<Rightarrow> i32 list option \<Rightarrow>
    (usize \<times> i32 list \<times> permutations \<times> i32 list option) option" where
  "choose_first_n m weights bucket seed replicas recurse_tries a =
     choose_first_n_with m weights (choose_first_n_leaf m weights seed recurse_tries a) bucket seed
       replicas a"

section \<open>Rules\<close>

record rule_state =
  rs_working :: "i32 list"
  rs_output :: "i32 list"
  rs_leaves :: "i32 list"
  rs_working_size :: usize
  rs_result :: "i32 list"
  rs_choose_tries :: u32
  rs_chooseleaf_tries :: u32
  rs_recurse_tries :: u32
  rs_permutations :: permutations

text \<open>One working item of a choose step; the counter is \<open>output_size\<close>.\<close>

definition choose_item :: "crush_map \<Rightarrow> u32 list \<Rightarrow> u32 \<Rightarrow> usize \<Rightarrow> rule_step \<Rightarrow> i32 \<Rightarrow>
    usize \<times> rule_state \<Rightarrow> (usize \<times> rule_state) option" where
  "choose_item m weights seed maximum st item = (\<lambda>(output_size, s).
     let number = (if argument1 st \<le> 0 then argument1 st + int maximum else argument1 st) in
     if number \<le> 0 then Some (output_size, s)
     else case map_of (buckets m) item of
       None \<Rightarrow> Some (output_size, s)
     | Some bucket \<Rightarrow>
         if operation st = RULE_CHOOSE_INDEP then do {
           let count = min (nat number) (maximum - output_size);
           let recurse = (if rs_chooseleaf_tries s = 0 then 1 else rs_chooseleaf_tries s);
           (output, leaves) \<leftarrow>
             choose_indep m weights bucket seed count (nat number) (argument2 st) (rs_output s) output_size
               (rs_choose_tries s) recurse False (Some (rs_leaves s)) 0;
           leaves \<leftarrow> leaves;
           Some (output_size + count, s\<lparr>rs_output := output, rs_leaves := leaves\<rparr>)
         } else do {
           (chosen, output, perms, leaves) \<leftarrow>
             choose_first_n m weights bucket seed (nat number) (rs_recurse_tries s)
               \<lparr>fa_target = argument2 st, fa_tries = rs_choose_tries s,
                fa_local_retries = choose_local_tries m,
                fa_local_fallback_retries = choose_local_fallback_tries m,
                fa_recurse_to_leaf = (operation st = RULE_CHOOSELEAF_FIRST_N),
                fa_vary_r = ucast (chooseleaf_vary_r m), fa_stable = (chooseleaf_stable m \<noteq> 0),
                fa_parent_r = 0\<rparr>
               (rs_output s) output_size (maximum - output_size) (rs_permutations s) (Some (rs_leaves s));
           leaves \<leftarrow> leaves;
           Some (output_size + chosen,
                 s\<lparr>rs_output := output, rs_leaves := leaves, rs_permutations := perms\<rparr>)
         })"

definition place_step :: "crush_map \<Rightarrow> u32 list \<Rightarrow> u32 \<Rightarrow> usize \<Rightarrow> rule_step \<Rightarrow> rule_state \<Rightarrow>
    (placement_error + rule_state) option" where
  "place_step m weights seed maximum st s =
     (if operation st = RULE_SET_CHOOSE_TRIES then
        Some (Inr (if argument1 st > 0 then s\<lparr>rs_choose_tries := word_of_int (argument1 st)\<rparr> else s))
      else if operation st = RULE_SET_CHOOSELEAF_TRIES then
        Some (Inr (if argument1 st > 0 then s\<lparr>rs_chooseleaf_tries := word_of_int (argument1 st)\<rparr> else s))
      else if operation st = RULE_TAKE then
        if \<not> valid_take m (argument1 st) then Some (Inr s)
        else do {
          working \<leftarrow> list_set (rs_working s) 0 (argument1 st);
          Some (Inr (s\<lparr>rs_working := working, rs_working_size := 1\<rparr>))
        }
      else if operation st \<in> {RULE_CHOOSE_FIRST_N, RULE_CHOOSELEAF_FIRST_N, RULE_CHOOSE_INDEP} then
        if rs_working_size s = 0 then Some (Inr s)
        else if \<not> maximum < 2 ^ 31 \<and> argument1 st \<le> 0 then Some (Inl PlacementError)
        else do {
          (output_size, s) \<leftarrow> fold_opt (choose_item m weights seed maximum st)
                              (take (rs_working_size s) (rs_working s)) (0, s);
          output \<leftarrow> (if operation st = RULE_CHOOSELEAF_FIRST_N then do {
                       chosen \<leftarrow> list_slice (rs_leaves s) 0 output_size;
                       rest \<leftarrow> list_slice (rs_output s) output_size (length (rs_output s));
                       Some (chosen @ rest)
                     } else Some (rs_output s));
          Some (Inr (s\<lparr>rs_working := output, rs_output := rs_working s,
                       rs_working_size := output_size\<rparr>))
        }
      else if operation st = RULE_EMIT then do {
        let remaining = min (maximum - length (rs_result s)) (rs_working_size s);
        chosen \<leftarrow> list_slice (rs_working s) 0 remaining;
        Some (Inr (s\<lparr>rs_result := rs_result s @ chosen, rs_working_size := 0\<rparr>))
      }
      else Some (Inl PlacementError))"

fun place_steps :: "crush_map \<Rightarrow> u32 list \<Rightarrow> u32 \<Rightarrow> usize \<Rightarrow> rule_step list \<Rightarrow> rule_state \<Rightarrow>
    (placement_error + rule_state) option" where
  "place_steps m weights seed maximum [] s = Some (Inr s)"
| "place_steps m weights seed maximum (st # sts) s = do {
     r \<leftarrow> place_step m weights seed maximum st s;
     case r of Inl e \<Rightarrow> Some (Inl e) | Inr s \<Rightarrow> place_steps m weights seed maximum sts s
   }"

definition initial_rule_state :: "crush_map \<Rightarrow> usize \<Rightarrow> rule_state" where
  "initial_rule_state m maximum =
     \<lparr>rs_working = replicate maximum ITEM_NONE, rs_output = replicate maximum ITEM_NONE,
      rs_leaves = replicate maximum ITEM_NONE, rs_working_size = 0, rs_result = [],
      rs_choose_tries = choose_total_tries m + 1, rs_chooseleaf_tries = 0,
      rs_recurse_tries = (if chooseleaf_descend_once m \<noteq> 0 then 1 else choose_total_tries m + 1),
      rs_permutations = []\<rparr>"

definition placement_rule :: "crush_map \<Rightarrow> u32 list \<Rightarrow> crush_rule \<Rightarrow> u32 \<Rightarrow> usize \<Rightarrow>
    (placement_error + i32 list) option" where
  "placement_rule m weights rl seed maximum =
     (if choose_total_tries m = U32_MAX then None
      else do {
        r \<leftarrow> place_steps m weights seed maximum (rule_steps rl) (initial_rule_state m maximum);
        Some (case r of Inl e \<Rightarrow> Inl e | Inr s \<Rightarrow> Inr (rs_result s))
      })"

abbreviation plain_step :: "u32 \<Rightarrow> i32 \<Rightarrow> rule_step" where
  "plain_step op arg \<equiv> \<lparr>operation = op, argument1 = arg, argument2 = 0\<rparr>"

definition certified_replicated :: "crush_map \<Rightarrow> rule_step list \<Rightarrow> bool" where
  "certified_replicated m sts \<longleftrightarrow>
     length sts = 3 \<and> operation (sts ! 0) = RULE_TAKE \<and> sts ! 2 = plain_step RULE_EMIT 0 \<and>
     (sts ! 1 = plain_step RULE_CHOOSE_FIRST_N 0 \<or>
      (operation (sts ! 1) = RULE_CHOOSELEAF_FIRST_N \<and> argument1 (sts ! 1) = 0 \<and>
       argument2 (sts ! 1) > 0 \<and> argument2 (sts ! 1) < 2 ^ 16 \<and>
       has_bucket_type m (word_of_int (argument2 (sts ! 1)))))"

definition certified_erasure :: "rule_step list \<Rightarrow> bool" where
  "certified_erasure sts \<longleftrightarrow>
     length sts = 5 \<and> sts ! 0 = plain_step RULE_SET_CHOOSELEAF_TRIES 5 \<and>
     sts ! 1 = plain_step RULE_SET_CHOOSE_TRIES 100 \<and> operation (sts ! 2) = RULE_TAKE \<and>
     sts ! 3 = plain_step RULE_CHOOSE_INDEP 0 \<and> sts ! 4 = plain_step RULE_EMIT 0"

definition validate_certified_rule :: "crush_map \<Rightarrow> crush_rule \<Rightarrow> placement_error + unit" where
  "validate_certified_rule m rl =
     (let replicated = (rule_type rl = RULE_TYPE_REPLICATED) in
      if \<not> (if replicated then certified_replicated m (rule_steps rl)
             else certified_erasure (rule_steps rl))
      then Inl PlacementError
      else
        let root = argument1 (rule_steps rl ! (if replicated then 0 else 2)) in
        if map_of (buckets m) root = None then Inl PlacementError
        else if root \<in> class_shadow_buckets m then Inl PlacementError
        else if choose_local_tries m \<noteq> 0 \<or> choose_local_fallback_tries m \<noteq> 0 \<or>
                choose_total_tries m \<noteq> 50 \<or> chooseleaf_descend_once m \<noteq> 1 \<or>
                chooseleaf_vary_r m \<noteq> 1 \<or>
                \<not> (straw_calc_version m = 0 \<and> allowed_bucket_algorithms m = 22 \<or>
                   straw_calc_version m = 1 \<and> allowed_bucket_algorithms m = 54) \<or>
                chooseleaf_stable m \<noteq> 1 \<or> msr_descents m \<noteq> 100 \<or> msr_collision_tries m \<noteq> 100
        then Inl PlacementError
        else Inr ())"

definition place_validated :: "crush_map \<Rightarrow> u32 \<Rightarrow> u32 \<Rightarrow> usize \<Rightarrow> u32 list \<Rightarrow>
    (placement_error + i32 list) option" where
  "place_validated m rule_id seed replicas osd_weights =
     (if replicas = 0 \<or> replicas > MAX_CERTIFIED_REPLICAS then Some (Inl PlacementError)
      else case map_of (rules m) rule_id of
        None \<Rightarrow> Some (Inl PlacementError)
      | Some rl \<Rightarrow>
          if rule_type rl \<noteq> RULE_TYPE_REPLICATED \<and> rule_type rl \<noteq> RULE_TYPE_ERASURE
          then Some (Inl PlacementError)
          else case validate_certified_rule m rl of
            Inl e \<Rightarrow> Some (Inl e)
          | Inr _ \<Rightarrow> placement_rule m osd_weights rl seed replicas)"

definition map_place :: "crush_map \<Rightarrow> u32 \<Rightarrow> u32 \<Rightarrow> usize \<Rightarrow> u32 list \<Rightarrow>
    (placement_error + i32 list) option" where
  "map_place m rule_id seed replicas osd_weights =
     (case validate_graph m of
        Inl _ \<Rightarrow> Some (Inl PlacementError)
      | Inr _ \<Rightarrow> place_validated m rule_id seed replicas osd_weights)"

definition validated_map_new :: "crush_map \<Rightarrow> placement_error + crush_map" where
  "validated_map_new m = (case validate_graph m of Inl _ \<Rightarrow> Inl PlacementError | Inr _ \<Rightarrow> Inr m)"

section \<open>Selection always succeeds\<close>

lemma u32_of_usize_Some [simp]: "n < 2 ^ 32 \<Longrightarrow> u32_of_usize n = Some (of_nat n)"
  by (simp add: u32_of_usize_def)

lemma straw2_draw_total:
  assumes "index < length (bucket_items b)" and "replica < 2 ^ 32"
  shows "\<exists>draw. straw2_draw b seed replica index weight = Some draw"
proof -
  have "\<exists>ln. crush_ln (x AND 0xffff) = Some ln" for x
    using crush_ln_total [of "x AND 0xffff"] word_and_le1 [of x "0xffff"] by auto
  then obtain ln where
      "crush_ln (hash32_triple seed (word_of_int (bucket_items b ! index)) (of_nat replica) AND 0xffff) = Some ln"
    by blast
  then show ?thesis using assms by (simp add: straw2_draw_def list_get_def)
qed

lemma straw2_loop_total:
  assumes "index + length ws \<le> length (bucket_items b)" and "replica < 2 ^ 32"
    and "high < length (bucket_items b)"
  shows "\<exists>h. straw2_loop b seed replica index ws high hd' = Some h \<and> h < length (bucket_items b)"
  using assms
proof (induction ws arbitrary: index high hd')
  case (Cons w ws)
  obtain draw where "straw2_draw b seed replica index w = Some draw"
    using straw2_draw_total [of index b replica seed w] Cons.prems by auto
  then show ?case using Cons.IH Cons.prems by simp
qed simp

lemma straw2_choose_total:
  assumes "length (item_weights b) = length (bucket_items b)" and "bucket_items b \<noteq> []"
    and "replica < 2 ^ 32"
  shows "\<exists>item \<in> set (bucket_items b). straw2_choose b seed replica = Some item"
proof -
  obtain h where "straw2_loop b seed replica 0 (item_weights b) 0 (- (2 ^ 63)) = Some h"
      "h < length (bucket_items b)"
    using straw2_loop_total [of 0 "item_weights b" b replica 0 seed "- (2 ^ 63)"] assms by auto
  then show ?thesis by (auto simp: straw2_choose_def list_get_def)
qed

text \<open>The maps placement works on, and what is below each of their buckets.\<close>

definition placeable :: "crush_map \<Rightarrow> (i32 \<Rightarrow> nat) \<Rightarrow> bool" where
  "placeable m rk \<longleftrightarrow> map_wf m \<and> ranked m rk"

definition in_map :: "crush_map \<Rightarrow> bucket \<Rightarrow> bool" where
  "in_map m b \<longleftrightarrow> map_of (buckets m) (bucket_id b) = Some b"

lemma lookup_wf: "placeable m rk \<Longrightarrow> map_of (buckets m) i = Some b \<Longrightarrow> bucket_wf i b"
  by (auto simp: placeable_def map_wf_def buckets_wf_def dest!: map_of_SomeD)

lemma in_map_lookup: "placeable m rk \<Longrightarrow> map_of (buckets m) i = Some b \<Longrightarrow> in_map m b"
  using lookup_wf [of m rk i b] by (simp add: in_map_def bucket_wf_def)

lemma straw2_pick:
  assumes "placeable m rk" "in_map m b" "bucket_items b \<noteq> []" "r < 2 ^ 32"
  obtains (device) item where "straw2_choose b seed r = Some item" "0 \<le> item" "item < max_devices m"
  | (child) item c where "straw2_choose b seed r = Some item" "item < 0"
      "map_of (buckets m) item = Some c" "in_map m c" "rk (bucket_id c) < rk (bucket_id b)"
proof -
  have "length (item_weights b) = length (bucket_items b)"
    using lookup_wf [OF assms(1)] assms(2) by (simp add: in_map_def bucket_wf_def)
  then obtain item where item: "item \<in> set (bucket_items b)" "straw2_choose b seed r = Some item"
    using straw2_choose_total assms(3,4) by metis
  then have ok: "item_ok m rk (rk (bucket_id b)) item"
    using assms(1,2) by (auto simp: placeable_def ranked_def in_map_def)
  show thesis
  proof (cases "item \<ge> 0")
    case True
    then show thesis using device item ok by (auto simp: item_ok_def)
  next
    case False
    then obtain c where c: "map_of (buckets m) item = Some c" "rk item < rk (bucket_id b)"
      using ok by (auto simp: item_ok_def)
    then have "bucket_id c = item"
      using lookup_wf [OF assms(1)] by (simp add: bucket_wf_def)
    then show thesis using child [OF item(2) _ c(1)] False c in_map_lookup [OF assms(1) c(1)] by auto
  qed
qed

lemma rank_bound: "placeable m rk \<Longrightarrow> in_map m b \<Longrightarrow> rk (bucket_id b) \<le> 64"
  by (auto simp: placeable_def ranked_def in_map_def MAX_CERTIFIED_DEPTH_def)

text \<open>A device that a placement may use.\<close>

definition usable :: "crush_map \<Rightarrow> u32 list \<Rightarrow> u32 \<Rightarrow> i32 \<Rightarrow> bool" where
  "usable m weights seed item \<longleftrightarrow>
     0 \<le> item \<and> item < max_devices m \<and> \<not> is_out weights item seed"

lemma usable_not_none: "placeable m rk \<Longrightarrow> usable m weights seed item \<Longrightarrow> item \<noteq> ITEM_NONE"
  by (auto simp: usable_def placeable_def map_wf_def ITEM_NONE_def)

section \<open>Independent placement\<close>

definition slots_ok :: "crush_map \<Rightarrow> u32 list \<Rightarrow> u32 \<Rightarrow> i32 list \<Rightarrow> bool" where
  "slots_ok m weights seed xs \<longleftrightarrow>
     (\<forall>x \<in> set xs. x = ITEM_NONE \<or> usable m weights seed x) \<and>
     (\<forall>i < length xs. \<forall>j < length xs. xs ! i = xs ! j \<longrightarrow> i = j \<or> xs ! i = ITEM_NONE)"

definition indep_inv :: "crush_map \<Rightarrow> u32 list \<Rightarrow> u32 \<Rightarrow> usize \<Rightarrow> i32 list option \<Rightarrow> indep_state \<Rightarrow> bool" where
  "indep_inv m weights seed n lv = (\<lambda>(left, output, leaves).
     length output = n \<and> left = count_list output ITEM_NONE \<and> leaves = lv \<and>
     slots_ok m weights seed output)"

lemma slots_ok_fill:
  assumes "slots_ok m weights seed xs" "xs ! i = ITEM_NONE" "i < length xs"
    "usable m weights seed v" "v \<notin> set xs"
  shows "slots_ok m weights seed (xs[i := v])"
proof -
  have "x = ITEM_NONE \<or> usable m weights seed x" if "x \<in> set (xs[i := v])" for x
    using that assms(1,4) set_update_subset_insert [of xs i v] by (auto simp: slots_ok_def)
  moreover have "j = k \<or> xs[i := v] ! j = ITEM_NONE"
    if "j < length xs" "k < length xs" "xs[i := v] ! j = xs[i := v] ! k" for j k
    using that assms(1,3,5) nth_mem [of j xs] nth_mem [of k xs]
    by (auto simp: slots_ok_def nth_list_update split: if_splits)
  ultimately show ?thesis by (auto simp: slots_ok_def)
qed

lemma count_list_fill:
  assumes "xs ! i = a" "i < length xs" "v \<noteq> a"
  shows "count_list xs a = Suc (count_list (xs[i := v]) a)"
  using assms
proof (induction xs arbitrary: i)
  case (Cons x xs)
  then show ?case by (cases i) auto
qed simp

abbreviation device_args :: "indep_args \<Rightarrow> usize \<Rightarrow> bool" where
  "device_args a n \<equiv> ia_target a = 0 \<and> ia_position a = 0 \<and> ia_end a = n \<and> \<not> ia_recurse_to_leaf a"

lemma indep_leaf_step_id [simp]:
  "\<not> ia_recurse_to_leaf a \<Longrightarrow> indep_leaf_step leaf a position r child item leaves = Some (leaves, True)"
  by (cases leaves) (auto simp: indep_leaf_step_def)

lemma indep_body_step:
  assumes P: "placeable m rk" and inv: "indep_inv m weights seed n lv (left, output, leaves)"
    and a: "device_args a n" and pos: "position < n" "output ! position = ITEM_NONE"
    and r: "position + ia_parent_r a + ia_replicas a * failure < 2 ^ 32" and b: "in_map m b"
  shows "\<exists>r. indep_body m weights seed leaf a failure position (left, output, leaves) b = Some r \<and>
    (case r of Inl c \<Rightarrow> in_map m c \<and> rk (bucket_id c) < rk (bucket_id b)
     | Inr st \<Rightarrow> indep_inv m weights seed n lv st)"
proof (cases "bucket_items b = []")
  case True
  then show ?thesis using inv by (simp add: indep_body_def)
next
  case False
  have n: "length output = n" "left = count_list output ITEM_NONE" "slots_ok m weights seed output"
      "leaves = lv"
    using inv by (auto simp: indep_inv_def)
  have slice: "list_slice output (ia_position a) (ia_end a) = Some output"
    using a n by (simp add: list_slice_def)
  show ?thesis
    using P b False r
  proof (cases rule: straw2_pick [where seed = seed])
    case (child item c)
    then show ?thesis
      using False a inv slice P
      by (auto simp: indep_body_def Let_def is_out_def placeable_def map_wf_def)
  next
    case (device item)
    show ?thesis
    proof (cases "item \<in> set output \<or> is_out weights item seed")
      case True
      then show ?thesis using device False a inv slice by (auto simp: indep_body_def Let_def)
    next
      case no: False
      then have u: "usable m weights seed item" using device by (simp add: usable_def)
      have "count_list output ITEM_NONE = Suc (count_list (output[position := item]) ITEM_NONE)"
        using count_list_fill [OF pos(2)] pos(1) n u usable_not_none [OF P] by metis
      then have "indep_inv m weights seed n lv
          (count_list output ITEM_NONE - 1, output[position := item], leaves)"
        using slots_ok_fill [OF n(3) pos(2) _ u] no n pos by (auto simp: indep_inv_def)
      then show ?thesis
        using device False a slice no pos n \<open>_ = Suc _\<close>
        by (auto simp: indep_body_def Let_def checked_sub_def list_set_def)
    qed
  qed
qed

lemma indep_position_step:
  assumes P: "placeable m rk" and inv: "indep_inv m weights seed n lv st" and a: "device_args a n"
    and pos: "position < n" and b: "in_map m bucket"
    and r: "position + ia_parent_r a + ia_replicas a * failure < 2 ^ 32"
  shows "\<exists>st'. indep_position m weights seed leaf a bucket failure position st = Some st' \<and>
    indep_inv m weights seed n lv st'"
proof -
  obtain left outp leaves where st: "st = (left, outp, leaves)" by (cases st)
  have len: "length outp = n" using inv st by (simp add: indep_inv_def)
  show ?thesis
  proof (cases "outp ! position = ITEM_NONE")
    case True
    have "\<exists>st'. run (indep_body m weights seed leaf a failure position (left, outp, leaves)) bucket =
        Some st' \<and> indep_inv m weights seed n lv st'"
      using indep_body_step [OF P inv [unfolded st] a pos True r] b
      by (intro run_total [where I = "in_map m" and f = "\<lambda>b. rk (bucket_id b)"])
    then show ?thesis using True len pos st by (simp add: indep_position_def list_get_def)
  next
    case False
    then show ?thesis using len pos inv st by (simp add: indep_position_def list_get_def)
  qed
qed

lemma indep_rounds_total:
  assumes P: "placeable m rk" and a: "device_args a n" and b: "in_map m bucket"
    and r: "n + ia_parent_r a + ia_replicas a * tries < 2 ^ 32"
    and inv: "indep_inv m weights seed n lv st"
  shows "\<exists>st'. indep_rounds m weights seed leaf a bucket tries failure st = Some st' \<and>
    indep_inv m weights seed n lv st'"
  using inv
proof (induction "tries - failure" arbitrary: failure st rule: less_induct)
  case less
  show ?case
  proof (cases "fst st > 0 \<and> failure < tries")
    case True
    have "x + ia_parent_r a + ia_replicas a * failure < 2 ^ 32" if "x < n" for x
      using r that mult_le_mono2 [of failure tries "ia_replicas a"] True by linarith
    then have "\<exists>st'. fold_opt (indep_position m weights seed leaf a bucket failure) [0..<n] st = Some st' \<and>
        indep_inv m weights seed n lv st'"
      using less.prems by (intro fold_opt_total indep_position_step [OF P _ a _ b]) auto
    then obtain st' where "fold_opt (indep_position m weights seed leaf a bucket failure) [0..<n] st = Some st'"
        "indep_inv m weights seed n lv st'" by blast
    then show ?thesis
      using less.hyps [of "failure + 1" st'] True a by (subst indep_rounds.simps) auto
  next
    case False
    then show ?thesis using less.prems by (cases st) (subst indep_rounds.simps, auto)
  qed
qed

lemma indep_clear_upto:
  "k \<le> length output \<Longrightarrow> length leaves = length output \<Longrightarrow>
   fold_opt indep_clear [0..<k] (output, Some leaves) =
     Some (replicate k ITEM_NONE @ drop k output, Some (replicate k ITEM_NONE @ drop k leaves))"
proof (induction k)
  case (Suc k)
  then have "(replicate k ITEM_NONE @ drop k xs)[k := ITEM_NONE] = replicate (Suc k) ITEM_NONE @ drop (Suc k) xs"
    if "length xs = length output" for xs
    using that by (simp add: list_update_append Cons_nth_drop_Suc [symmetric] replicate_append_same [symmetric])
  then show ?case
    using Suc by (simp add: fold_opt_append indep_clear_def list_set_def)
qed simp

lemma choose_indep_total:
  assumes P: "placeable m rk" and b: "in_map m bucket"
    and len: "length output = n" "length leaves = n"
    and r: "n + n * unat tries < 2 ^ 32"
  shows "\<exists>output' leaves'. choose_indep m weights bucket seed n n 0 output 0 tries rt False (Some leaves) 0 =
      Some (output', Some leaves') \<and> length output' = n \<and> slots_ok m weights seed output'"
proof -
  let ?none = "replicate n ITEM_NONE"
  let ?a = "\<lparr>ia_replicas = n, ia_target = 0, ia_position = 0, ia_end = n, ia_recurse_tries = rt,
      ia_recurse_to_leaf = False, ia_parent_r = 0\<rparr>"
  have clear: "fold_opt indep_clear [0..<n] (output, Some leaves) = Some (?none, Some ?none)"
    using indep_clear_upto [of n "output" leaves] len by simp
  have start: "indep_inv m weights seed n (Some ?none) (n, ?none, Some ?none)"
    by (auto simp: indep_inv_def slots_ok_def count_list_eq_length_filter)
  have "\<exists>st'. indep_rounds m weights seed (choose_indep_leaf m weights seed) ?a bucket (unat tries) 0
      (n, ?none, Some ?none) = Some st' \<and> indep_inv m weights seed n (Some ?none) st'"
    using r by (intro indep_rounds_total [OF P _ b _ start]) simp_all
  then show ?thesis
    using clear by (auto simp: choose_indep_def choose_indep_with_def indep_inv_def)
qed

section \<open>First-n placement\<close>

text \<open>A device choice: target type 0, no descent into leaves, no local retries.\<close>

definition plain_args :: "first_n_args \<Rightarrow> bool" where
  "plain_args a \<longleftrightarrow> fa_local_retries a = 0 \<and> fa_local_fallback_retries a = 0 \<and> fa_tries a \<noteq> 0"

definition try_inv :: "crush_map \<Rightarrow> first_n_args \<Rightarrow> (permutations \<Rightarrow> i32 list option \<Rightarrow> bool) \<Rightarrow> first_n_state \<Rightarrow> bool" where
  "try_inv m a L = (\<lambda>(current, total, local, perms, leaves).
     in_map m current \<and> total < fa_tries a \<and> local = 0 \<and> L perms leaves)"

definition try_measure :: "(i32 \<Rightarrow> nat) \<Rightarrow> first_n_args \<Rightarrow> first_n_state \<Rightarrow> nat" where
  "try_measure rk a = (\<lambda>(current, total, local, perms, leaves).
     (unat (fa_tries a) - unat total) * 65 + rk (bucket_id current))"

lemma try_measure_descend:
  "rk (bucket_id c) < rk (bucket_id b) \<Longrightarrow>
   try_measure rk a (c, tf, local, ps, lv) < try_measure rk a (b, tf, local', ps', lv')"
  by (simp add: try_measure_def)

lemma try_measure_retry:
  assumes "placeable m rk" "in_map m bucket" "tf + 1 < fa_tries a" "tf < fa_tries a"
  shows "try_measure rk a (bucket, tf + 1, l, ps, lv) < try_measure rk a (b, tf, l', ps', lv')"
proof -
  have t: "unat (tf + 1) = unat tf + 1" using unat_Suc_less [OF assms(4)] by simp
  moreover have "unat (tf + 1) < unat (fa_tries a)" using assms(3) by (simp add: word_less_nat_alt)
  moreover have "rk (bucket_id bucket) \<le> 64" using rank_bound [OF assms(1,2)] .
  ultimately show ?thesis by (simp add: try_measure_def t algebra_simps diff_mult_distrib)
qed

text \<open>What an accepted item is, and what the descent into its leaf must keep.\<close>

definition leaf_contract :: "crush_map \<Rightarrow> u32 list \<Rightarrow> u32 \<Rightarrow> first_n_leaf \<Rightarrow> first_n_args \<Rightarrow> usize \<Rightarrow> usize \<Rightarrow>
    usize \<Rightarrow> (permutations \<Rightarrow> i32 list option \<Rightarrow> bool) \<Rightarrow> (i32 list option \<Rightarrow> bool) \<Rightarrow> bool" where
  "leaf_contract m weights seed leaf a R position count L G \<longleftrightarrow>
     (\<forall>r child item perms leaves. r \<le> R \<longrightarrow> L perms leaves \<longrightarrow>
        (0 \<le> item \<and> fa_target a = 0 \<or>
         (\<exists>c. child = Some c \<and> in_map m c \<and> item < 0 \<and> int (unat (bucket_type c)) = fa_target a)) \<longrightarrow>
        (\<exists>rej perms' leaves'. first_n_leaf_step weights seed leaf a r position count child item (perms, leaves) =
            Some (rej, perms', leaves') \<and> L perms' leaves' \<and> (\<not> rej \<longrightarrow> G leaves')))"

definition try_post :: "crush_map \<Rightarrow> u32 list \<Rightarrow> u32 \<Rightarrow> (i32 \<Rightarrow> nat) \<Rightarrow> first_n_args \<Rightarrow> i32 list \<Rightarrow>
    (permutations \<Rightarrow> i32 list option \<Rightarrow> bool) \<Rightarrow> (i32 list option \<Rightarrow> bool) \<Rightarrow> first_n_state \<Rightarrow>
    first_n_state + (i32 option \<times> permutations \<times> i32 list option) \<Rightarrow> bool" where
  "try_post m weights seed rk a taken L G s r =
     (case r of
        Inl s' \<Rightarrow> try_inv m a L s' \<and> try_measure rk a s' < try_measure rk a s
      | Inr (chosen, perms, leaves) \<Rightarrow> L perms leaves \<and>
          (\<forall>item. chosen = Some item \<longrightarrow> item \<notin> set taken \<and> G leaves \<and>
             (fa_target a = 0 \<longrightarrow> usable m weights seed item)))"

text \<open>The end of an iteration that rejected its item or found a collision.\<close>

lemma try_post_fail:
  assumes "placeable m rk" "plain_args a" "in_map m bucket" "try_inv m a L (current, tf, 0, ps, lv)"
    "L ps' lv'"
  shows "tf + 1 < fa_tries a \<Longrightarrow> try_post m weights seed rk a taken L G (current, tf, 0, ps, lv)
      (Inl (bucket, tf + 1, 0, ps', lv'))"
    and "try_post m weights seed rk a taken L G (current, tf, 0, ps, lv) (Inr (None, ps', lv'))"
  using assms try_measure_retry [OF assms(1,3), of tf a]
  by (auto simp: try_post_def try_inv_def)

lemma try_post_accept:
  "L ps lv \<Longrightarrow> G lv \<Longrightarrow> item \<notin> set taken \<Longrightarrow> (fa_target a = 0 \<Longrightarrow> usable m weights seed item) \<Longrightarrow>
   try_post m weights seed rk a taken L G s (Inr (Some item, ps, lv))"
  by (simp add: try_post_def)

lemma first_n_body_step:
  assumes P: "placeable m rk" and a: "plain_args a" and b: "in_map m bucket"
    and pos: "position \<le> length outp"
    and R: "replica + fa_parent_r a + unat (fa_tries a) \<le> R" "R < 2 ^ 32"
    and leaf: "leaf_contract m weights seed leaf a R position count L G"
    and inv: "try_inv m a L (current, tf, l, ps, lv)"
  shows "\<exists>r. first_n_body m weights seed leaf a bucket outp position count replica (current, tf, l, ps, lv) =
      Some r \<and> try_post m weights seed rk a (take position outp) L G (current, tf, l, ps, lv) r"
proof -
  let ?r = "replica + fa_parent_r a + unat tf"
  have l: "l = 0" and cur: "in_map m current" and L: "L ps lv" and tf: "tf < fa_tries a"
    using inv by (auto simp: try_inv_def)
  have r: "?r \<le> R" using R(1) tf by (simp add: word_less_nat_alt)
  have slice: "list_slice outp 0 position = Some (take position outp)"
    using pos by (simp add: list_slice_def)
  note fail = try_post_fail [OF P a b inv [unfolded l], where weights = weights and seed = seed
      and taken = "take position outp" and G = G]
  note body = first_n_body_def Let_def slice l
  show ?thesis
  proof (cases "bucket_items current = []")
    case True
    then show ?thesis using fail [OF L] a by (auto simp: body plain_args_def)
  next
    case False
    have r32: "?r < 2 ^ 32" using r R(2) by simp
    show ?thesis
      using P cur False r32
    proof (cases rule: straw2_pick [where seed = seed])
      case (device item)
      show ?thesis
      proof (cases "fa_target a = 0 \<and> item \<notin> set (take position outp)")
        case True
        then obtain rej ps' lv' where step: "first_n_leaf_step weights seed leaf a ?r position count
            (map_of (buckets m) item) item (ps, lv) = Some (rej, ps', lv')" "L ps' lv'" "\<not> rej \<longrightarrow> G lv'"
          using leaf r L device(2) unfolding leaf_contract_def by blast
        then show ?thesis
          using True device False a fail [OF step(2)]
          by (cases "rej \<or> is_out weights item seed")
            (auto simp: body plain_args_def usable_def intro!: try_post_accept)
      next
        case no: False
        show ?thesis
          using no device False a L fail [OF L]
          by (cases "fa_target a = 0") (auto simp: body plain_args_def)
      qed
    next
      case (child item c)
      show ?thesis
      proof (cases "int (unat (bucket_type c)) = fa_target a")
        case other: False
        have "try_post m weights seed rk a (take position outp) L G (current, tf, l, ps, lv)
            (Inl (c, tf, l, ps, lv))"
          using child inv try_measure_descend [of rk c current]
          by (simp add: try_post_def try_inv_def)
        then show ?thesis using other child False P a
          by (simp add: body plain_args_def placeable_def map_wf_def)
      next
        case ty: True
        show ?thesis
        proof (cases "item \<in> set (take position outp)")
          case True
          then show ?thesis using ty child False P a fail [OF L]
            by (auto simp: body plain_args_def placeable_def map_wf_def)
        next
          case fresh: False
          then obtain rej ps' lv' where step: "first_n_leaf_step weights seed leaf a ?r position count
              (Some c) item (ps, lv) = Some (rej, ps', lv')" "L ps' lv'" "\<not> rej \<longrightarrow> G lv'"
            using leaf r L child ty unfolding leaf_contract_def by blast
          have out: "is_out weights item seed" using child(2) by (simp add: is_out_def)
          show ?thesis
            using fresh step ty child False P a fail [OF step(2)] out
            by (cases "rej \<or> fa_target a = 0")
              (auto simp: body plain_args_def placeable_def map_wf_def intro!: try_post_accept)
        qed
      qed
    qed
  qed
qed

definition selected :: "crush_map \<Rightarrow> u32 list \<Rightarrow> u32 \<Rightarrow> i32 list \<Rightarrow> bool" where
  "selected m weights seed xs \<longleftrightarrow> distinct xs \<and> (\<forall>x \<in> set xs. usable m weights seed x)"

lemma selected_Nil [simp]: "selected m weights seed []"
  by (simp add: selected_def)

lemma selected_extend:
  assumes "selected m weights seed (take i xs)" "i < length xs" "usable m weights seed x"
    "x \<notin> set (take i xs)"
  shows "selected m weights seed (take (Suc i) (xs[i := x]))"
  using assms by (auto simp: selected_def take_Suc_conv_app_nth)

text \<open>The search for one replica returns, whatever its contract with the leaf descent is.\<close>

lemma first_n_search_total:
  assumes "placeable m rk" "plain_args a" "in_map m bucket" "position \<le> length outp"
    "replica + fa_parent_r a + unat (fa_tries a) \<le> R" "R < 2 ^ 32"
    "leaf_contract m weights seed leaf a R position count L G" "L ps lv"
  shows "\<exists>chosen ps' lv'. run (first_n_body m weights seed leaf a bucket outp position count replica)
      (bucket, 0, 0, ps, lv) = Some (chosen, ps', lv') \<and> L ps' lv' \<and>
      (\<forall>item. chosen = Some item \<longrightarrow> item \<notin> set (take position outp) \<and> G lv' \<and>
         (fa_target a = 0 \<longrightarrow> usable m weights seed item))"
proof -
  let ?Q = "\<lambda>(chosen, ps', lv'). L ps' lv' \<and>
      (\<forall>item. chosen = Some item \<longrightarrow> item \<notin> set (take position outp) \<and> G lv' \<and>
         (fa_target a = 0 \<longrightarrow> usable m weights seed item))"
  have "\<exists>res. run (first_n_body m weights seed leaf a bucket outp position count replica)
      (bucket, 0, 0, ps, lv) = Some res \<and> ?Q res"
  proof (rule run_total [where I = "try_inv m a L" and f = "try_measure rk a"])
    fix s assume "try_inv m a L s"
    then show "\<exists>r. first_n_body m weights seed leaf a bucket outp position count replica s = Some r \<and>
        (case r of Inl s' \<Rightarrow> try_inv m a L s' \<and> try_measure rk a s' < try_measure rk a s | Inr x \<Rightarrow> ?Q x)"
      using first_n_body_step [OF assms(1-7)] by (cases s) (auto simp: try_post_def)
  next
    show "try_inv m a L (bucket, 0, 0, ps, lv)"
      using assms(2,3,8) by (auto simp: try_inv_def plain_args_def word_neq_0_conv)
  qed
  then show ?thesis by auto
qed

subsection \<open>Choosing devices\<close>

lemma leaf_contract_device:
  "\<not> fa_recurse_to_leaf a \<Longrightarrow>
   leaf_contract m weights seed leaf a R position count (\<lambda>ps' lv'. ps' = ps \<and> lv' = lv) (\<lambda>_. True)"
  by (auto simp: leaf_contract_def first_n_leaf_step_def)

lemma device_replica:
  assumes "placeable m rk" "plain_args a" "in_map m bucket" "\<not> fa_recurse_to_leaf a" "fa_target a = 0"
    "replica + fa_parent_r a + unat (fa_tries a) < 2 ^ 32" "position + count \<le> length outp"
  shows "\<exists>outp' position' count'.
    first_n_replica m weights seed leaf a bucket replica (outp, position, count, ps, lv) =
      Some (outp', position', count', ps, lv) \<and>
    (outp' = outp \<and> position' = position \<and> count' = count \<or>
     (\<exists>item. usable m weights seed item \<and> item \<notin> set (take position outp) \<and> position < length outp \<and>
        outp' = outp[position := item] \<and> position' = Suc position \<and> count = Suc count'))"
proof (cases "count = 0")
  case False
  obtain chosen where run: "run (first_n_body m weights seed leaf a bucket outp position count replica)
      (bucket, 0, 0, ps, lv) = Some (chosen, ps, lv)"
      "\<forall>item. chosen = Some item \<longrightarrow> item \<notin> set (take position outp) \<and> usable m weights seed item"
    using first_n_search_total [OF assms(1-3) _ order.refl assms(6)
        leaf_contract_device [OF assms(4), where ps = ps and lv = lv], where outp = outp and
          position = position and ps = ps and weights = weights and seed = seed and leaf = leaf and
          count = count] assms(5,7)
    by auto
  then show ?thesis
    using False assms(7) by (cases chosen) (auto simp: first_n_replica_def list_set_def)
qed (simp add: first_n_replica_def)

lemma device_replicas:
  assumes "placeable m rk" "plain_args a" "in_map m bucket" "\<not> fa_recurse_to_leaf a" "fa_target a = 0"
    "\<forall>replica \<in> set rs. replica + fa_parent_r a + unat (fa_tries a) < 2 ^ 32"
    "position + count \<le> length outp" "selected m weights seed (take position outp)"
  shows "\<exists>outp' position' count'.
    fold_opt (first_n_replica m weights seed leaf a bucket) rs (outp, position, count, ps, lv) =
      Some (outp', position', count', ps, lv) \<and> length outp' = length outp \<and> position \<le> position' \<and>
    position' \<le> position + length rs \<and> position' + count' = position + count \<and>
    take position outp' = take position outp \<and> selected m weights seed (take position' outp')"
  using assms(6-8)
proof (induction rs arbitrary: outp position count)
  case (Cons replica rs)
  obtain outp1 p1 c1 where step:
    "first_n_replica m weights seed leaf a bucket replica (outp, position, count, ps, lv) =
       Some (outp1, p1, c1, ps, lv)"
    "outp1 = outp \<and> p1 = position \<and> c1 = count \<or>
     (\<exists>item. usable m weights seed item \<and> item \<notin> set (take position outp) \<and> position < length outp \<and>
        outp1 = outp[position := item] \<and> p1 = Suc position \<and> count = Suc c1)"
    using device_replica [OF assms(1-5), of replica position count outp weights seed leaf ps lv] Cons.prems
    by auto
  have len: "length outp1 = length outp" "p1 + c1 = position + count" "position \<le> p1" "p1 \<le> Suc position"
      "take position outp1 = take position outp"
    using step(2) by auto
  have "selected m weights seed (take p1 outp1)"
    using step(2) Cons.prems selected_extend by blast
  then obtain outp' position' count' where
    "fold_opt (first_n_replica m weights seed leaf a bucket) rs (outp1, p1, c1, ps, lv) =
       Some (outp', position', count', ps, lv)" "length outp' = length outp" "p1 \<le> position'"
    "position' \<le> p1 + length rs" "position' + count' = position + count" "take p1 outp' = take p1 outp1"
    "selected m weights seed (take position' outp')"
    using Cons.IH [of p1 c1 outp1] Cons.prems len by auto
  moreover have "take position outp' = take position outp"
    using \<open>take p1 outp' = take p1 outp1\<close> len(3,5) by (metis min.absorb1 take_take)
  ultimately show ?case using step(1) len by auto
qed simp

subsection \<open>Choosing leaves under buckets\<close>

definition leaf_args :: "first_n_args \<Rightarrow> bool" where
  "leaf_args a \<longleftrightarrow> plain_args a \<and> fa_recurse_to_leaf a \<and> fa_target a > 0 \<and> fa_vary_r a = 1 \<and> fa_stable a"

abbreviation leaves_inv :: "usize \<Rightarrow> permutations \<Rightarrow> i32 list \<Rightarrow> permutations \<Rightarrow> i32 list option \<Rightarrow> bool" where
  "leaves_inv n ps base ps' lv \<equiv>
     ps' = ps \<and> (\<exists>v. lv = Some v \<and> length v = n \<and> take (length base) v = base)"

abbreviation leaf_found :: "crush_map \<Rightarrow> u32 list \<Rightarrow> u32 \<Rightarrow> usize \<Rightarrow> i32 list option \<Rightarrow> bool" where
  "leaf_found m weights seed i lv \<equiv> \<exists>v. lv = Some v \<and> selected m weights seed (take (Suc i) v)"

lemma leaf_contract_bucket:
  assumes P: "placeable m rk" and a: "leaf_args a" and R: "R + 1 < 2 ^ 32"
    and base: "selected m weights seed base" and count: "length base + count \<le> n" "0 < count"
  shows "leaf_contract m weights seed (choose_first_n_leaf m weights seed 1 a) a R (length base) count
    (leaves_inv n ps base) (leaf_found m weights seed (length base))"
  unfolding leaf_contract_def
proof (intro allI impI)
  fix r child perms leaves and item :: i32
  assume r: "r \<le> R" and inv: "leaves_inv n ps base perms leaves"
    and item: "0 \<le> item \<and> fa_target a = 0 \<or>
      (\<exists>c. child = Some c \<and> in_map m c \<and> item < 0 \<and> int (unat (bucket_type c)) = fa_target a)"
  obtain v where v: "leaves = Some v" "length v = n" "take (length base) v = base" "perms = ps"
    using inv by blast
  obtain c where c: "child = Some c" "in_map m c" "item < 0"
    using item a by (auto simp: leaf_args_def)
  let ?a = "a\<lparr>fa_target := 0, fa_tries := 1, fa_recurse_to_leaf := False, fa_parent_r := r\<rparr>"
  obtain v' p' c' where dev: "fold_opt (first_n_replica m weights seed (\<lambda>_ _ _ _ _ _ _. None) ?a c) [0]
      (v, length base, count, ps, None) = Some (v', p', c', ps, None)" "length v' = n" "length base \<le> p'"
      "p' \<le> Suc (length base)" "take (length base) v' = base" "selected m weights seed (take p' v')"
    using device_replicas [OF P _ c(2), of ?a "[0]" "length base" count v weights seed
        "\<lambda>_ _ _ _ _ _ _. None" ps None] a v base count r R
    by (auto simp: leaf_args_def plain_args_def)
  have "first_n_replica m weights seed (\<lambda>_ _ _ _ _ _ _. None) ?a c 0
      (v, length base, count, ps, None) = Some (v', p', c', ps, None)"
    using dev(1) by (auto simp: Option.bind_eq_Some_conv)
  then have "first_n_leaf_step weights seed (choose_first_n_leaf m weights seed 1 a) a r (length base) count child
      item (perms, leaves) = Some (p' \<le> length base, ps, Some v')"
    using a v c
    by (simp add: first_n_leaf_step_def choose_first_n_leaf_def choose_first_n_with_def leaf_args_def)
  moreover have "selected m weights seed (take (Suc (length base)) v')" if "\<not> p' \<le> length base"
    using that dev(4,6) by (metis le_antisym not_less_eq_eq)
  ultimately show "\<exists>rej perms' leaves'. first_n_leaf_step weights seed (choose_first_n_leaf m weights seed 1 a)
      a r (length base) count child item (perms, leaves) = Some (rej, perms', leaves') \<and>
      leaves_inv n ps base perms' leaves' \<and> (\<not> rej \<longrightarrow> leaf_found m weights seed (length base) leaves')"
    using dev(2,5) by blast
qed

lemma leaf_replica:
  assumes P: "placeable m rk" and a: "leaf_args a" and b: "in_map m bucket"
    and R: "replica + fa_parent_r a + unat (fa_tries a) + 1 < 2 ^ 32"
    and len: "position + count \<le> n" "length outp = n" "length v = n"
    and sel: "selected m weights seed (take position v)"
  shows "\<exists>outp' position' count' v'.
    first_n_replica m weights seed (choose_first_n_leaf m weights seed 1 a) a bucket replica
      (outp, position, count, ps, Some v) = Some (outp', position', count', ps, Some v') \<and>
    length outp' = n \<and> length v' = n \<and> position' + count' = position + count \<and>
    selected m weights seed (take position' v')"
proof (cases "count = 0")
  case False
  let ?base = "take position v"
  have base: "length ?base = position" using len by simp
  have plain: "plain_args a" using a by (simp add: leaf_args_def)
  obtain chosen v' where run:
      "run (first_n_body m weights seed (choose_first_n_leaf m weights seed 1 a) a bucket outp position count replica)
        (bucket, 0, 0, ps, Some v) = Some (chosen, ps, Some v')" "length v' = n" "take position v' = ?base"
      "\<forall>item. chosen = Some item \<longrightarrow> selected m weights seed (take (Suc position) v')"
    using first_n_search_total [OF P plain b _ order.refl _
        leaf_contract_bucket [OF P a R sel, where count = count and n = n and ps = ps], unfolded base,
        where outp = outp and lv = "Some v" and ps = ps]
      False len base R by auto
  then show ?thesis
    using False len sel
    by (cases chosen) (auto simp: first_n_replica_def list_set_def)
qed (use len sel in \<open>simp add: first_n_replica_def\<close>)

lemma leaf_replicas:
  assumes "placeable m rk" "leaf_args a" "in_map m bucket"
    "\<forall>replica \<in> set rs. replica + fa_parent_r a + unat (fa_tries a) + 1 < 2 ^ 32"
    "position + count \<le> n" "length outp = n" "length v = n" "selected m weights seed (take position v)"
  shows "\<exists>outp' position' count' v'.
    fold_opt (first_n_replica m weights seed (choose_first_n_leaf m weights seed 1 a) a bucket) rs
      (outp, position, count, ps, Some v) = Some (outp', position', count', ps, Some v') \<and>
    length outp' = n \<and> length v' = n \<and> position' + count' = position + count \<and>
    selected m weights seed (take position' v')"
  using assms(4-8)
proof (induction rs arbitrary: outp position count v)
  case (Cons replica rs)
  obtain outp1 p1 c1 v1 where
    "first_n_replica m weights seed (choose_first_n_leaf m weights seed 1 a) a bucket replica
      (outp, position, count, ps, Some v) = Some (outp1, p1, c1, ps, Some v1)"
    "length outp1 = n" "length v1 = n" "p1 + c1 = position + count" "selected m weights seed (take p1 v1)"
    using leaf_replica [OF assms(1-3), of replica position count n outp v weights seed ps] Cons.prems by auto
  then show ?case using Cons.IH [of p1 c1 outp1 v1] Cons.prems by auto
qed simp

section \<open>Certified rules\<close>

lemmas rule_ops = RULE_TAKE_def RULE_CHOOSE_FIRST_N_def RULE_CHOOSE_INDEP_def RULE_EMIT_def
  RULE_CHOOSELEAF_FIRST_N_def RULE_SET_CHOOSE_TRIES_def RULE_SET_CHOOSELEAF_TRIES_def
  RULE_TYPE_REPLICATED_def RULE_TYPE_ERASURE_def

text \<open>The tunables certification fixes.\<close>

definition certified_tunables :: "crush_map \<Rightarrow> bool" where
  "certified_tunables m \<longleftrightarrow> choose_local_tries m = 0 \<and> choose_local_fallback_tries m = 0 \<and>
     choose_total_tries m = 50 \<and> chooseleaf_descend_once m = 1 \<and> chooseleaf_vary_r m = 1 \<and>
     chooseleaf_stable m = 1"

lemma choose_device_item:
  assumes P: "placeable m rk" and T: "certified_tunables m" and b: "map_of (buckets m) root = Some bucket"
    and n: "0 < n" "n \<le> 64" and s: "length (rs_output s) = n" "length (rs_leaves s) = n"
      "rs_choose_tries s = 51" "rs_recurse_tries s = 1"
  shows "\<exists>k s'. choose_item m weights seed n (plain_step RULE_CHOOSE_FIRST_N 0) root (0, s) = Some (k, s') \<and>
    k \<le> n \<and> length (rs_output s') = n \<and> selected m weights seed (take k (rs_output s')) \<and>
    rs_result s' = rs_result s"
proof -
  let ?a = "\<lparr>fa_target = 0, fa_tries = 51, fa_local_retries = 0, fa_local_fallback_retries = 0,
      fa_recurse_to_leaf = False, fa_vary_r = 1, fa_stable = True, fa_parent_r = 0\<rparr>"
  obtain outp' p' c' where
    "fold_opt (first_n_replica m weights seed (choose_first_n_leaf m weights seed 1 ?a) ?a bucket) [0..<n]
       (rs_output s, 0, n, rs_permutations s, Some (rs_leaves s)) =
     Some (outp', p', c', rs_permutations s, Some (rs_leaves s))"
    "length outp' = n" "p' + c' = n" "selected m weights seed (take p' outp')"
    using device_replicas [OF P _ in_map_lookup [OF P b], of ?a "[0..<n]" 0 n "rs_output s" weights seed
        "choose_first_n_leaf m weights seed 1 ?a" "rs_permutations s" "Some (rs_leaves s)"] n s
    by (auto simp: plain_args_def)
  then show ?thesis
    using b T s n
    by (auto simp: choose_item_def choose_first_n_def choose_first_n_with_def certified_tunables_def rule_ops)
qed

lemma choose_leaf_item:
  assumes P: "placeable m rk" and T: "certified_tunables m" and b: "map_of (buckets m) root = Some bucket"
    and n: "0 < n" "n \<le> 64" and s: "length (rs_output s) = n" "length (rs_leaves s) = n"
      "rs_choose_tries s = 51" "rs_recurse_tries s = 1"
    and st: "operation st = RULE_CHOOSELEAF_FIRST_N" "argument1 st = 0" "argument2 st > 0"
  shows "\<exists>k s'. choose_item m weights seed n st root (0, s) = Some (k, s') \<and>
    k \<le> n \<and> length (rs_output s') = n \<and> length (rs_leaves s') = n \<and>
    selected m weights seed (take k (rs_leaves s')) \<and> rs_result s' = rs_result s"
proof -
  let ?a = "\<lparr>fa_target = argument2 st, fa_tries = 51, fa_local_retries = 0, fa_local_fallback_retries = 0,
      fa_recurse_to_leaf = True, fa_vary_r = 1, fa_stable = True, fa_parent_r = 0\<rparr>"
  obtain outp' p' c' v' where
    "fold_opt (first_n_replica m weights seed (choose_first_n_leaf m weights seed 1 ?a) ?a bucket) [0..<n]
       (rs_output s, 0, n, rs_permutations s, Some (rs_leaves s)) =
     Some (outp', p', c', rs_permutations s, Some v')"
    "length outp' = n" "length v' = n" "p' + c' = n" "selected m weights seed (take p' v')"
    using leaf_replicas [OF P _ in_map_lookup [OF P b], of ?a "[0..<n]" 0 n n "rs_output s" "rs_leaves s"
        weights seed "rs_permutations s"] n s st
    by (auto simp: leaf_args_def plain_args_def)
  then show ?thesis
    using b T s n st
    by (auto simp: choose_item_def choose_first_n_def choose_first_n_with_def certified_tunables_def rule_ops)
qed

lemma choose_indep_item:
  assumes P: "placeable m rk" and b: "map_of (buckets m) root = Some bucket"
    and n: "0 < n" "n \<le> 64" and s: "length (rs_output s) = n" "length (rs_leaves s) = n"
      "rs_choose_tries s = 100"
  shows "\<exists>s'. choose_item m weights seed n (plain_step RULE_CHOOSE_INDEP 0) root (0, s) = Some (n, s') \<and>
    length (rs_output s') = n \<and> slots_ok m weights seed (rs_output s') \<and> rs_result s' = rs_result s"
proof -
  let ?rt = "if rs_chooseleaf_tries s = 0 then 1 else rs_chooseleaf_tries s"
  obtain outp' leaves' where "choose_indep m weights bucket seed n n 0 (rs_output s) 0 100 ?rt False
      (Some (rs_leaves s)) 0 = Some (outp', Some leaves')" "length outp' = n" "slots_ok m weights seed outp'"
    using choose_indep_total [OF P in_map_lookup [OF P b], of "rs_output s" n "rs_leaves s" 100 weights seed ?rt]
      s n by auto
  then show ?thesis using b s n by (auto simp: choose_item_def Let_def)
qed

lemma place_step_take:
  assumes "placeable m rk" "map_of (buckets m) (argument1 t) = Some bucket" "operation t = RULE_TAKE"
    "rs_working s \<noteq> []"
  shows "place_step m weights seed n t s =
    Some (Inr (s\<lparr>rs_working := (rs_working s)[0 := argument1 t], rs_working_size := 1\<rparr>))"
  using assms lookup_wf [OF assms(1,2)]
  by (auto simp: place_step_def valid_take_def list_set_def bucket_wf_def rule_ops)

lemma place_step_emit:
  assumes "rs_result s = []" "k = rs_working_size s" "k \<le> n" "k \<le> length (rs_working s)"
  shows "place_step m weights seed n (plain_step RULE_EMIT 0) s =
    Some (Inr (s\<lparr>rs_result := take k (rs_working s), rs_working_size := 0\<rparr>))"
  using assms by (simp add: place_step_def list_slice_def rule_ops min_def Let_def)

lemma length_three: "length xs = 3 \<longleftrightarrow> (\<exists>a b c. xs = [a, b, c])"
  by (auto simp: length_Suc_conv numeral_3_eq_3)

lemma length_five: "length xs = 5 \<longleftrightarrow> (\<exists>a b c d e. xs = [a, b, c, d, e])"
  by (auto simp: length_Suc_conv eval_nat_numeral)

lemma place_step_choose:
  assumes "operation c \<in> {RULE_CHOOSE_FIRST_N, RULE_CHOOSELEAF_FIRST_N, RULE_CHOOSE_INDEP}"
    "rs_working_size s = 1" "take 1 (rs_working s) = [root]" "n < 2 ^ 31"
    "choose_item m weights seed n c root (0, s) = Some (k, s')" "k \<le> length (rs_output s')"
    "operation c = RULE_CHOOSELEAF_FIRST_N \<longrightarrow> k \<le> length (rs_leaves s')"
  shows "place_step m weights seed n c s = Some (Inr (s'\<lparr>
    rs_working := (if operation c = RULE_CHOOSELEAF_FIRST_N
                   then take k (rs_leaves s') @ drop k (rs_output s') else rs_output s'),
    rs_output := rs_working s', rs_working_size := k\<rparr>))"
  using assms by (auto simp: place_step_def rule_ops list_slice_def)

lemma replicated_rule_result:
  assumes P: "placeable m rk" and T: "certified_tunables m"
    and cert: "certified_replicated m (rule_steps rl)"
    and root: "map_of (buckets m) (argument1 (rule_steps rl ! 0)) = Some bucket" and n: "0 < n" "n \<le> 64"
  shows "\<exists>result. placement_rule m weights rl seed n = Some (Inr result) \<and>
    length result \<le> n \<and> selected m weights seed result"
proof -
  obtain t c where steps: "rule_steps rl = [t, c, plain_step RULE_EMIT 0]" and t: "operation t = RULE_TAKE"
      and c: "c = plain_step RULE_CHOOSE_FIRST_N 0 \<or>
        (operation c = RULE_CHOOSELEAF_FIRST_N \<and> argument1 c = 0 \<and> argument2 c > 0)"
    using cert unfolding certified_replicated_def length_three by auto
  let ?s0 = "initial_rule_state m n"
  define s1 where "s1 = ?s0\<lparr>rs_working := (rs_working ?s0)[0 := argument1 t], rs_working_size := 1\<rparr>"
  have take: "place_step m weights seed n t ?s0 = Some (Inr s1)"
    unfolding s1_def using root steps t n by (intro place_step_take [OF P]) (auto simp: initial_rule_state_def)
  have s1: "length (rs_output s1) = n" "length (rs_leaves s1) = n" "rs_choose_tries s1 = 51"
      "rs_recurse_tries s1 = 1" "rs_working_size s1 = 1" "take 1 (rs_working s1) = [argument1 t]"
      "rs_result s1 = []"
    using T n by (auto simp: s1_def initial_rule_state_def certified_tunables_def take_Suc hd_conv_nth
        simp flip: length_greater_0_conv)
  have "\<exists>s2. place_step m weights seed n c s1 = Some (Inr s2) \<and> rs_result s2 = [] \<and>
      rs_working_size s2 \<le> n \<and> rs_working_size s2 \<le> length (rs_working s2) \<and>
      selected m weights seed (take (rs_working_size s2) (rs_working s2))"
  proof (cases "operation c = RULE_CHOOSELEAF_FIRST_N")
    case True
    then obtain k s' where "choose_item m weights seed n c (argument1 t) (0, s1) = Some (k, s')" "k \<le> n"
        "length (rs_output s') = n" "length (rs_leaves s') = n"
        "selected m weights seed (take k (rs_leaves s'))" "rs_result s' = []"
      using choose_leaf_item [OF P T _ n s1(1-4), of "argument1 t" bucket c weights seed] c root steps s1(7)
      by (auto simp: rule_ops)
    then show ?thesis
      using place_step_choose [of c s1 "argument1 t" n m weights seed k s'] s1 n True by auto
  next
    case False
    then have c: "c = plain_step RULE_CHOOSE_FIRST_N 0" using c by blast
    then obtain k s' where "choose_item m weights seed n c (argument1 t) (0, s1) = Some (k, s')" "k \<le> n"
        "length (rs_output s') = n" "selected m weights seed (take k (rs_output s'))" "rs_result s' = []"
      using choose_device_item [OF P T _ n s1(1-4), of "argument1 t" bucket weights seed] root steps s1(7)
      by auto
    then show ?thesis
      using place_step_choose [of c s1 "argument1 t" n m weights seed k s'] s1 n c False by auto
  qed
  then obtain s2 where s2: "place_step m weights seed n c s1 = Some (Inr s2)" "rs_result s2 = []"
      "rs_working_size s2 \<le> n" "rs_working_size s2 \<le> length (rs_working s2)"
      "selected m weights seed (take (rs_working_size s2) (rs_working s2))" by blast
  show ?thesis
    using steps take s2 place_step_emit [OF s2(2) refl s2(3,4)] T
    by (auto simp: placement_rule_def certified_tunables_def)
qed

lemma erasure_rule_result:
  assumes P: "placeable m rk" and T: "certified_tunables m" and cert: "certified_erasure (rule_steps rl)"
    and root: "map_of (buckets m) (argument1 (rule_steps rl ! 2)) = Some bucket" and n: "0 < n" "n \<le> 64"
  shows "\<exists>result. placement_rule m weights rl seed n = Some (Inr result) \<and>
    length result = n \<and> slots_ok m weights seed result"
proof -
  obtain t where steps: "rule_steps rl = [plain_step RULE_SET_CHOOSELEAF_TRIES 5,
      plain_step RULE_SET_CHOOSE_TRIES 100, t, plain_step RULE_CHOOSE_INDEP 0, plain_step RULE_EMIT 0]"
      and t: "operation t = RULE_TAKE"
    using cert unfolding certified_erasure_def length_five by auto
  let ?s0 = "(initial_rule_state m n)\<lparr>rs_chooseleaf_tries := 5, rs_choose_tries := 100\<rparr>"
  define s1 where "s1 = ?s0\<lparr>rs_working := (rs_working ?s0)[0 := argument1 t], rs_working_size := 1\<rparr>"
  have set: "place_step m weights seed n (plain_step RULE_SET_CHOOSELEAF_TRIES 5) (initial_rule_state m n) =
        Some (Inr ((initial_rule_state m n)\<lparr>rs_chooseleaf_tries := 5\<rparr>))"
      "place_step m weights seed n (plain_step RULE_SET_CHOOSE_TRIES 100)
        ((initial_rule_state m n)\<lparr>rs_chooseleaf_tries := 5\<rparr>) = Some (Inr ?s0)"
    by (simp_all add: place_step_def rule_ops)
  have take: "place_step m weights seed n t ?s0 = Some (Inr s1)"
    unfolding s1_def using root steps t n by (intro place_step_take [OF P]) (auto simp: initial_rule_state_def)
  have s1: "length (rs_output s1) = n" "length (rs_leaves s1) = n" "rs_choose_tries s1 = 100"
      "rs_working_size s1 = 1" "take 1 (rs_working s1) = [argument1 t]" "rs_result s1 = []"
    using n by (auto simp: s1_def initial_rule_state_def take_Suc hd_conv_nth
        simp flip: length_greater_0_conv)
  obtain s' where s': "choose_item m weights seed n (plain_step RULE_CHOOSE_INDEP 0) (argument1 t) (0, s1) =
      Some (n, s')" "length (rs_output s') = n" "slots_ok m weights seed (rs_output s')" "rs_result s' = []"
    using choose_indep_item [OF P _ n s1(1-3), of "argument1 t" bucket weights seed] root steps s1(6) by auto
  define s2 where "s2 = s'\<lparr>rs_working := rs_output s', rs_output := rs_working s', rs_working_size := n\<rparr>"
  have choose: "place_step m weights seed n (plain_step RULE_CHOOSE_INDEP 0) s1 = Some (Inr s2)"
    using place_step_choose [of "plain_step RULE_CHOOSE_INDEP 0" s1 "argument1 t" n m weights seed n s'] s' s1 n
    by (simp add: s2_def rule_ops)
  have "place_step m weights seed n (plain_step RULE_EMIT 0) s2 =
      Some (Inr (s2\<lparr>rs_result := take n (rs_working s2), rs_working_size := 0\<rparr>))"
    using s' by (intro place_step_emit) (simp_all add: s2_def)
  then show ?thesis
    using steps set take choose s' T by (simp add: placement_rule_def certified_tunables_def s2_def)
qed

text \<open>Which requests placement serves.\<close>

definition certifiable :: "crush_map \<Rightarrow> u32 \<Rightarrow> usize \<Rightarrow> bool" where
  "certifiable m rule_id replicas \<longleftrightarrow>
     validate_graph m = Inr () \<and> 0 < replicas \<and> replicas \<le> MAX_CERTIFIED_REPLICAS \<and>
     (\<exists>rl. map_of (rules m) rule_id = Some rl \<and>
        (rule_type rl = RULE_TYPE_REPLICATED \<or> rule_type rl = RULE_TYPE_ERASURE) \<and>
        validate_certified_rule m rl = Inr ())"

lemma validate_certified_ruleD:
  assumes "validate_certified_rule m rl = Inr ()"
    "rule_type rl = RULE_TYPE_REPLICATED \<or> rule_type rl = RULE_TYPE_ERASURE"
  shows "certified_tunables m"
    and "rule_type rl = RULE_TYPE_REPLICATED \<Longrightarrow> certified_replicated m (rule_steps rl) \<and>
      (\<exists>bucket. map_of (buckets m) (argument1 (rule_steps rl ! 0)) = Some bucket)"
    and "rule_type rl = RULE_TYPE_ERASURE \<Longrightarrow> certified_erasure (rule_steps rl) \<and>
      (\<exists>bucket. map_of (buckets m) (argument1 (rule_steps rl ! 2)) = Some bucket)"
  using assms
  by (auto simp: validate_certified_rule_def certified_tunables_def Let_def rule_ops split: if_splits)

lemma map_place_certifiable:
  assumes "map_wf m" "certifiable m rule_id n"
  shows "\<exists>rl result. map_of (rules m) rule_id = Some rl \<and>
    map_place m rule_id seed n weights = Some (Inr result) \<and>
    (rule_type rl = RULE_TYPE_REPLICATED \<longrightarrow> length result \<le> n \<and> selected m weights seed result) \<and>
    (rule_type rl = RULE_TYPE_ERASURE \<longrightarrow> length result = n \<and> slots_ok m weights seed result)"
proof -
  obtain rl where rl: "map_of (rules m) rule_id = Some rl"
      "rule_type rl = RULE_TYPE_REPLICATED \<or> rule_type rl = RULE_TYPE_ERASURE"
      "validate_certified_rule m rl = Inr ()"
    using assms(2) by (auto simp: certifiable_def)
  obtain rk where P: "placeable m rk"
    using assms validate_graph_sound by (auto simp: certifiable_def placeable_def)
  have n: "0 < n" "n \<le> 64" using assms(2) by (auto simp: certifiable_def MAX_CERTIFIED_REPLICAS_def)
  note D = validate_certified_ruleD [OF rl(3,2)]
  have eq: "map_place m rule_id seed n weights = placement_rule m weights rl seed n"
    using assms(2) rl by (auto simp: map_place_def place_validated_def certifiable_def)
  show ?thesis
  proof (cases "rule_type rl = RULE_TYPE_REPLICATED")
    case True
    then show ?thesis
      using D(2) replicated_rule_result [OF P D(1) _ _ n, of rl _ weights seed] rl(1) eq
      by (fastforce simp: RULE_TYPE_REPLICATED_def RULE_TYPE_ERASURE_def)
  next
    case False
    then show ?thesis
      using D(3) rl(2) erasure_rule_result [OF P D(1) _ _ n, of rl _ weights seed] rl(1) eq by fastforce
  qed
qed

lemma map_place_refused:
  assumes "\<not> certifiable m rule_id n"
  shows "map_place m rule_id seed n weights = Some (Inl PlacementError)"
proof -
  have "e = PlacementError" for e by (cases e)
  then show ?thesis
    using assms
    by (auto simp: map_place_def place_validated_def certifiable_def split: sum.splits option.splits)
qed

section \<open>Properties\<close>

definition placed_map :: crush_map where
  "placed_map = (initial_map 2)\<lparr>
     buckets := [(-1, \<lparr>bucket_id = -1, bucket_type = 1, bucket_weight = 0x20000, bucket_items = [0, 1],
                       item_weights = [0x10000, 0x10000]\<rparr>)],
     rules := [(0, \<lparr>rule_type = 1, min_size = 1, max_size = 10,
                    rule_steps = [plain_step RULE_TAKE (-1), plain_step RULE_CHOOSE_FIRST_N 0,
                                  plain_step RULE_EMIT 0]\<rparr>),
               (1, \<lparr>rule_type = 3, min_size = 1, max_size = 10,
                    rule_steps = [plain_step RULE_SET_CHOOSELEAF_TRIES 5, plain_step RULE_SET_CHOOSE_TRIES 100,
                                  plain_step RULE_TAKE (-1), plain_step RULE_CHOOSE_INDEP 0,
                                  plain_step RULE_EMIT 0]\<rparr>)],
     choose_local_tries := 0, choose_local_fallback_tries := 0, choose_total_tries := 50,
     chooseleaf_descend_once := 1, chooseleaf_vary_r := 1, chooseleaf_stable := 1\<rparr>"

lemma placed_map_wf: "map_wf placed_map"
  by (simp add: map_wf_def placed_map_def initial_map_def buckets_wf_def btree_inv_def bucket_wf_def)

lemma placed_map_certifiable: "certifiable placed_map 0 2" "certifiable placed_map 1 2"
proof -
  have "ranked placed_map (\<lambda>_. 1)"
    by (simp add: ranked_def item_ok_def placed_map_def initial_map_def MAX_CERTIFIED_DEPTH_def)
  note validate_graph_complete [OF this]
  then show "certifiable placed_map 0 2" "certifiable placed_map 1 2"
    by (simp_all add: certifiable_def placed_map_def initial_map_def validate_certified_rule_def
        certified_replicated_def certified_erasure_def MAX_CERTIFIED_REPLICAS_def
        RULE_TYPE_REPLICATED_def RULE_TYPE_ERASURE_def)
qed

text \<open>
  C1: on a well-formed map placement always returns: it neither panics nor loops, it produces a
  placement exactly for the requests certification admits, and it refuses every other one.
\<close>

theorem place_returns:
  assumes "map_wf m"
  shows "if certifiable m rule_id replicas
    then \<exists>result. map_place m rule_id seed replicas weights = Some (Inr result)
    else map_place m rule_id seed replicas weights = Some (Inl PlacementError)"
  using map_place_certifiable [OF assms, of rule_id replicas seed weights]
    map_place_refused [of m rule_id replicas seed weights] by auto

theorem place_returns_witness:
  "\<exists>result. map_place placed_map 0 7 2 [0x10000, 0x10000] = Some (Inr result)"
  using place_returns [OF placed_map_wf, of 0 2 7 "[0x10000, 0x10000]"] placed_map_certifiable(1) by simp

text \<open>
  C2: a replicated placement has at most the requested number of entries, and they are distinct
  devices of the map that are not out under the given weights.
\<close>

theorem replicated_placement_sound:
  assumes "map_wf m" "map_place m rule_id seed replicas weights = Some (Inr result)"
    "map_of (rules m) rule_id = Some rl" "rule_type rl = RULE_TYPE_REPLICATED"
  shows "length result \<le> replicas \<and> distinct result \<and>
    (\<forall>osd \<in> set result. 0 \<le> osd \<and> osd < max_devices m \<and> \<not> is_out weights osd seed)"
proof -
  have "certifiable m rule_id replicas"
    using map_place_refused [of m rule_id replicas seed weights] assms(2) by force
  then show ?thesis
    using map_place_certifiable [OF assms(1), of rule_id replicas seed weights] assms(2-4)
    by (auto simp: selected_def usable_def)
qed

theorem replicated_placement_sound_witness:
  "\<exists>result. map_place placed_map 0 7 2 [0x10000, 0] = Some (Inr result) \<and>
     distinct result \<and> (\<forall>osd \<in> set result. 0 \<le> osd \<and> osd < 2 \<and> \<not> is_out [0x10000, 0] osd 7)"
proof -
  obtain result where "map_place placed_map 0 7 2 [0x10000, 0] = Some (Inr result)"
    using map_place_certifiable [OF placed_map_wf placed_map_certifiable(1)] by blast
  then show ?thesis
    using replicated_placement_sound [OF placed_map_wf, of 0 7 2 "[0x10000, 0]" result]
    by (auto simp: placed_map_def initial_map_def RULE_TYPE_REPLICATED_def)
qed

text \<open>
  C3: an erasure-coded placement has exactly one slot per shard, each slot is empty or a device of
  the map that is not out, and no device fills two slots.
\<close>

theorem erasure_placement_sound:
  assumes "map_wf m" "map_place m rule_id seed replicas weights = Some (Inr result)"
    "map_of (rules m) rule_id = Some rl" "rule_type rl = RULE_TYPE_ERASURE"
  shows "length result = replicas \<and>
    (\<forall>osd \<in> set result. osd = ITEM_NONE \<or> 0 \<le> osd \<and> osd < max_devices m \<and> \<not> is_out weights osd seed) \<and>
    (\<forall>i < length result. \<forall>j < length result.
       result ! i = result ! j \<longrightarrow> i = j \<or> result ! i = ITEM_NONE)"
proof -
  have "certifiable m rule_id replicas"
    using map_place_refused [of m rule_id replicas seed weights] assms(2) by force
  then show ?thesis
    using map_place_certifiable [OF assms(1), of rule_id replicas seed weights] assms(2-4)
    by (auto simp: slots_ok_def usable_def)
qed

theorem erasure_placement_sound_witness:
  "\<exists>result. map_place placed_map 1 7 2 [0x10000, 0] = Some (Inr result) \<and> length result = 2"
proof -
  obtain result where "map_place placed_map 1 7 2 [0x10000, 0] = Some (Inr result)"
    using map_place_certifiable [OF placed_map_wf placed_map_certifiable(2)] by blast
  then show ?thesis
    using erasure_placement_sound [OF placed_map_wf, of 1 7 2 "[0x10000, 0]" result]
    by (auto simp: placed_map_def initial_map_def RULE_TYPE_ERASURE_def)
qed

end
