(* ===== verification/Msgr_Frame.thy ===== *)
theory Msgr_Frame
  imports Wire
begin

text \<open>
  \<open>src/msgr/frame.rs\<close> and \<open>src/msgr/banner.rs\<close>: messenger frames in CRC mode and the banner
  exchange.  A reader is the list of bytes still to come; reading past its end is the
  \<open>UnexpectedEof\<close> that the source turns into \<open>Malformed\<close>.  The byte counts are natural numbers:
  a frame has at most four segments of 32-bit length, so no 64-bit sum overflows.
\<close>

section \<open>Frames\<close>

definition PREAMBLE_SIZE :: usize where "PREAMBLE_SIZE = 32"
definition MAX_SEGMENTS :: usize where "MAX_SEGMENTS = 4"
definition DEFAULT_ALIGNMENT :: u16 where "DEFAULT_ALIGNMENT = 8"
definition PAGE_ALIGNMENT :: u16 where "PAGE_ALIGNMENT = 4096"
definition LATE_STATUS_ABORTED :: u8 where "LATE_STATUS_ABORTED = 0x01"
definition LATE_STATUS_COMPLETE :: u8 where "LATE_STATUS_COMPLETE = 0x0e"

datatype frame_error =
    FE_Aborted | FE_CounterExhausted | FE_Integrity | FE_InvalidSecret | FE_LimitExceeded | FE_Malformed
  | FE_UnsupportedFeature | FE_UnsupportedPayload

fun frame_error_of_wire :: "wire_error \<Rightarrow> frame_error" where
  "frame_error_of_wire WE_LimitExceeded = FE_LimitExceeded"
| "frame_error_of_wire WE_Malformed = FE_Malformed"
| "frame_error_of_wire (WE_UnsupportedVersion _ _) = FE_Malformed"

datatype tag =
    Tag_Hello | Tag_AuthRequest | Tag_AuthBadMethod | Tag_AuthReplyMore | Tag_AuthRequestMore | Tag_AuthDone
  | Tag_AuthSignature | Tag_ClientIdent | Tag_ServerIdent | Tag_IdentMissingFeatures | Tag_SessionReconnect
  | Tag_SessionReset | Tag_SessionRetry | Tag_SessionRetryGlobal | Tag_SessionReconnectOk | Tag_Wait
  | Tag_Message | Tag_Keepalive2 | Tag_Keepalive2Ack | Tag_Ack | Tag_CompressionRequest | Tag_CompressionDone

fun tag_u8 :: "tag \<Rightarrow> u8" where
  "tag_u8 Tag_Hello = 1" | "tag_u8 Tag_AuthRequest = 2" | "tag_u8 Tag_AuthBadMethod = 3"
| "tag_u8 Tag_AuthReplyMore = 4" | "tag_u8 Tag_AuthRequestMore = 5" | "tag_u8 Tag_AuthDone = 6"
| "tag_u8 Tag_AuthSignature = 7" | "tag_u8 Tag_ClientIdent = 8" | "tag_u8 Tag_ServerIdent = 9"
| "tag_u8 Tag_IdentMissingFeatures = 10" | "tag_u8 Tag_SessionReconnect = 11" | "tag_u8 Tag_SessionReset = 12"
| "tag_u8 Tag_SessionRetry = 13" | "tag_u8 Tag_SessionRetryGlobal = 14" | "tag_u8 Tag_SessionReconnectOk = 15"
| "tag_u8 Tag_Wait = 16" | "tag_u8 Tag_Message = 17" | "tag_u8 Tag_Keepalive2 = 18"
| "tag_u8 Tag_Keepalive2Ack = 19" | "tag_u8 Tag_Ack = 20" | "tag_u8 Tag_CompressionRequest = 21"
| "tag_u8 Tag_CompressionDone = 22"

definition tag_try_from :: "u8 \<Rightarrow> frame_error + tag" where
  "tag_try_from v =
     (if v = 1 then Inr Tag_Hello else if v = 2 then Inr Tag_AuthRequest
      else if v = 3 then Inr Tag_AuthBadMethod else if v = 4 then Inr Tag_AuthReplyMore
      else if v = 5 then Inr Tag_AuthRequestMore else if v = 6 then Inr Tag_AuthDone
      else if v = 7 then Inr Tag_AuthSignature else if v = 8 then Inr Tag_ClientIdent
      else if v = 9 then Inr Tag_ServerIdent else if v = 10 then Inr Tag_IdentMissingFeatures
      else if v = 11 then Inr Tag_SessionReconnect else if v = 12 then Inr Tag_SessionReset
      else if v = 13 then Inr Tag_SessionRetry else if v = 14 then Inr Tag_SessionRetryGlobal
      else if v = 15 then Inr Tag_SessionReconnectOk else if v = 16 then Inr Tag_Wait
      else if v = 17 then Inr Tag_Message else if v = 18 then Inr Tag_Keepalive2
      else if v = 19 then Inr Tag_Keepalive2Ack else if v = 20 then Inr Tag_Ack
      else if v = 21 then Inr Tag_CompressionRequest else if v = 22 then Inr Tag_CompressionDone
      else Inl FE_Malformed)"

record frame_limits =
  max_segment_bytes :: u32
  max_frame_bytes :: u64
  max_addresses :: u32
  max_auth_bytes :: u32

record segment =
  seg_alignment :: u16
  seg_data :: bytes

record frame =
  frame_tag :: tag
  frame_segments :: "segment list"

record descriptor =
  desc_length :: u32
  desc_alignment :: u16

text \<open>\<open>u16::is_power_of_two\<close>.\<close>

definition is_power_of_two :: "u16 \<Rightarrow> bool" where
  "is_power_of_two a = list_ex (\<lambda>k. a = push_bit k 1) [0..<16]"

definition valid_alignment :: "u16 \<Rightarrow> bool" where
  "valid_alignment a \<longleftrightarrow> a \<noteq> 0 \<and> is_power_of_two a"

fun trim_empty :: "segment list \<Rightarrow> segment list" where
  "trim_empty segments =
     (if length segments > 1 \<and> seg_data (last segments) = [] then trim_empty (butlast segments)
      else segments)"

declare trim_empty.simps [simp del]

definition normalized_segments :: "segment list \<Rightarrow> frame_error + segment list" where
  "normalized_segments segments =
     (if segments = [] \<or> length segments > MAX_SEGMENTS then Inl FE_Malformed
      else Inr (trim_empty segments))"

fun sum_descriptors :: "frame_limits \<Rightarrow> bool \<Rightarrow> descriptor list \<Rightarrow> nat \<Rightarrow> frame_error + nat" where
  "sum_descriptors limits is_first [] acc = Inr acc"
| "sum_descriptors limits is_first (d # ds) acc =
     (if desc_length d > max_segment_bytes limits then Inl FE_LimitExceeded
      else if \<not> valid_alignment (desc_alignment d) then Inl FE_Malformed
      else sum_descriptors limits False ds
             (acc + unat (desc_length d) + (if is_first \<and> desc_length d > 0 then 4 else 0)))"

definition crc_size_from_descriptors :: "descriptor list \<Rightarrow> frame_limits \<Rightarrow> frame_error + usize" where
  "crc_size_from_descriptors ds limits =
     rbind (sum_descriptors limits True ds PREAMBLE_SIZE) (\<lambda>total.
       let total = (if length ds > 1 then total + 13 else total) in
       if total > unat (max_frame_bytes limits) then Inl FE_LimitExceeded else Inr total)"

fun segment_descriptors :: "segment list \<Rightarrow> frame_error + descriptor list" where
  "segment_descriptors [] = Inr []"
| "segment_descriptors (s # ss) =
     (if length (seg_data s) \<ge> 2 ^ 32 then Inl FE_LimitExceeded
      else rbind (segment_descriptors ss) (\<lambda>ds.
        Inr (\<lparr>desc_length = of_nat (length (seg_data s)), desc_alignment = seg_alignment s\<rparr> # ds)))"

definition descriptors_and_crc_size :: "segment list \<Rightarrow> frame_limits \<Rightarrow>
    frame_error + (descriptor list \<times> usize)" where
  "descriptors_and_crc_size segments limits =
     rbind (segment_descriptors segments) (\<lambda>ds.
     rbind (crc_size_from_descriptors ds limits) (\<lambda>total. Inr (ds, total)))"

definition desc_bytes :: "descriptor \<Rightarrow> bytes" where
  "desc_bytes d = to_le_bytes (desc_length d) @ to_le_bytes (desc_alignment d)"

definition encode_preamble :: "(u32 \<Rightarrow> bytes \<Rightarrow> u32) \<Rightarrow> tag \<Rightarrow> descriptor list \<Rightarrow> bytes" where
  "encode_preamble crc t ds =
     (let written = tag_u8 t # of_nat (length ds) # concat (map desc_bytes ds);
          head = written @ replicate (28 - length written) 0
      in head @ to_le_bytes (crc32c crc 0 head))"

definition desc_at :: "bytes \<Rightarrow> nat \<Rightarrow> descriptor" where
  "desc_at preamble index =
     (let offset = 2 + index * 6 in
      \<lparr>desc_length = from_le_bytes (take 4 (drop offset preamble)),
       desc_alignment = from_le_bytes (take 2 (drop (offset + 4) preamble))\<rparr>)"

fun collect_descriptors :: "bytes \<Rightarrow> usize \<Rightarrow> nat list \<Rightarrow> frame_error + descriptor list" where
  "collect_descriptors preamble count [] = Inr []"
| "collect_descriptors preamble count (index # indices) =
     (let d = desc_at preamble index in
      if index < count
      then rbind (collect_descriptors preamble count indices) (\<lambda>ds. Inr (d # ds))
      else if desc_length d \<noteq> 0 \<or> desc_alignment d \<noteq> 0 then Inl FE_Malformed
      else collect_descriptors preamble count indices)"

definition decode_preamble :: "(u32 \<Rightarrow> bytes \<Rightarrow> u32) \<Rightarrow> bytes \<Rightarrow> frame_error + (tag \<times> descriptor list)" where
  "decode_preamble crc preamble =
     (if crc32c crc 0 (take 28 preamble) \<noteq> from_le_bytes (drop 28 preamble) then Inl FE_Integrity
      else rbind (tag_try_from (preamble ! 0)) (\<lambda>t.
      if tag_u8 t > tag_u8 Tag_Ack then Inl FE_Malformed
      else
        let count = unat (preamble ! 1) in
        if \<not> (1 \<le> count \<and> count \<le> MAX_SEGMENTS) \<or> preamble ! 26 \<noteq> 0 \<or> preamble ! 27 \<noteq> 0
        then Inl FE_Malformed
        else rbind (collect_descriptors preamble count [0..<MAX_SEGMENTS]) (\<lambda>ds.
          if count > 1 \<and> desc_length (ds ! (count - 1)) = 0 then Inl FE_Malformed
          else Inr (t, ds))))"

section \<open>The CRC codec\<close>

text \<open>\<open>CrcCodec\<close> has one field, \<open>with_data_crc\<close>.\<close>

definition data_crc :: "(u32 \<Rightarrow> bytes \<Rightarrow> u32) \<Rightarrow> bool \<Rightarrow> bytes \<Rightarrow> u32" where
  "data_crc crc with_data_crc data = (if with_data_crc then crc32c crc U32_MAX data else 0)"

definition encode_first :: "(u32 \<Rightarrow> bytes \<Rightarrow> u32) \<Rightarrow> bool \<Rightarrow> bytes \<Rightarrow> bytes" where
  "encode_first crc w data = data @ (if data \<noteq> [] then to_le_bytes (data_crc crc w data) else [])"

definition encode_epilogue :: "(u32 \<Rightarrow> bytes \<Rightarrow> u32) \<Rightarrow> bool \<Rightarrow> segment list \<Rightarrow> bytes" where
  "encode_epilogue crc w segments =
     LATE_STATUS_COMPLETE #
     concat (map (\<lambda>index. to_le_bytes
       (if index < length segments then data_crc crc w (seg_data (segments ! index)) else 0)) [1..<MAX_SEGMENTS])"

definition crc_encode :: "(u32 \<Rightarrow> bytes \<Rightarrow> u32) \<Rightarrow> bool \<Rightarrow> frame \<Rightarrow> frame_limits \<Rightarrow> frame_error + bytes" where
  "crc_encode crc w f limits =
     rbind (normalized_segments (frame_segments f)) (\<lambda>segments.
     if tag_u8 (frame_tag f) > tag_u8 Tag_Ack then Inl FE_Malformed
     else rbind (descriptors_and_crc_size segments limits) (\<lambda>(ds, total).
       Inr (encode_preamble crc (frame_tag f) ds @
            encode_first crc w (seg_data (hd segments)) @
            concat (map seg_data (tl segments)) @
            (if length segments > 1 then encode_epilogue crc w segments else []))))"

text \<open>\<open>read_exact\<close>: the next bytes and the rest of the stream.\<close>

definition read_exact :: "usize \<Rightarrow> bytes \<Rightarrow> frame_error + (bytes \<times> bytes)" where
  "read_exact n bs = (if n \<le> length bs then Inr (take n bs, drop n bs) else Inl FE_Malformed)"

fun read_segments :: "(u32 \<Rightarrow> bytes \<Rightarrow> u32) \<Rightarrow> bool \<Rightarrow> bool \<Rightarrow> descriptor list \<Rightarrow> bytes \<Rightarrow>
    frame_error + (segment list \<times> bytes)" where
  "read_segments crc w is_first [] bs = Inr ([], bs)"
| "read_segments crc w is_first (d # ds) bs =
     rbind (read_exact (unat (desc_length d)) bs) (\<lambda>(data, bs).
     rbind (if is_first \<and> desc_length d > 0 then
              rbind (read_exact 4 bs) (\<lambda>(encoded, bs).
                if w \<and> crc32c crc U32_MAX data \<noteq> from_le_bytes encoded then Inl FE_Integrity else Inr bs)
            else Inr bs) (\<lambda>bs.
     rbind (read_segments crc w False ds bs) (\<lambda>(segments, bs).
       Inr (\<lparr>seg_alignment = desc_alignment d, seg_data = data\<rparr> # segments, bs))))"

fun check_epilogue :: "(u32 \<Rightarrow> bytes \<Rightarrow> u32) \<Rightarrow> bool \<Rightarrow> segment list \<Rightarrow> bytes \<Rightarrow> nat list \<Rightarrow> frame_error + unit" where
  "check_epilogue crc w segments epilogue [] = Inr ()"
| "check_epilogue crc w segments epilogue (index # indices) =
     (let offset = 1 + (index - 1) * 4; encoded = from_le_bytes (take 4 (drop offset epilogue)) in
      if w \<and> crc32c crc U32_MAX (seg_data (segments ! index)) \<noteq> encoded then Inl FE_Integrity
      else check_epilogue crc w segments epilogue indices)"

definition read_epilogue :: "(u32 \<Rightarrow> bytes \<Rightarrow> u32) \<Rightarrow> bool \<Rightarrow> segment list \<Rightarrow> bytes \<Rightarrow> frame_error + bytes" where
  "read_epilogue crc w segments bs =
     (if length segments > 1 then
        rbind (read_exact 13 bs) (\<lambda>(epilogue, bs).
          let status = epilogue ! 0 AND 0x0f in
          if status = LATE_STATUS_ABORTED then Inl FE_Aborted
          else if status \<noteq> LATE_STATUS_COMPLETE then Inl FE_Malformed
          else rbind (check_epilogue crc w segments epilogue [1..<length segments]) (\<lambda>_. Inr bs))
      else Inr bs)"

definition crc_read_reserved :: "(u32 \<Rightarrow> bytes \<Rightarrow> u32) \<Rightarrow> bool \<Rightarrow> (tag \<Rightarrow> usize \<Rightarrow> frame_error + unit) \<Rightarrow>
    bytes \<Rightarrow> frame_limits \<Rightarrow> frame_error + (frame \<times> bytes)" where
  "crc_read_reserved crc w reserve bs limits =
     rbind (read_exact PREAMBLE_SIZE bs) (\<lambda>(preamble, bs).
     rbind (decode_preamble crc preamble) (\<lambda>(t, ds).
     rbind (crc_size_from_descriptors ds limits) (\<lambda>wire_bytes.
     rbind (reserve t wire_bytes) (\<lambda>_.
     rbind (read_segments crc w True ds bs) (\<lambda>(segments, bs).
     rbind (read_epilogue crc w segments bs) (\<lambda>bs.
       Inr (\<lparr>frame_tag = t, frame_segments = segments\<rparr>, bs)))))))"

definition crc_read :: "(u32 \<Rightarrow> bytes \<Rightarrow> u32) \<Rightarrow> bool \<Rightarrow> bytes \<Rightarrow> frame_limits \<Rightarrow>
    frame_error + (frame \<times> bytes)" where
  "crc_read crc w bs limits = crc_read_reserved crc w (\<lambda>_ _. Inr ()) bs limits"

section \<open>The banner\<close>

definition BANNER_PREFIX :: bytes where
  "BANNER_PREFIX = [99, 101, 112, 104, 32, 118, 50, 10]"
definition BANNER_PAYLOAD_SIZE :: u16 where "BANNER_PAYLOAD_SIZE = 16"
definition REVISION_1_FEATURES :: u64 where "REVISION_1_FEATURES = 1"

record banner =
  banner_supported :: u64
  banner_required :: u64

definition banner_client :: banner where
  "banner_client = \<lparr>banner_supported = REVISION_1_FEATURES, banner_required = REVISION_1_FEATURES\<rparr>"

definition banner_encode :: "banner \<Rightarrow> bytes" where
  "banner_encode b = BANNER_PREFIX @ to_le_bytes BANNER_PAYLOAD_SIZE @
     to_le_bytes (banner_supported b) @ to_le_bytes (banner_required b)"

definition banner_read :: "bytes \<Rightarrow> u16 \<Rightarrow> frame_error + (banner \<times> bytes)" where
  "banner_read bs max_payload =
     rbind (read_exact 10 bs) (\<lambda>(header, bs).
     if take 8 header \<noteq> BANNER_PREFIX then Inl FE_Malformed
     else
       let size = from_le_bytes (drop 8 header) :: u16 in
       if size < BANNER_PAYLOAD_SIZE then Inl FE_Malformed
       else if size > max_payload then Inl FE_LimitExceeded
       else rbind (read_exact (unat size) bs) (\<lambda>(payload, bs).
         Inr (\<lparr>banner_supported = from_le_bytes (take 8 payload),
               banner_required = from_le_bytes (take 8 (drop 8 payload))\<rparr>, bs)))"

definition banner_negotiate :: "banner \<Rightarrow> banner \<Rightarrow> frame_error + u64" where
  "banner_negotiate own peer =
     (if banner_required peer AND NOT (banner_supported own) \<noteq> 0 \<or>
         banner_required own AND NOT (banner_supported peer) \<noteq> 0
      then Inl FE_UnsupportedFeature
      else
        let negotiated = banner_supported own AND banner_supported peer in
        if negotiated AND REVISION_1_FEATURES = 0 then Inl FE_UnsupportedFeature
        else Inr negotiated)"

section \<open>Round trips\<close>

lemma tag_roundtrip [simp]: "tag_try_from (tag_u8 t) = Inr t"
  by (cases t) (simp_all add: tag_try_from_def)

lemma trim_empty_shape:
  "segments \<noteq> [] \<Longrightarrow> trim_empty segments \<noteq> [] \<and> length (trim_empty segments) \<le> length segments \<and>
   hd (trim_empty segments) = hd segments \<and>
   (length (trim_empty segments) > 1 \<longrightarrow> seg_data (last (trim_empty segments)) \<noteq> [])"
proof (induction segments rule: trim_empty.induct)
  case (1 segments)
  show ?case
  proof (cases "length segments > 1 \<and> seg_data (last segments) = []")
    case True
    then have ne: "butlast segments \<noteq> []"
      by (metis butlast.simps(2) length_butlast length_greater_0_conv zero_less_diff)
    have "hd (butlast segments) = hd segments"
      using ne by (cases segments) auto
    then show ?thesis
      using 1(1)[OF True ne] True by (subst (1 2 3 4 5) trim_empty.simps) auto
  next
    case False
    then show ?thesis using 1(2) by (subst (1 2 3 4 5) trim_empty.simps) auto
  qed
qed

lemma length_desc_bytes [simp]: "length (desc_bytes d) = 6"
  by (simp add: desc_bytes_def)

lemma desc_at_four:
  assumes "length hd2 = 2"
  shows "map (desc_at (hd2 @ desc_bytes a @ desc_bytes b @ desc_bytes c @ desc_bytes d @ rest)) [0..<4] =
    [a, b, c, d]"
  using assms by (simp add: desc_at_def desc_bytes_def upt_rec)

abbreviation zero_desc :: descriptor where
  "zero_desc \<equiv> \<lparr>desc_length = 0, desc_alignment = 0\<rparr>"

lemma nat_le_zero: "nat_le n 0 = replicate n 0"
  by (induction n) auto

lemma desc_bytes_zero: "desc_bytes zero_desc = replicate 6 0"
  by (simp add: desc_bytes_def to_le_bytes_def nat_le_zero flip: replicate_add)

lemma concat_desc_zero: "concat (replicate k (desc_bytes zero_desc)) = replicate (6 * k) 0"
  by (induction k) (simp_all add: desc_bytes_zero flip: replicate_add)

lemma length_concat_desc: "length (concat (map desc_bytes ds)) = 6 * length ds"
  by (induction ds) auto

lemma length_four: "length xs = 4 \<longleftrightarrow> (\<exists>a b c d. xs = [a, b, c, d])"
  by (auto simp: length_Suc_conv eval_nat_numeral)

lemma collect_descriptors_eq:
  "\<forall>i \<in> set is. count \<le> i \<longrightarrow> desc_at pre i = zero_desc \<Longrightarrow>
   collect_descriptors pre count is = Inr (map (desc_at pre) (filter (\<lambda>i. i < count) is))"
  by (induction "is") (auto simp: Let_def)

lemma filter_less_upt: "n \<le> m \<Longrightarrow> filter (\<lambda>i. i < n) [0..<m] = [0..<n]"
  by (induction m) (auto simp: le_Suc_eq filter_id_conv)

lemma preamble_padded:
  assumes "length ds \<le> 4"
  shows "\<exists>a b c d. ds @ replicate (4 - length ds) zero_desc = [a, b, c, d] \<and>
    encode_preamble crc t ds =
      (let h = [tag_u8 t, of_nat (length ds)] @ desc_bytes a @ desc_bytes b @ desc_bytes c @ desc_bytes d @ [0, 0]
       in h @ to_le_bytes (crc32c crc 0 h))"
proof -
  have "length (ds @ replicate (4 - length ds) zero_desc) = 4" using assms by simp
  then obtain a b c d where abcd: "ds @ replicate (4 - length ds) zero_desc = [a, b, c, d]"
    unfolding length_four by blast
  have app: "replicate k 0 @ [0, 0 :: u8] = 0 # 0 # replicate k 0" for k by (induction k) auto
  have pad: "26 - 6 * length ds = Suc (Suc (6 * (4 - length ds)))" using assms by arith
  have "concat (map desc_bytes ds) @ replicate (26 - 6 * length ds) 0 =
      concat (map desc_bytes (ds @ replicate (4 - length ds) zero_desc)) @ [0, 0]"
    by (simp add: pad concat_desc_zero app)
  then show ?thesis
    using abcd by (auto simp: encode_preamble_def Let_def length_concat_desc)
qed

lemma decode_encode_preamble:
  assumes "1 \<le> length ds" "length ds \<le> 4" "tag_u8 t \<le> tag_u8 Tag_Ack"
    "length ds > 1 \<longrightarrow> desc_length (last ds) \<noteq> 0"
  shows "decode_preamble crc (encode_preamble crc t ds) = Inr (t, ds)"
    and "length (encode_preamble crc t ds) = PREAMBLE_SIZE"
proof -
  obtain a b c d where abcd: "ds @ replicate (4 - length ds) zero_desc = [a, b, c, d]"
    and pre: "encode_preamble crc t ds =
      (let h = [tag_u8 t, of_nat (length ds)] @ desc_bytes a @ desc_bytes b @ desc_bytes c @ desc_bytes d @ [0, 0]
       in h @ to_le_bytes (crc32c crc 0 h))"
    using preamble_padded [OF assms(2)] by blast
  let ?p = "encode_preamble crc t ds"
  have four: "map (desc_at ?p) [0..<4] = ds @ replicate (4 - length ds) zero_desc"
    unfolding abcd pre Let_def append_assoc by (rule desc_at_four) simp
  have zero: "desc_at ?p i = zero_desc" if "i < 4" "length ds \<le> i" for i
    using arg_cong [OF four, where f = "\<lambda>xs. xs ! i"] that by (simp add: nth_append)
  have "map (desc_at ?p) [0..<length ds] = take (length ds) (map (desc_at ?p) [0..<4])"
    using assms(2) by (simp add: take_map)
  then have coll: "collect_descriptors ?p (length ds) [0..<MAX_SEGMENTS] = Inr ds"
    using collect_descriptors_eq [of "[0..<4]" "length ds" ?p] zero four assms(2)
    by (simp add: MAX_SEGMENTS_def filter_less_upt)
  have nth: "?p ! 0 = tag_u8 t" "?p ! 1 = of_nat (length ds)" "?p ! 26 = 0" "?p ! 27 = 0"
    by (simp_all add: pre Let_def nth_append)
  have crc: "crc32c crc 0 (take 28 ?p) = from_le_bytes (drop 28 ?p)"
    by (simp add: pre Let_def)
  have "unat (of_nat (length ds) :: u8) = length ds" using assms(2) by (simp add: unat_of_nat)
  moreover have "desc_length (ds ! (length ds - 1)) \<noteq> 0" if "length ds > 1"
    using assms(4) that by (metis last_conv_nth length_greater_0_conv order.strict_trans zero_less_one)
  ultimately show "decode_preamble crc ?p = Inr (t, ds)"
    using nth crc coll assms by (auto simp: decode_preamble_def Let_def MAX_SEGMENTS_def not_less)
  show "length ?p = PREAMBLE_SIZE" by (simp add: pre Let_def PREAMBLE_SIZE_def)
qed

lemma read_exact_append [simp]: "n = length xs \<Longrightarrow> read_exact n (xs @ ys) = Inr (xs, ys)"
  by (simp add: read_exact_def)

lemma segment_descriptors_shape:
  "segment_descriptors ss = Inr ds \<Longrightarrow>
   ds = map (\<lambda>s. \<lparr>desc_length = of_nat (length (seg_data s)), desc_alignment = seg_alignment s\<rparr>) ss \<and>
   (\<forall>s \<in> set ss. length (seg_data s) < 2 ^ 32)"
  by (induction ss arbitrary: ds) (auto split: if_splits)

lemma read_segments_encoded:
  assumes "segment_descriptors ss = Inr ds"
  shows "read_segments crc w False ds (concat (map seg_data ss) @ rest) = Inr (ss, rest)"
  using assms
proof (induction ss arbitrary: ds)
  case (Cons s ss)
  have "unat (of_nat (length (seg_data s)) :: u32) = length (seg_data s)"
    using Cons.prems by (auto simp: unat_of_nat split: if_splits)
  then show ?case using Cons by (auto split: if_splits)
qed simp

lemma read_first_encoded:
  assumes "segment_descriptors (s # ss) = Inr ds"
  shows "read_segments crc w True ds (encode_first crc w (seg_data s) @ concat (map seg_data ss) @ rest) =
    Inr (s # ss, rest)"
proof -
  have len: "unat (of_nat (length (seg_data s)) :: u32) = length (seg_data s)"
    using assms by (auto simp: unat_of_nat split: if_splits)
  then have pos: "(of_nat (length (seg_data s)) :: u32) > 0 \<longleftrightarrow> seg_data s \<noteq> []"
    by (simp add: word_less_nat_alt)
  obtain ds' where "segment_descriptors ss = Inr ds'"
      "ds = \<lparr>desc_length = of_nat (length (seg_data s)), desc_alignment = seg_alignment s\<rparr> # ds'"
    using assms by (auto split: if_splits)
  then show ?thesis
    using len pos read_segments_encoded [of ss ds' crc w rest]
    by (auto simp: encode_first_def data_crc_def)
qed

lemma check_epilogue_all:
  "\<forall>i \<in> set is. w \<longrightarrow> crc32c crc U32_MAX (seg_data (ss ! i)) =
       from_le_bytes (take 4 (drop (1 + (i - 1) * 4) ep)) \<Longrightarrow>
   check_epilogue crc w ss ep is = Inr ()"
  by (induction "is") auto

lemma read_epilogue_encoded:
  assumes "length ss > 1" "length ss \<le> 4"
  shows "read_epilogue crc w ss (encode_epilogue crc w ss @ rest) = Inr rest"
proof -
  let ?e = "encode_epilogue crc w ss"
  let ?c = "\<lambda>i. if i < length ss then data_crc crc w (seg_data (ss ! i)) else 0"
  have upt: "[1..<4] = [1, 2, 3::nat]" by (simp add: upt_rec)
  have e: "?e = LATE_STATUS_COMPLETE # to_le_bytes (?c 1) @ to_le_bytes (?c 2) @ to_le_bytes (?c 3)"
    unfolding encode_epilogue_def MAX_SEGMENTS_def upt by simp
  have "crc32c crc U32_MAX (seg_data (ss ! i)) = from_le_bytes (take 4 (drop (1 + (i - 1) * 4) ?e))"
    if "w" "i \<in> set [1..<length ss]" for i
  proof -
    have "i = 1 \<or> i = 2 \<or> i = 3" using that assms(2) by auto
    then show ?thesis using that unfolding e by (elim disjE) (simp_all add: data_crc_def)
  qed
  then have "check_epilogue crc w ss ?e [1..<length ss] = Inr ()" by (intro check_epilogue_all) auto
  moreover have "length ?e = 13" "?e ! 0 AND 0x0f = LATE_STATUS_COMPLETE"
    by (simp_all add: e LATE_STATUS_COMPLETE_def)
  ultimately show ?thesis
    using assms(1) by (simp add: read_epilogue_def LATE_STATUS_COMPLETE_def LATE_STATUS_ABORTED_def)
qed

section \<open>Sizes\<close>

lemma sum_descriptors_eq:
  "sum_descriptors limits is_first ds n = Inr t \<Longrightarrow>
   t = n + (\<Sum>d \<leftarrow> ds. unat (desc_length d)) +
     (if is_first \<and> ds \<noteq> [] \<and> desc_length (hd ds) > 0 then 4 else 0) \<and>
   (\<forall>d \<in> set ds. desc_length d \<le> max_segment_bytes limits \<and> valid_alignment (desc_alignment d))"
  by (induction limits is_first ds n rule: sum_descriptors.induct) (auto split: if_splits)

lemma crc_size_eq:
  assumes "crc_size_from_descriptors ds limits = Inr t"
  shows "t = PREAMBLE_SIZE + (\<Sum>d \<leftarrow> ds. unat (desc_length d)) +
      (if ds \<noteq> [] \<and> desc_length (hd ds) > 0 then 4 else 0) + (if length ds > 1 then 13 else 0)"
    and "t \<le> unat (max_frame_bytes limits)"
    and "\<forall>d \<in> set ds. desc_length d \<le> max_segment_bytes limits \<and> valid_alignment (desc_alignment d)"
  using assms by (auto simp: crc_size_from_descriptors_def Let_def split: if_splits dest!: sum_descriptors_eq)

lemma length_encode_first:
  assumes "length data < 2 ^ 32"
  shows "length (encode_first crc w data) =
    unat (of_nat (length data) :: u32) + (if (of_nat (length data) :: u32) > 0 then 4 else 0)"
proof -
  have len: "unat (of_nat (length data) :: u32) = length data" using assms by (simp add: unat_of_nat)
  then show ?thesis by (simp add: encode_first_def word_less_nat_alt)
qed

lemma length_encode_epilogue [simp]: "length (encode_epilogue crc w ss) = 13"
proof -
  have upt: "[1..<4] = [1, 2, 3::nat]" by (simp add: upt_rec)
  show ?thesis unfolding encode_epilogue_def MAX_SEGMENTS_def upt by simp
qed

lemma crc_encode_parts:
  assumes "crc_encode crc w f limits = Inr bs"
  obtains s ss ds where "trim_empty (frame_segments f) = s # ss" "length (s # ss) \<le> 4"
    "ss \<noteq> [] \<longrightarrow> seg_data (last ss) \<noteq> []" "tag_u8 (frame_tag f) \<le> tag_u8 Tag_Ack"
    "segment_descriptors (s # ss) = Inr ds" "crc_size_from_descriptors ds limits = Inr (length bs)"
    "bs = encode_preamble crc (frame_tag f) ds @ encode_first crc w (seg_data s) @
       concat (map seg_data ss) @ (if ss \<noteq> [] then encode_epilogue crc w (s # ss) else [])"
proof -
  let ?t = "trim_empty (frame_segments f)"
  have ne: "frame_segments f \<noteq> []" "length (frame_segments f) \<le> 4" and tag: "tag_u8 (frame_tag f) \<le> tag_u8 Tag_Ack"
    using assms by (auto simp: crc_encode_def normalized_segments_def MAX_SEGMENTS_def split: if_splits)
  note shape = trim_empty_shape [OF ne(1)]
  obtain s ss where t: "?t = s # ss" using shape by (cases ?t) auto
  obtain ds n where ds: "segment_descriptors (s # ss) = Inr ds" "crc_size_from_descriptors ds limits = Inr n"
    and bs: "bs = encode_preamble crc (frame_tag f) ds @ encode_first crc w (seg_data s) @
       concat (map seg_data ss) @ (if ss \<noteq> [] then encode_epilogue crc w (s # ss) else [])"
    using assms t ne tag
    by (auto simp: crc_encode_def normalized_segments_def descriptors_and_crc_size_def split: if_splits)
  note D = segment_descriptors_shape [OF ds(1)]
  have four: "length (s # ss) \<le> 4" using shape t ne(2) by simp
  have lastne: "ss \<noteq> [] \<longrightarrow> seg_data (last ss) \<noteq> []" using shape t by auto
  have dl: "length ds = Suc (length ss)" using D by simp
  have "length ds > 1 \<longrightarrow> desc_length (last ds) \<noteq> 0"
    using D lastne four by (auto simp: last_map unat_eq_zero [symmetric] unat_of_nat simp del: unat_eq_zero split: if_splits)
  then have "length (encode_preamble crc (frame_tag f) ds) = PREAMBLE_SIZE"
    using decode_encode_preamble(2) [of ds "frame_tag f" crc] dl four tag by simp
  moreover have "(\<Sum>d \<leftarrow> map (\<lambda>s. \<lparr>desc_length = of_nat (length (seg_data s)) :: u32,
        desc_alignment = seg_alignment s\<rparr>) ss. unat (desc_length d)) = length (concat (map seg_data ss))"
    using D by (auto simp: length_concat o_def unat_of_nat intro!: arg_cong [where f = sum_list])
  ultimately have "length bs = n"
    using crc_size_eq(1) [OF ds(2)] D length_encode_first [of "seg_data s" crc w] by (simp add: bs)
  then show thesis using that t four lastne tag ds bs by blast
qed

lemma crc_read_encoded:
  assumes "crc_encode crc w f limits = Inr bs"
  shows "crc_read_reserved crc w reserve (bs @ rest) limits =
    rbind (reserve (frame_tag f) (length bs)) (\<lambda>_.
      Inr (\<lparr>frame_tag = frame_tag f, frame_segments = trim_empty (frame_segments f)\<rparr>, rest))"
  using assms
proof (rule crc_encode_parts)
  fix s ss ds
  assume t: "trim_empty (frame_segments f) = s # ss" and four: "length (s # ss) \<le> 4"
    and lastne: "ss \<noteq> [] \<longrightarrow> seg_data (last ss) \<noteq> []" and tag: "tag_u8 (frame_tag f) \<le> tag_u8 Tag_Ack"
    and ds: "segment_descriptors (s # ss) = Inr ds" and size: "crc_size_from_descriptors ds limits = Inr (length bs)"
    and bs: "bs = encode_preamble crc (frame_tag f) ds @ encode_first crc w (seg_data s) @
       concat (map seg_data ss) @ (if ss \<noteq> [] then encode_epilogue crc w (s # ss) else [])"
  note D = segment_descriptors_shape [OF ds]
  have dl: "length ds = Suc (length ss)" using D by simp
  have "length ds > 1 \<longrightarrow> desc_length (last ds) \<noteq> 0"
    using D lastne four by (auto simp: last_map unat_eq_zero [symmetric] unat_of_nat simp del: unat_eq_zero split: if_splits)
  note pre = decode_encode_preamble [OF _ _ tag this, of crc]
  have epi: "read_epilogue crc w (s # ss) ((if ss \<noteq> [] then encode_epilogue crc w (s # ss) else []) @ rest) = Inr rest"
    using read_epilogue_encoded [of "s # ss" crc w rest] four by (auto simp: read_epilogue_def)
  show ?thesis
    using pre dl four size t epi read_first_encoded [OF ds, of crc w]
    by (simp add: crc_read_reserved_def bs)
qed

section \<open>What a reader accepts\<close>

lemma read_exact_Inr: "read_exact n bs = Inr (xs, ys) \<Longrightarrow> bs = xs @ ys \<and> length xs = n"
  by (auto simp: read_exact_def split: if_splits)

lemma collect_descriptors_length:
  "collect_descriptors pre count is = Inr ds \<Longrightarrow> length ds = length (filter (\<lambda>i. i < count) is)"
  by (induction "is" arbitrary: ds) (auto simp: Let_def split: if_splits)

lemma decode_preamble_count:
  assumes "decode_preamble crc p = Inr (t, ds)"
  shows "1 \<le> length ds \<and> length ds \<le> MAX_SEGMENTS"
  using assms
  by (auto simp: decode_preamble_def Let_def filter_less_upt MAX_SEGMENTS_def split: if_splits
      dest!: collect_descriptors_length)

lemma read_segments_consumes:
  "read_segments crc w is_first ds bs = Inr (ss, rest) \<Longrightarrow>
   \<exists>wire. bs = wire @ rest \<and> map desc_alignment ds = map seg_alignment ss \<and>
     map (\<lambda>d. unat (desc_length d)) ds = map (\<lambda>s. length (seg_data s)) ss \<and>
     length wire = (\<Sum>d \<leftarrow> ds. unat (desc_length d)) +
       (if is_first \<and> ds \<noteq> [] \<and> desc_length (hd ds) > 0 then 4 else 0)"
proof (induction ds arbitrary: is_first bs ss)
  case (Cons d ds)
  obtain data bs1 bs2 ss' where
    data: "read_exact (unat (desc_length d)) bs = Inr (data, bs1)"
    and crc: "(if is_first \<and> desc_length d > 0 then rbind (read_exact 4 bs1) (\<lambda>(encoded, bs).
        if w \<and> crc32c crc U32_MAX data \<noteq> from_le_bytes encoded then Inl FE_Integrity else Inr bs)
      else Inr bs1) = Inr bs2"
    and rest: "read_segments crc w False ds bs2 = Inr (ss', rest)"
    and ss: "ss = \<lparr>seg_alignment = desc_alignment d, seg_data = data\<rparr> # ss'"
    using Cons.prems by auto
  obtain crcb where crcb: "bs1 = crcb @ bs2" "length crcb = (if is_first \<and> desc_length d > 0 then 4 else 0)"
    using crc by (auto split: if_splits dest!: read_exact_Inr)
  show ?case
    using Cons.IH [OF rest] read_exact_Inr [OF data] crcb ss by auto
qed auto

lemma read_epilogue_consumes:
  "read_epilogue crc w ss bs = Inr rest \<Longrightarrow>
   \<exists>wire. bs = wire @ rest \<and> length wire = (if length ss > 1 then 13 else 0)"
  by (auto simp: read_epilogue_def Let_def split: if_splits dest!: read_exact_Inr)

section \<open>Properties\<close>

text \<open>
  C21: a frame the CRC codec encodes is read back whole, with the trailing empty segments dropped and
  the rest of the stream untouched, whatever the checksum function; and the reader reserves exactly
  the number of bytes the frame has on the wire.
\<close>

theorem crc_frame_roundtrip:
  assumes "crc_encode crc w f limits = Inr bs"
  shows "crc_read_reserved crc w reserve (bs @ rest) limits =
    rbind (reserve (frame_tag f) (length bs)) (\<lambda>_.
      Inr (\<lparr>frame_tag = frame_tag f, frame_segments = trim_empty (frame_segments f)\<rparr>, rest))"
  using assms by (rule crc_read_encoded)

definition sample_frame :: frame where
  "sample_frame = \<lparr>frame_tag = Tag_Ack, frame_segments = [\<lparr>seg_alignment = 8, seg_data = [1, 2]\<rparr>]\<rparr>"

definition sample_frame_limits :: frame_limits where
  "sample_frame_limits = \<lparr>max_segment_bytes = 1024, max_frame_bytes = 4096, max_addresses = 8, max_auth_bytes = 64\<rparr>"

lemma sample_frame_encodes: "\<exists>bs. crc_encode (\<lambda>seed _. seed) True sample_frame sample_frame_limits = Inr bs"
  by (simp add: crc_encode_def sample_frame_def sample_frame_limits_def normalized_segments_def
      MAX_SEGMENTS_def trim_empty.simps descriptors_and_crc_size_def crc_size_from_descriptors_def
      PREAMBLE_SIZE_def valid_alignment_def is_power_of_two_def upt_rec)

theorem crc_frame_roundtrip_witness:
  "\<exists>bs. crc_encode (\<lambda>seed _. seed) True sample_frame sample_frame_limits = Inr bs \<and>
     crc_read_reserved (\<lambda>seed _. seed) True (\<lambda>_ _. Inr ()) (bs @ [7]) sample_frame_limits = Inr (sample_frame, [7])"
proof -
  obtain bs where bs: "crc_encode (\<lambda>seed _. seed) True sample_frame sample_frame_limits = Inr bs"
    using sample_frame_encodes by blast
  then show ?thesis
    using crc_frame_roundtrip [OF bs, of "\<lambda>_ _. Inr ()" "[7]"]
    by (simp add: sample_frame_def trim_empty.simps)
qed

text \<open>
  C22: whatever arrives, an accepted frame has between one and four segments of valid alignment
  within the segment limit, occupies a prefix of the stream no longer than the frame limit, and was
  charged to the reservation for exactly that many bytes.  The charge comes before the segments are
  read: with a reservation that refuses it, the same preamble ends the read with the refusal,
  whatever follows it and even if nothing does.
\<close>

theorem crc_read_bounded:
  assumes "crc_read_reserved crc w reserve bs limits = Inr (f, rest)"
  shows "\<exists>wire. bs = wire @ rest \<and> length wire \<le> unat (max_frame_bytes limits) \<and>
    reserve (frame_tag f) (length wire) = Inr () \<and>
    (\<forall>e tail. crc_read_reserved crc w (\<lambda>_ _. Inl e) (take PREAMBLE_SIZE bs @ tail) limits = Inl e) \<and>
    1 \<le> length (frame_segments f) \<and> length (frame_segments f) \<le> MAX_SEGMENTS \<and>
    (\<forall>s \<in> set (frame_segments f). length (seg_data s) \<le> unat (max_segment_bytes limits) \<and>
       valid_alignment (seg_alignment s))"
proof -
  obtain p bs1 t ds n u ss bs2 where
    p: "read_exact PREAMBLE_SIZE bs = Inr (p, bs1)" and ds: "decode_preamble crc p = Inr (t, ds)"
    and n: "crc_size_from_descriptors ds limits = Inr n" and res: "reserve t n = Inr u"
    and seg: "read_segments crc w True ds bs1 = Inr (ss, bs2)"
    and epi: "read_epilogue crc w ss bs2 = Inr rest"
    and f: "f = \<lparr>frame_tag = t, frame_segments = ss\<rparr>"
    using assms by (auto simp: crc_read_reserved_def)
  obtain w1 where w1: "bs1 = w1 @ bs2" "map desc_alignment ds = map seg_alignment ss"
      "map (\<lambda>d. unat (desc_length d)) ds = map (\<lambda>s. length (seg_data s)) ss"
      "length w1 = (\<Sum>d \<leftarrow> ds. unat (desc_length d)) + (if ds \<noteq> [] \<and> desc_length (hd ds) > 0 then 4 else 0)"
    using read_segments_consumes [OF seg] by auto
  obtain w2 where w2: "bs2 = w2 @ rest" "length w2 = (if length ss > 1 then 13 else 0)"
    using read_epilogue_consumes [OF epi] by auto
  have len: "length ds = length ss" using w1(2) by (metis length_map)
  have wire: "bs = (p @ w1 @ w2) @ rest" "length (p @ w1 @ w2) = n"
    using read_exact_Inr [OF p] w1 w2 len crc_size_eq(1) [OF n] by auto
  have "length (seg_data s) \<le> unat (max_segment_bytes limits) \<and> valid_alignment (seg_alignment s)"
    if s: "s \<in> set ss" for s
  proof -
    obtain i where i: "i < length ss" "s = ss ! i" using s by (auto simp: in_set_conv_nth)
    then have "unat (desc_length (ds ! i)) = length (seg_data s)" "desc_alignment (ds ! i) = seg_alignment s"
      using arg_cong [OF w1(3), where f = "\<lambda>xs. xs ! i"] arg_cong [OF w1(2), where f = "\<lambda>xs. xs ! i"] len
      by auto
    then show ?thesis
      using crc_size_eq(3) [OF n] i len by (metis nth_mem word_le_nat_alt)
  qed
  moreover have "crc_read_reserved crc w (\<lambda>_ _. Inl e) (take PREAMBLE_SIZE bs @ tail) limits = Inl e" for e tail
  proof -
    have "read_exact PREAMBLE_SIZE (take PREAMBLE_SIZE bs @ tail) = Inr (p, tail)"
      using read_exact_Inr [OF p] read_exact_append [of PREAMBLE_SIZE p tail] by simp
    then show ?thesis using ds n by (simp add: crc_read_reserved_def)
  qed
  ultimately show ?thesis
    using wire crc_size_eq(2) [OF n] res decode_preamble_count [OF ds] f len by (intro exI [of _ "p @ w1 @ w2"]) auto
qed

theorem crc_read_bounded_witness:
  "\<exists>bs wire. crc_read_reserved (\<lambda>seed _. seed) True (\<lambda>_ _. Inr ()) (bs @ [7]) sample_frame_limits =
     Inr (sample_frame, [7]) \<and> bs @ [7] = wire @ [7] \<and> length wire \<le> 4096 \<and>
     crc_read_reserved (\<lambda>seed _. seed) True (\<lambda>_ _. Inl FE_LimitExceeded) (take PREAMBLE_SIZE (bs @ [7])) sample_frame_limits =
       Inl FE_LimitExceeded"
proof -
  obtain bs where "crc_encode (\<lambda>seed _. seed) True sample_frame sample_frame_limits = Inr bs"
    using sample_frame_encodes by blast
  then have read: "crc_read_reserved (\<lambda>seed _. seed) True (\<lambda>_ _. Inr ()) (bs @ [7])
      sample_frame_limits = Inr (sample_frame, [7])"
    using crc_read_encoded [of "\<lambda>seed _. seed" True sample_frame sample_frame_limits bs "\<lambda>_ _. Inr ()" "[7]"]
    by (auto simp: sample_frame_def trim_empty.simps)
  from crc_read_bounded [OF read] obtain wire where "bs @ [7] = wire @ [7]" "length wire \<le> 4096"
      "\<forall>e tail. crc_read_reserved (\<lambda>seed _. seed) True (\<lambda>_ _. Inl e) (take PREAMBLE_SIZE (bs @ [7]) @ tail) sample_frame_limits = Inl e"
    by (auto simp: sample_frame_limits_def)
  then show ?thesis using read append_Nil2 [of "take PREAMBLE_SIZE (bs @ [7])"] by metis
qed

text \<open>a banner is read back from its encoding, if the reader accepts payloads of its size.\<close>

theorem banner_roundtrip:
  assumes "BANNER_PAYLOAD_SIZE \<le> max_payload"
  shows "banner_read (banner_encode b @ rest) max_payload = Inr (b, rest)"
proof -
  let ?h = "BANNER_PREFIX @ to_le_bytes BANNER_PAYLOAD_SIZE"
  let ?p = "to_le_bytes (banner_supported b) @ to_le_bytes (banner_required b)"
  have pre: "length BANNER_PREFIX = 8" by (simp add: BANNER_PREFIX_def)
  have "unat BANNER_PAYLOAD_SIZE = length ?p" by (simp add: BANNER_PAYLOAD_SIZE_def)
  then have "read_exact 10 (?h @ ?p @ rest) = Inr (?h, ?p @ rest)"
    "read_exact (unat BANNER_PAYLOAD_SIZE) (?p @ rest) = Inr (?p, rest)"
    using read_exact_append [of 10 ?h "?p @ rest"] read_exact_append [of "unat BANNER_PAYLOAD_SIZE" ?p rest]
    by (simp_all add: pre)
  then show ?thesis
    using assms by (simp add: banner_read_def banner_encode_def pre Let_def not_less)
qed

theorem banner_roundtrip_witness:
  "banner_read (banner_encode banner_client @ [1]) 32 = Inr (banner_client, [1])"
  by (rule banner_roundtrip) (simp add: BANNER_PAYLOAD_SIZE_def)

text \<open>
  C23: both ends of a banner exchange reach the same verdict, and agreed features are supported by
  both, include revision 1 and leave no required feature of either end out of the other's support.
\<close>

theorem banner_agreement:
  assumes "banner_negotiate a b = Inr features"
  shows "banner_negotiate b a = Inr features \<and>
    features AND NOT (banner_supported a) = 0 \<and> features AND NOT (banner_supported b) = 0 \<and>
    features AND REVISION_1_FEATURES = REVISION_1_FEATURES \<and>
    banner_required a AND NOT (banner_supported b) = 0 \<and> banner_required b AND NOT (banner_supported a) = 0"
proof -
  have one: "x AND 1 = 0 \<or> x AND 1 = 1" for x :: u64
    by (simp add: and_one_eq mod2_eq_if)
  have f: "features = banner_supported a AND banner_supported b" "features AND 1 \<noteq> 0"
    "banner_required a AND NOT (banner_supported b) = 0" "banner_required b AND NOT (banner_supported a) = 0"
    using assms by (auto simp: banner_negotiate_def Let_def REVISION_1_FEATURES_def split: if_splits)
  have sub: "(x AND y) AND NOT x = 0" "(x AND y) AND NOT y = 0" for x y :: u64
    by (rule bit_word_eqI, auto simp: bit_simps)+
  have "features AND REVISION_1_FEATURES = REVISION_1_FEATURES"
    using one [of features] f(2) by (simp add: REVISION_1_FEATURES_def)
  moreover have "banner_negotiate b a = Inr features"
    using f by (simp add: banner_negotiate_def Let_def REVISION_1_FEATURES_def and.commute)
  ultimately show ?thesis
    using f(3,4) sub(1) [of "banner_supported a" "banner_supported b"]
      sub(2) [of "banner_supported a" "banner_supported b"] f(1) by simp
qed

theorem banner_agreement_witness:
  "banner_negotiate banner_client banner_client = Inr 1 \<and> (1 :: u64) AND REVISION_1_FEATURES = REVISION_1_FEATURES"
proof -
  have "banner_negotiate banner_client banner_client = Inr 1"
    by (simp add: banner_negotiate_def banner_client_def REVISION_1_FEATURES_def)
  then show ?thesis using banner_agreement [of banner_client banner_client 1] by blast
qed

end
