(* ===== verification/Msgr_Message.thy ===== *)
theory Msgr_Message
  imports Msgr_Frame Protocol
begin

text \<open>
  \<open>src/msgr/message.rs\<close> and \<open>src/msgr/control.rs\<close>: the payloads of frames.  The receive charge of
  a message, a handle on a semaphore permit that its equality ignores, is not part of the model.
\<close>

section \<open>Messages\<close>

definition MESSAGE_HEADER_SIZE :: usize where "MESSAGE_HEADER_SIZE = 41"

definition MESSAGE_ALIGNMENTS :: "u16 list" where
  "MESSAGE_ALIGNMENTS = [DEFAULT_ALIGNMENT, DEFAULT_ALIGNMENT, DEFAULT_ALIGNMENT, PAGE_ALIGNMENT]"

record message_header =
  mh_sequence :: u64
  mh_transaction_id :: u64
  mh_message_type :: u16
  mh_priority :: u16
  mh_version :: u16
  mh_data_pre_padding_length :: u32
  mh_data_offset :: u16
  mh_ack_sequence :: u64
  mh_flags :: u8
  mh_compat_version :: u16
  mh_reserved :: u16

record message_lengths =
  ml_front :: u32
  ml_middle :: u32
  ml_data :: u32

record message =
  m_header :: message_header
  m_lengths :: message_lengths
  m_front :: bytes
  m_middle :: bytes
  m_data :: bytes

text \<open>The \<open>expect\<close>s of the header encoder never fire, as \<open>header_encode_total\<close> shows.\<close>

definition header_encode :: "message_header \<Rightarrow> wire_error + bytes" where
  "header_encode h =
     enc_finish (enc_u16 (mh_reserved h) (enc_u16 (mh_compat_version h) (enc_u8 (mh_flags h)
       (enc_u64 (mh_ack_sequence h) (enc_u16 (mh_data_offset h) (enc_u32 (mh_data_pre_padding_length h)
       (enc_u16 (mh_version h) (enc_u16 (mh_priority h) (enc_u16 (mh_message_type h)
       (enc_u64 (mh_transaction_id h) (enc_u64 (mh_sequence h) (enc_new MESSAGE_HEADER_SIZE))))))))))))"

definition header_bytes :: "message_header \<Rightarrow> bytes" where
  "header_bytes h = (case header_encode h of Inr bs \<Rightarrow> bs | Inl _ \<Rightarrow> [])"

definition header_decode :: "bytes \<Rightarrow> frame_error + message_header" where
  "header_decode data =
     (if length data \<noteq> MESSAGE_HEADER_SIZE then Inl FE_Malformed
      else
        let d = dec_new data MESSAGE_HEADER_SIZE;
            (sequence, d) = dec_u64 d; (transaction_id, d) = dec_u64 d; (message_type, d) = dec_u16 d;
            (priority, d) = dec_u16 d; (version, d) = dec_u16 d; (padding, d) = dec_u32 d;
            (offset, d) = dec_u16 d; (ack, d) = dec_u64 d; (flags, d) = dec_u8 d;
            (compat, d) = dec_u16 d; (reserved, d) = dec_u16 d in
        rbind (map_err frame_error_of_wire (dec_finish d)) (\<lambda>_.
        if dec_remaining d \<noteq> 0 then Inl FE_Malformed
        else Inr \<lparr>mh_sequence = sequence, mh_transaction_id = transaction_id, mh_message_type = message_type,
                  mh_priority = priority, mh_version = version, mh_data_pre_padding_length = padding,
                  mh_data_offset = offset, mh_ack_sequence = ack, mh_flags = flags,
                  mh_compat_version = compat, mh_reserved = reserved\<rparr>))"

definition checked_length :: "usize \<Rightarrow> frame_error + u32" where
  "checked_length n = (if n < 2 ^ 32 then Inr (of_nat n) else Inl FE_LimitExceeded)"

fun validate_each :: "frame_limits \<Rightarrow> (segment \<times> u16) list \<Rightarrow> nat \<Rightarrow> frame_error + nat" where
  "validate_each limits [] n = Inr n"
| "validate_each limits ((s, a) # rest) n =
     (if seg_alignment s \<noteq> a then Inl FE_Malformed
      else if length (seg_data s) > unat (max_segment_bytes limits) then Inl FE_LimitExceeded
      else validate_each limits rest (n + length (seg_data s)))"

definition validate_segments :: "segment list \<Rightarrow> frame_limits \<Rightarrow> frame_error + unit" where
  "validate_segments segments limits =
     rbind (validate_each limits (zip segments MESSAGE_ALIGNMENTS) 0) (\<lambda>n.
       if n > unat (max_frame_bytes limits) then Inl FE_LimitExceeded else Inr ())"

definition message_encode :: "message \<Rightarrow> frame_limits \<Rightarrow> frame_error + frame" where
  "message_encode m limits =
     rbind (checked_length (length (m_front m))) (\<lambda>front.
     rbind (checked_length (length (m_middle m))) (\<lambda>middle.
     rbind (checked_length (length (m_data m))) (\<lambda>data.
     if m_lengths m \<noteq> \<lparr>ml_front = front, ml_middle = middle, ml_data = data\<rparr> \<or>
        mh_data_pre_padding_length (m_header m) > data
     then Inl FE_Malformed
     else
       let segments =
         [\<lparr>seg_alignment = DEFAULT_ALIGNMENT, seg_data = header_bytes (m_header m)\<rparr>,
          \<lparr>seg_alignment = DEFAULT_ALIGNMENT, seg_data = m_front m\<rparr>,
          \<lparr>seg_alignment = DEFAULT_ALIGNMENT, seg_data = m_middle m\<rparr>,
          \<lparr>seg_alignment = PAGE_ALIGNMENT, seg_data = m_data m\<rparr>] in
       rbind (validate_segments segments limits) (\<lambda>_.
         Inr \<lparr>frame_tag = Tag_Message, frame_segments = segments\<rparr>))))"

definition segment_data :: "segment list \<Rightarrow> nat \<Rightarrow> bytes" where
  "segment_data segments i = (if i < length segments then seg_data (segments ! i) else [])"

definition message_decode :: "frame \<Rightarrow> frame_limits \<Rightarrow> frame_error + message" where
  "message_decode f limits =
     (let segments = frame_segments f in
      if frame_tag f \<noteq> Tag_Message \<or> \<not> (1 \<le> length segments \<and> length segments \<le> length MESSAGE_ALIGNMENTS)
      then Inl FE_Malformed
      else
        rbind (validate_segments segments limits) (\<lambda>_.
        rbind (header_decode (seg_data (segments ! 0))) (\<lambda>header.
        let front = segment_data segments 1; middle = segment_data segments 2; data = segment_data segments 3 in
        if unat (mh_data_pre_padding_length header) > length data then Inl FE_Malformed
        else
          rbind (checked_length (length front)) (\<lambda>fl.
          rbind (checked_length (length middle)) (\<lambda>ml.
          rbind (checked_length (length data)) (\<lambda>dl.
            Inr \<lparr>m_header = header, m_lengths = \<lparr>ml_front = fl, ml_middle = ml, ml_data = dl\<rparr>,
                  m_front = front, m_middle = middle, m_data = data\<rparr>))))))"

section \<open>Control payloads\<close>

definition CONNECTION_FLAG_LOSSY :: u64 where "CONNECTION_FLAG_LOSSY = 1"

definition CONTROL_FEATURES :: global_features where
  "CONTROL_FEATURES = MESSAGE_ADDRESS_V2 OR SERVER_NAUTILUS_MASK"

record hello =
  he_entity_type :: u8
  he_peer_address :: entity_addr

record client_ident =
  ci_addresses :: entity_addr_vec
  ci_target_address :: entity_addr
  ci_global_id :: i64
  ci_global_sequence :: u64
  ci_supported_features :: u64
  ci_required_features :: u64
  ci_flags :: u64
  ci_cookie :: u64

record server_ident =
  si_addresses :: entity_addr_vec
  si_global_id :: i64
  si_global_sequence :: u64
  si_supported_features :: u64
  si_required_features :: u64
  si_flags :: u64
  si_cookie :: u64

record session_reconnect =
  sr_addresses :: entity_addr_vec
  sr_client_cookie :: u64
  sr_server_cookie :: u64
  sr_global_sequence :: u64
  sr_connect_sequence :: u64
  sr_message_sequence :: u64

record timestamp =
  ts_seconds :: u32
  ts_nanoseconds :: u32

record auth_request =
  ar_method :: u32
  ar_preferred_modes :: "u32 list"
  ar_auth_payload :: bytes

record auth_bad_method =
  abm_method :: u32
  abm_result :: i32
  abm_allowed_methods :: "u32 list"
  abm_allowed_modes :: "u32 list"

record auth_done =
  ad_global_id :: u64
  ad_connection_mode :: u32
  ad_auth_payload :: bytes

datatype control =
    Ctl_Hello hello | Ctl_ClientIdent client_ident | Ctl_ServerIdent server_ident
  | Ctl_IdentMissingFeatures u64 | Ctl_SessionReconnect session_reconnect | Ctl_SessionReset bool
  | Ctl_SessionRetry u64 | Ctl_SessionRetryGlobal u64 | Ctl_SessionReconnectOk u64 | Ctl_Wait
  | Ctl_Keepalive2 timestamp | Ctl_Keepalive2Ack timestamp | Ctl_Ack u64 | Ctl_AuthRequest auth_request
  | Ctl_AuthBadMethod auth_bad_method | Ctl_AuthReplyMore bytes | Ctl_AuthRequestMore bytes
  | Ctl_AuthDone auth_done | Ctl_AuthSignature bytes | Ctl_AuthPayload tag bytes

fun control_tag :: "control \<Rightarrow> frame_error + tag" where
  "control_tag (Ctl_Hello _) = Inr Tag_Hello"
| "control_tag (Ctl_ClientIdent _) = Inr Tag_ClientIdent"
| "control_tag (Ctl_ServerIdent _) = Inr Tag_ServerIdent"
| "control_tag (Ctl_IdentMissingFeatures _) = Inr Tag_IdentMissingFeatures"
| "control_tag (Ctl_SessionReconnect _) = Inr Tag_SessionReconnect"
| "control_tag (Ctl_SessionReset _) = Inr Tag_SessionReset"
| "control_tag (Ctl_SessionRetry _) = Inr Tag_SessionRetry"
| "control_tag (Ctl_SessionRetryGlobal _) = Inr Tag_SessionRetryGlobal"
| "control_tag (Ctl_SessionReconnectOk _) = Inr Tag_SessionReconnectOk"
| "control_tag Ctl_Wait = Inr Tag_Wait"
| "control_tag (Ctl_Keepalive2 _) = Inr Tag_Keepalive2"
| "control_tag (Ctl_Keepalive2Ack _) = Inr Tag_Keepalive2Ack"
| "control_tag (Ctl_Ack _) = Inr Tag_Ack"
| "control_tag (Ctl_AuthRequest _) = Inr Tag_AuthRequest"
| "control_tag (Ctl_AuthBadMethod _) = Inr Tag_AuthBadMethod"
| "control_tag (Ctl_AuthReplyMore _) = Inr Tag_AuthReplyMore"
| "control_tag (Ctl_AuthRequestMore _) = Inr Tag_AuthRequestMore"
| "control_tag (Ctl_AuthDone _) = Inr Tag_AuthDone"
| "control_tag (Ctl_AuthSignature _) = Inr Tag_AuthSignature"
| "control_tag (Ctl_AuthPayload t _) =
     (if tag_u8 t \<ge> tag_u8 Tag_AuthRequest \<and> tag_u8 t \<le> tag_u8 Tag_AuthSignature then Inr t
      else Inl FE_Malformed)"

definition check_addresses :: "entity_addr_vec \<Rightarrow> frame_limits \<Rightarrow> frame_error + unit" where
  "check_addresses as limits =
     (if length as > unat (max_addresses limits) then Inl FE_LimitExceeded else Inr ())"

definition check_auth_bytes :: "bytes \<Rightarrow> frame_limits \<Rightarrow> frame_error + unit" where
  "check_auth_bytes payload limits =
     (if length payload > unat (max_auth_bytes limits) then Inl FE_LimitExceeded else Inr ())"

definition encode_u32_slice :: "u32 list \<Rightarrow> u32 \<Rightarrow> encoder \<Rightarrow> frame_error + encoder" where
  "encode_u32_slice values max_bytes e =
     (if length values \<ge> 2 ^ 32 then Inl FE_LimitExceeded
      else if length values * 4 \<ge> 2 ^ 32 then Inl FE_LimitExceeded
      else if length values * 4 > unat max_bytes then Inl FE_LimitExceeded
      else Inr (fold enc_u32 values (enc_u32 (of_nat (length values)) e)))"

abbreviation wire_result :: "wire_error + 'a \<Rightarrow> frame_error + 'a" where
  "wire_result r \<equiv> map_err frame_error_of_wire r"

fun encode_control :: "control \<Rightarrow> frame_limits \<Rightarrow> encoder \<Rightarrow> frame_error + encoder" where
  "encode_control (Ctl_Hello v) limits e =
     wire_result (addr_encode (he_peer_address v) CONTROL_FEATURES (enc_u8 (he_entity_type v) e))"
| "encode_control (Ctl_ClientIdent v) limits e =
     rbind (check_addresses (ci_addresses v) limits) (\<lambda>_.
     rbind (wire_result (addrvec_encode (ci_addresses v) CONTROL_FEATURES e)) (\<lambda>e.
     rbind (wire_result (addr_encode (ci_target_address v) CONTROL_FEATURES e)) (\<lambda>e.
       Inr (enc_u64 (ci_cookie v) (enc_u64 (ci_flags v) (enc_u64 (ci_required_features v)
         (enc_u64 (ci_supported_features v) (enc_u64 (ci_global_sequence v)
         (enc_i64 (ci_global_id v) e)))))))))"
| "encode_control (Ctl_ServerIdent v) limits e =
     rbind (check_addresses (si_addresses v) limits) (\<lambda>_.
     rbind (wire_result (addrvec_encode (si_addresses v) CONTROL_FEATURES e)) (\<lambda>e.
       Inr (enc_u64 (si_cookie v) (enc_u64 (si_flags v) (enc_u64 (si_required_features v)
         (enc_u64 (si_supported_features v) (enc_u64 (si_global_sequence v)
         (enc_i64 (si_global_id v) e))))))))"
| "encode_control (Ctl_IdentMissingFeatures features) limits e = Inr (enc_u64 features e)"
| "encode_control (Ctl_SessionReconnect v) limits e =
     rbind (check_addresses (sr_addresses v) limits) (\<lambda>_.
     rbind (wire_result (addrvec_encode (sr_addresses v) CONTROL_FEATURES e)) (\<lambda>e.
       Inr (enc_u64 (sr_message_sequence v) (enc_u64 (sr_connect_sequence v)
         (enc_u64 (sr_global_sequence v) (enc_u64 (sr_server_cookie v)
         (enc_u64 (sr_client_cookie v) e)))))))"
| "encode_control (Ctl_SessionReset full) limits e = Inr (enc_bool full e)"
| "encode_control (Ctl_SessionRetry n) limits e = Inr (enc_u64 n e)"
| "encode_control (Ctl_SessionRetryGlobal n) limits e = Inr (enc_u64 n e)"
| "encode_control (Ctl_SessionReconnectOk n) limits e = Inr (enc_u64 n e)"
| "encode_control Ctl_Wait limits e = Inr e"
| "encode_control (Ctl_Keepalive2 t) limits e = Inr (enc_u32 (ts_nanoseconds t) (enc_u32 (ts_seconds t) e))"
| "encode_control (Ctl_Keepalive2Ack t) limits e = Inr (enc_u32 (ts_nanoseconds t) (enc_u32 (ts_seconds t) e))"
| "encode_control (Ctl_Ack n) limits e = Inr (enc_u64 n e)"
| "encode_control (Ctl_AuthRequest v) limits e =
     rbind (check_auth_bytes (ar_auth_payload v) limits) (\<lambda>_.
     rbind (encode_u32_slice (ar_preferred_modes v) (max_auth_bytes limits) (enc_u32 (ar_method v) e)) (\<lambda>e.
       Inr (enc_lbytes (ar_auth_payload v) e)))"
| "encode_control (Ctl_AuthBadMethod v) limits e =
     rbind (encode_u32_slice (abm_allowed_methods v) (max_auth_bytes limits)
              (enc_i32 (abm_result v) (enc_u32 (abm_method v) e))) (\<lambda>e.
       encode_u32_slice (abm_allowed_modes v) (max_auth_bytes limits) e)"
| "encode_control (Ctl_AuthReplyMore payload) limits e =
     rbind (check_auth_bytes payload limits) (\<lambda>_. Inr (enc_lbytes payload e))"
| "encode_control (Ctl_AuthRequestMore payload) limits e =
     rbind (check_auth_bytes payload limits) (\<lambda>_. Inr (enc_lbytes payload e))"
| "encode_control (Ctl_AuthDone v) limits e =
     rbind (check_auth_bytes (ad_auth_payload v) limits) (\<lambda>_.
       Inr (enc_lbytes (ad_auth_payload v) (enc_u32 (ad_connection_mode v) (enc_u64 (ad_global_id v) e))))"
| "encode_control (Ctl_AuthSignature signature) limits e = Inr (enc_raw signature e)"
| "encode_control (Ctl_AuthPayload t payload) limits e =
     rbind (check_auth_bytes payload limits) (\<lambda>_. Inr (enc_raw payload e))"

definition control_encode :: "control \<Rightarrow> frame_limits \<Rightarrow> frame_error + frame" where
  "control_encode c limits =
     rbind (control_tag c) (\<lambda>t.
     rbind (encode_control c limits (enc_new (unat (max_segment_bytes limits)))) (\<lambda>e.
     rbind (wire_result (enc_finish e)) (\<lambda>data.
       Inr \<lparr>frame_tag = t, frame_segments = [\<lparr>seg_alignment = DEFAULT_ALIGNMENT, seg_data = data\<rparr>]\<rparr>)))"

definition decode_u32_slice :: "decoder \<Rightarrow> u32 \<Rightarrow> frame_error + (u32 list \<times> decoder)" where
  "decode_u32_slice d max_bytes =
     (let (count, d) = dec_u32 d in
      if unat count * 4 \<ge> 2 ^ 32 then Inl FE_LimitExceeded
      else if unat count * 4 > unat max_bytes then Inl FE_LimitExceeded
      else if unat count * 4 > dec_remaining d then Inl FE_Malformed
      else Inr (dec_times dec_u32 (unat count) d))"

definition decode_auth_bytes :: "decoder \<Rightarrow> frame_limits \<Rightarrow> frame_error + (bytes \<times> decoder)" where
  "decode_auth_bytes d limits =
     (let (len, d) = dec_u32 d in
      if len > max_auth_bytes limits then Inl FE_LimitExceeded
      else if unat len > dec_remaining d then Inl FE_Malformed
      else Inr (dec_raw (unat len) d))"

definition decode_timestamp :: "decoder \<Rightarrow> frame_error + (timestamp \<times> decoder)" where
  "decode_timestamp d =
     (let (seconds, d) = dec_u32 d; (nanoseconds, d) = dec_u32 d in
      rbind (wire_result (dec_finish d)) (\<lambda>_.
      if nanoseconds \<ge> 1000000000 then Inl FE_Malformed
      else Inr (\<lparr>ts_seconds = seconds, ts_nanoseconds = nanoseconds\<rparr>, d)))"

abbreviation dec_u64_as :: "(u64 \<Rightarrow> control) \<Rightarrow> decoder \<Rightarrow> frame_error + (control \<times> decoder)" where
  "dec_u64_as f d \<equiv> (let (v, d) = dec_u64 d in Inr (f v, d))"

fun decode_payload :: "tag \<Rightarrow> decoder \<Rightarrow> frame_limits \<Rightarrow> frame_error + (control \<times> decoder)" where
  "decode_payload Tag_Hello d limits =
     (let (ty, d) = dec_u8 d in
      rbind (wire_result (addr_decode d)) (\<lambda>(a, d).
        Inr (Ctl_Hello \<lparr>he_entity_type = ty, he_peer_address = a\<rparr>, d)))"
| "decode_payload Tag_ClientIdent d limits =
     rbind (wire_result (addrvec_decode d (max_addresses limits))) (\<lambda>(addrs, d).
     rbind (wire_result (addr_decode d)) (\<lambda>(target, d).
       let (gid, d) = dec_i64 d; (gseq, d) = dec_u64 d; (sup, d) = dec_u64 d; (req, d) = dec_u64 d;
           (flags, d) = dec_u64 d; (cookie, d) = dec_u64 d in
       Inr (Ctl_ClientIdent \<lparr>ci_addresses = addrs, ci_target_address = target, ci_global_id = gid,
              ci_global_sequence = gseq, ci_supported_features = sup, ci_required_features = req,
              ci_flags = flags, ci_cookie = cookie\<rparr>, d)))"
| "decode_payload Tag_ServerIdent d limits =
     rbind (wire_result (addrvec_decode d (max_addresses limits))) (\<lambda>(addrs, d).
       let (gid, d) = dec_i64 d; (gseq, d) = dec_u64 d; (sup, d) = dec_u64 d; (req, d) = dec_u64 d;
           (flags, d) = dec_u64 d; (cookie, d) = dec_u64 d in
       Inr (Ctl_ServerIdent \<lparr>si_addresses = addrs, si_global_id = gid, si_global_sequence = gseq,
              si_supported_features = sup, si_required_features = req, si_flags = flags,
              si_cookie = cookie\<rparr>, d))"
| "decode_payload Tag_IdentMissingFeatures d limits = dec_u64_as Ctl_IdentMissingFeatures d"
| "decode_payload Tag_SessionReconnect d limits =
     rbind (wire_result (addrvec_decode d (max_addresses limits))) (\<lambda>(addrs, d).
       let (cc, d) = dec_u64 d; (sc, d) = dec_u64 d; (gs, d) = dec_u64 d; (cs, d) = dec_u64 d;
           (ms, d) = dec_u64 d in
       Inr (Ctl_SessionReconnect \<lparr>sr_addresses = addrs, sr_client_cookie = cc, sr_server_cookie = sc,
              sr_global_sequence = gs, sr_connect_sequence = cs, sr_message_sequence = ms\<rparr>, d))"
| "decode_payload Tag_SessionReset d limits =
     (let (encoded, d) = dec_u8 d in
      if encoded > 1 then Inl FE_Malformed else Inr (Ctl_SessionReset (encoded = 1), d))"
| "decode_payload Tag_SessionRetry d limits = dec_u64_as Ctl_SessionRetry d"
| "decode_payload Tag_SessionRetryGlobal d limits = dec_u64_as Ctl_SessionRetryGlobal d"
| "decode_payload Tag_SessionReconnectOk d limits = dec_u64_as Ctl_SessionReconnectOk d"
| "decode_payload Tag_Wait d limits = Inr (Ctl_Wait, d)"
| "decode_payload Tag_Keepalive2 d limits =
     rbind (decode_timestamp d) (\<lambda>(t, d). Inr (Ctl_Keepalive2 t, d))"
| "decode_payload Tag_Keepalive2Ack d limits =
     rbind (decode_timestamp d) (\<lambda>(t, d). Inr (Ctl_Keepalive2Ack t, d))"
| "decode_payload Tag_Ack d limits = dec_u64_as Ctl_Ack d"
| "decode_payload Tag_AuthRequest d limits =
     (let (method, d) = dec_u32 d in
      rbind (decode_u32_slice d (max_auth_bytes limits)) (\<lambda>(modes, d).
      rbind (decode_auth_bytes d limits) (\<lambda>(payload, d).
        Inr (Ctl_AuthRequest \<lparr>ar_method = method, ar_preferred_modes = modes, ar_auth_payload = payload\<rparr>, d))))"
| "decode_payload Tag_AuthBadMethod d limits =
     (let (method, d) = dec_u32 d; (result, d) = dec_i32 d in
      rbind (decode_u32_slice d (max_auth_bytes limits)) (\<lambda>(methods, d).
      rbind (decode_u32_slice d (max_auth_bytes limits)) (\<lambda>(modes, d).
        Inr (Ctl_AuthBadMethod \<lparr>abm_method = method, abm_result = result, abm_allowed_methods = methods,
               abm_allowed_modes = modes\<rparr>, d))))"
| "decode_payload Tag_AuthReplyMore d limits =
     rbind (decode_auth_bytes d limits) (\<lambda>(payload, d). Inr (Ctl_AuthReplyMore payload, d))"
| "decode_payload Tag_AuthRequestMore d limits =
     rbind (decode_auth_bytes d limits) (\<lambda>(payload, d). Inr (Ctl_AuthRequestMore payload, d))"
| "decode_payload Tag_AuthDone d limits =
     (let (gid, d) = dec_u64 d; (mode, d) = dec_u32 d in
      rbind (decode_auth_bytes d limits) (\<lambda>(payload, d).
        Inr (Ctl_AuthDone \<lparr>ad_global_id = gid, ad_connection_mode = mode, ad_auth_payload = payload\<rparr>, d)))"
| "decode_payload Tag_AuthSignature d limits =
     (let (signature, d) = dec_raw 32 d in
      if length signature \<noteq> 32 then Inl FE_Malformed else Inr (Ctl_AuthSignature signature, d))"
| "decode_payload Tag_Message d limits = Inl FE_Malformed"
| "decode_payload Tag_CompressionRequest d limits = Inl FE_Malformed"
| "decode_payload Tag_CompressionDone d limits = Inl FE_Malformed"

definition control_decode :: "frame \<Rightarrow> frame_limits \<Rightarrow> frame_error + control" where
  "control_decode f limits =
     (if frame_tag f = Tag_CompressionRequest \<or> frame_tag f = Tag_CompressionDone
      then Inl FE_UnsupportedPayload
      else if frame_tag f = Tag_Message \<or> tag_u8 (frame_tag f) < tag_u8 Tag_Hello \<or>
              tag_u8 (frame_tag f) > tag_u8 Tag_Ack \<or> length (frame_segments f) \<noteq> 1 \<or>
              seg_alignment (frame_segments f ! 0) \<noteq> DEFAULT_ALIGNMENT
      then Inl FE_Malformed
      else
        let data = seg_data (frame_segments f ! 0) in
        if length data > unat (max_segment_bytes limits) then Inl FE_LimitExceeded
        else
          rbind (decode_payload (frame_tag f) (dec_new data (unat (max_segment_bytes limits))) limits) (\<lambda>(c, d).
          rbind (wire_result (dec_finish d)) (\<lambda>_.
          if dec_remaining d \<noteq> 0 then Inl FE_Malformed else Inr c)))"

section \<open>Message round trips\<close>

definition header_image :: "message_header \<Rightarrow> bytes" where
  "header_image h = to_le_bytes (mh_sequence h) @ to_le_bytes (mh_transaction_id h) @
     to_le_bytes (mh_message_type h) @ to_le_bytes (mh_priority h) @ to_le_bytes (mh_version h) @
     to_le_bytes (mh_data_pre_padding_length h) @ to_le_bytes (mh_data_offset h) @
     to_le_bytes (mh_ack_sequence h) @ [mh_flags h] @ to_le_bytes (mh_compat_version h) @
     to_le_bytes (mh_reserved h)"

lemma length_header_image [simp]: "length (header_image h) = 41"
  by (simp add: header_image_def)

lemma emits_finish:
  assumes "emits (enc_new l) e xs"
  shows "enc_finish e = (if length xs \<le> l then Inr xs else Inl WE_LimitExceeded) \<or>
    \<not> length xs \<le> l \<and> (\<exists>err. enc_finish e = Inl err)"
  using emitsD(4-6) [OF assms] by (cases "enc_error e") (auto simp: enc_new_def enc_finish_def)

lemma header_encode_total: "header_encode h = Inr (header_image h)"
proof -
  let ?e = "enc_u16 (mh_reserved h) (enc_u16 (mh_compat_version h) (enc_u8 (mh_flags h)
       (enc_u64 (mh_ack_sequence h) (enc_u16 (mh_data_offset h) (enc_u32 (mh_data_pre_padding_length h)
       (enc_u16 (mh_version h) (enc_u16 (mh_priority h) (enc_u16 (mh_message_type h)
       (enc_u64 (mh_transaction_id h) (enc_u64 (mh_sequence h) (enc_new 41)))))))))))"
  have "emits (enc_new 41) ?e (header_image h)"
    by (rule emits_eq, (rule emits_step)+, rule emits_refl) (simp_all add: header_image_def)
  from emits_finish [OF this] show ?thesis by (simp add: header_encode_def MESSAGE_HEADER_SIZE_def)
qed

lemma header_bytes_eq [simp]: "header_bytes h = header_image h"
  by (simp add: header_bytes_def header_encode_total)

lemma header_decode_image [simp]: "header_decode (header_image h) = Inr h"
  by (simp add: header_decode_def MESSAGE_HEADER_SIZE_def) (simp add: header_image_def)

lemma checked_length_Inr [simp]: "checked_length n = Inr w \<longleftrightarrow> n < 2 ^ 32 \<and> w = of_nat n"
  by (auto simp: checked_length_def)

lemma validate_each_mono:
  "validate_each limits ps n = Inr k \<Longrightarrow> n' \<le> n \<Longrightarrow> \<exists>k'. validate_each limits ps n' = Inr k' \<and> k' \<le> k"
  by (induction limits ps n arbitrary: n' rule: validate_each.induct) (auto split: if_splits)

lemma validate_each_prefix:
  "validate_each limits (ps @ qs) n = Inr k \<Longrightarrow> \<exists>k'. validate_each limits ps n = Inr k' \<and> k' \<le> k"
proof (induction limits ps n rule: validate_each.induct)
  case (1 limits n)
  have "n \<le> k" if "validate_each limits qs n = Inr k" for n
    using that by (induction limits qs n rule: validate_each.induct) (auto split: if_splits)
  then show ?case using 1 by simp
qed (auto split: if_splits)

lemma zip_take_length: "zip xs (take (length xs) ys) = zip xs ys"
proof (induction xs arbitrary: ys)
  case (Cons x xs)
  then show ?case by (cases ys) auto
qed simp

lemma validate_segments_prefix:
  assumes "validate_segments (xs @ ys) limits = Inr ()" "length (xs @ ys) \<le> 4"
  shows "validate_segments xs limits = Inr ()"
proof -
  obtain k where k: "validate_each limits (zip (xs @ ys) MESSAGE_ALIGNMENTS) 0 = Inr k"
      "k \<le> unat (max_frame_bytes limits)"
    using assms(1) by (auto simp: validate_segments_def split: if_splits)
  have "zip (xs @ ys) MESSAGE_ALIGNMENTS =
      zip xs (take (length xs) MESSAGE_ALIGNMENTS) @ zip ys (drop (length xs) MESSAGE_ALIGNMENTS)"
    by (rule zip_append1)
  moreover have "zip xs (take (length xs) MESSAGE_ALIGNMENTS) = zip xs MESSAGE_ALIGNMENTS"
    by (rule zip_take_length)
  ultimately obtain k' where "validate_each limits (zip xs MESSAGE_ALIGNMENTS) 0 = Inr k'" "k' \<le> k"
    using validate_each_prefix k(1) by metis
  then show ?thesis using k(2) by (simp add: validate_segments_def)
qed

text \<open>Dropping the trailing empty segments, as the frame codec does, loses nothing.\<close>

lemma trim_empty_four:
  "trim_empty [a, b, c, d] =
     (if seg_data d \<noteq> [] then [a, b, c, d] else if seg_data c \<noteq> [] then [a, b, c]
      else if seg_data b \<noteq> [] then [a, b] else [a])"
  by (simp add: trim_empty.simps)

lemma message_decode_trimmed:
  assumes "message_encode m limits = Inr f"
  shows "message_decode \<lparr>frame_tag = frame_tag f, frame_segments = trim_empty (frame_segments f)\<rparr> limits = Inr m"
    and "message_decode f limits = Inr m"
proof -
  define h where "h = \<lparr>seg_alignment = DEFAULT_ALIGNMENT, seg_data = header_image (m_header m)\<rparr>"
  define a where "a = \<lparr>seg_alignment = DEFAULT_ALIGNMENT, seg_data = m_front m\<rparr>"
  define b where "b = \<lparr>seg_alignment = DEFAULT_ALIGNMENT, seg_data = m_middle m\<rparr>"
  define c where "c = \<lparr>seg_alignment = PAGE_ALIGNMENT, seg_data = m_data m\<rparr>"
  have len: "length (m_front m) < 2 ^ 32" "length (m_middle m) < 2 ^ 32" "length (m_data m) < 2 ^ 32"
    and ml: "m_lengths m = \<lparr>ml_front = of_nat (length (m_front m)), ml_middle = of_nat (length (m_middle m)),
        ml_data = of_nat (length (m_data m))\<rparr>"
    and pad: "mh_data_pre_padding_length (m_header m) \<le> of_nat (length (m_data m))"
    and val: "validate_segments [h, a, b, c] limits = Inr ()"
    and f: "f = \<lparr>frame_tag = Tag_Message, frame_segments = [h, a, b, c]\<rparr>"
    using assms by (auto simp: message_encode_def Let_def h_def a_def b_def c_def split: if_splits)
  have p: "unat (mh_data_pre_padding_length (m_header m)) \<le> length (m_data m)"
    using pad len(3) by (simp add: word_le_nat_alt unat_of_nat)
  have prefixes: "validate_segments [h, a, b] limits = Inr ()" "validate_segments [h, a] limits = Inr ()"
    "validate_segments [h] limits = Inr ()"
    using validate_segments_prefix [of "[h, a, b]" "[c]" limits] validate_segments_prefix [of "[h, a]" "[b, c]" limits]
      validate_segments_prefix [of "[h]" "[a, b, c]" limits] val by simp_all
  have data: "seg_data h = header_image (m_header m)" "seg_data a = m_front m" "seg_data b = m_middle m"
      "seg_data c = m_data m" by (simp_all add: h_def a_def b_def c_def)
  note simps = message_decode_def f segment_data_def data Let_def MESSAGE_ALIGNMENTS_def checked_length_def
  show "message_decode f limits = Inr m"
    using val len p by (simp add: simps not_less numeral_3_eq_3 numeral_2_eq_2 flip: ml)
  show "message_decode \<lparr>frame_tag = frame_tag f, frame_segments = trim_empty (frame_segments f)\<rparr> limits = Inr m"
    using val prefixes len p
    by (auto simp: simps trim_empty_four not_less numeral_3_eq_3 numeral_2_eq_2 ml intro!: message.equality)
qed

section \<open>Control round trips\<close>

text \<open>
  The values the types of the model do not rule out: signed ranges, the fixed size of a signature,
  addresses of a known family that carry the hint of the modern encoding (which their equality
  ignores).
\<close>

definition good_addr :: "entity_addr \<Rightarrow> bool" where
  "good_addr a \<longleftrightarrow> addr_wf a \<and> \<not> legacy_encoding a"

fun control_wf :: "control \<Rightarrow> bool" where
  "control_wf (Ctl_Hello v) = good_addr (he_peer_address v)"
| "control_wf (Ctl_ClientIdent v) =
     (list_all good_addr (ci_addresses v) \<and> good_addr (ci_target_address v) \<and> i64_range (ci_global_id v))"
| "control_wf (Ctl_ServerIdent v) = (list_all good_addr (si_addresses v) \<and> i64_range (si_global_id v))"
| "control_wf (Ctl_SessionReconnect v) = list_all good_addr (sr_addresses v)"
| "control_wf (Ctl_AuthBadMethod v) = i32_range (abm_result v)"
| "control_wf (Ctl_AuthSignature s) = (length s = 32)"
| "control_wf _ = True"

text \<open>
  Two kinds of payload are encoded without being their own decoding: the time of a keepalive may
  have too many nanoseconds, which only the decoder checks, and an \<open>AuthPayload\<close> is a raw payload for
  one of the authentication tags, which the receiver decodes as the payload of that tag.
\<close>

fun control_nanoseconds :: "control \<Rightarrow> u32" where
  "control_nanoseconds (Ctl_Keepalive2 t) = ts_nanoseconds t"
| "control_nanoseconds (Ctl_Keepalive2Ack t) = ts_nanoseconds t"
| "control_nanoseconds _ = 0"

fun is_raw :: "control \<Rightarrow> bool" where
  "is_raw (Ctl_AuthPayload _ _) = True"
| "is_raw _ = False"

definition u32s_image :: "u32 list \<Rightarrow> bytes" where
  "u32s_image vs = to_le_bytes (of_nat (length vs) :: u32) @ concat (map to_le_bytes vs)"

fun control_image :: "control \<Rightarrow> bytes" where
  "control_image (Ctl_Hello v) = he_entity_type v # addr_image (he_peer_address v)"
| "control_image (Ctl_ClientIdent v) = addrvec_image (ci_addresses v) @ addr_image (ci_target_address v) @
     to_le_bytes (word_of_int (ci_global_id v) :: u64) @ to_le_bytes (ci_global_sequence v) @
     to_le_bytes (ci_supported_features v) @ to_le_bytes (ci_required_features v) @
     to_le_bytes (ci_flags v) @ to_le_bytes (ci_cookie v)"
| "control_image (Ctl_ServerIdent v) = addrvec_image (si_addresses v) @
     to_le_bytes (word_of_int (si_global_id v) :: u64) @ to_le_bytes (si_global_sequence v) @
     to_le_bytes (si_supported_features v) @ to_le_bytes (si_required_features v) @
     to_le_bytes (si_flags v) @ to_le_bytes (si_cookie v)"
| "control_image (Ctl_IdentMissingFeatures n) = to_le_bytes n"
| "control_image (Ctl_SessionReconnect v) = addrvec_image (sr_addresses v) @
     to_le_bytes (sr_client_cookie v) @ to_le_bytes (sr_server_cookie v) @ to_le_bytes (sr_global_sequence v) @
     to_le_bytes (sr_connect_sequence v) @ to_le_bytes (sr_message_sequence v)"
| "control_image (Ctl_SessionReset full) = [if full then 1 else 0]"
| "control_image (Ctl_SessionRetry n) = to_le_bytes n"
| "control_image (Ctl_SessionRetryGlobal n) = to_le_bytes n"
| "control_image (Ctl_SessionReconnectOk n) = to_le_bytes n"
| "control_image Ctl_Wait = []"
| "control_image (Ctl_Keepalive2 t) = to_le_bytes (ts_seconds t) @ to_le_bytes (ts_nanoseconds t)"
| "control_image (Ctl_Keepalive2Ack t) = to_le_bytes (ts_seconds t) @ to_le_bytes (ts_nanoseconds t)"
| "control_image (Ctl_Ack n) = to_le_bytes n"
| "control_image (Ctl_AuthRequest v) = to_le_bytes (ar_method v) @ u32s_image (ar_preferred_modes v) @
     lbytes_image (ar_auth_payload v)"
| "control_image (Ctl_AuthBadMethod v) = to_le_bytes (abm_method v) @
     to_le_bytes (word_of_int (abm_result v) :: u32) @ u32s_image (abm_allowed_methods v) @
     u32s_image (abm_allowed_modes v)"
| "control_image (Ctl_AuthReplyMore p) = lbytes_image p"
| "control_image (Ctl_AuthRequestMore p) = lbytes_image p"
| "control_image (Ctl_AuthDone v) = to_le_bytes (ad_global_id v) @ to_le_bytes (ad_connection_mode v) @
     lbytes_image (ad_auth_payload v)"
| "control_image (Ctl_AuthSignature s) = s"
| "control_image (Ctl_AuthPayload t p) = p"

lemma good_addr_emits:
  assumes "good_addr a" "enc_wf e" "addr_encode a CONTROL_FEATURES e = Inr e'"
  shows "emits e e' (addr_image a)"
proof -
  have "modern_features CONTROL_FEATURES a"
    using modern_features_control [of CONTROL_FEATURES a]
    by (simp add: features_contains_def CONTROL_FEATURES_def)
  then show ?thesis
    using addr_encode_emits [of a CONTROL_FEATURES e] assms by (auto simp: good_addr_def)
qed

lemma good_addrvec_emits:
  assumes "list_all good_addr as" "enc_wf e" "addrvec_encode as CONTROL_FEATURES e = Inr e'"
    "length as \<le> unat (max_addresses limits)"
  shows "emits e e' (addrvec_image as)"
proof -
  have f: "features_contains CONTROL_FEATURES (MESSAGE_ADDRESS_V2 OR SERVER_NAUTILUS_MASK)"
    by (simp add: features_contains_def CONTROL_FEATURES_def)
  have "length as < 2 ^ 32"
    using assms(4) unsigned_less [of "max_addresses limits", where 'a = nat] by simp
  then show ?thesis
    using addrvec_encode_emits [of as CONTROL_FEATURES e] modern_features_control [OF f] assms
    by (auto simp: list_all_iff good_addr_def)
qed

lemma u32s_emits:
  assumes "encode_u32_slice vs m e = Inr e'" "enc_wf e"
  shows "emits e e' (u32s_image vs)" and "length vs * 4 < 2 ^ 32" and "length vs * 4 \<le> unat m"
proof -
  have e': "e' = fold enc_u32 vs (enc_u32 (of_nat (length vs)) e)"
    and "length vs * 4 < 2 ^ 32" "length vs * 4 \<le> unat m"
    using assms(1) by (auto simp: encode_u32_slice_def split: if_splits)
  then show "length vs * 4 < 2 ^ 32" "length vs * 4 \<le> unat m" by auto
  have "emits (enc_u32 (of_nat (length vs)) e) e' (concat (map to_le_bytes vs))"
    unfolding e' using assms(2) by (intro u32_codec.put_list_emits) auto
  then show "emits e e' (u32s_image vs)"
    using emits_trans [OF enc_fixed_emits(2) [OF assms(2)]] by (auto simp: u32s_image_def)
qed

text \<open>What the encoder checked about a payload.\<close>

fun control_fits :: "control \<Rightarrow> frame_limits \<Rightarrow> bool" where
  "control_fits (Ctl_ClientIdent v) limits = (length (ci_addresses v) \<le> unat (max_addresses limits))"
| "control_fits (Ctl_ServerIdent v) limits = (length (si_addresses v) \<le> unat (max_addresses limits))"
| "control_fits (Ctl_SessionReconnect v) limits = (length (sr_addresses v) \<le> unat (max_addresses limits))"
| "control_fits (Ctl_AuthRequest v) limits =
     (length (ar_auth_payload v) \<le> unat (max_auth_bytes limits) \<and> length (ar_preferred_modes v) * 4 < 2 ^ 32 \<and>
      length (ar_preferred_modes v) * 4 \<le> unat (max_auth_bytes limits))"
| "control_fits (Ctl_AuthBadMethod v) limits =
     (length (abm_allowed_methods v) * 4 < 2 ^ 32 \<and> length (abm_allowed_modes v) * 4 < 2 ^ 32 \<and>
      length (abm_allowed_methods v) * 4 \<le> unat (max_auth_bytes limits) \<and>
      length (abm_allowed_modes v) * 4 \<le> unat (max_auth_bytes limits))"
| "control_fits (Ctl_AuthReplyMore p) limits = (length p \<le> unat (max_auth_bytes limits))"
| "control_fits (Ctl_AuthRequestMore p) limits = (length p \<le> unat (max_auth_bytes limits))"
| "control_fits (Ctl_AuthDone v) limits = (length (ad_auth_payload v) \<le> unat (max_auth_bytes limits))"
| "control_fits _ limits = True"

lemma check_addresses_Inr [simp]:
  "check_addresses as limits = Inr u \<longleftrightarrow> length as \<le> unat (max_addresses limits)"
  by (auto simp: check_addresses_def)

lemma check_auth_bytes_Inr [simp]:
  "check_auth_bytes p limits = Inr u \<longleftrightarrow> length p \<le> unat (max_auth_bytes limits)"
  by (auto simp: check_auth_bytes_def)

lemma map_err_Inr [simp]: "map_err f r = Inr v \<longleftrightarrow> r = Inr v"
  by (cases r) (auto simp: map_err_def)

lemma unat_u32_less: "unat (w :: u32) < 2 ^ 32"
  using unsigned_less [of w, where 'a = nat] by simp

lemma emits_u64s:
  "emits e e' xs \<Longrightarrow> emits e (enc_u64 a e') (xs @ to_le_bytes a)"
  "emits e e' xs \<Longrightarrow> emits e (enc_i64 i e') (xs @ to_le_bytes (word_of_int i :: u64))"
  by (meson emitsD(2) emits_trans enc_fixed_emits)+

lemma emits_lbytes_u32:
  "emits e e' xs \<Longrightarrow> length p \<le> unat (w :: u32) \<Longrightarrow> emits e (enc_lbytes p e') (xs @ lbytes_image p)"
  using unat_u32_less [of w] by (meson emitsD(2) emits_trans enc_lbytes_emits order.strict_trans1)

lemma encode_control_emits:
  assumes wf: "control_wf c" and enc: "encode_control c limits e = Inr e'" and e: "enc_wf e"
  shows "emits e e' (control_image c) \<and> control_fits c limits"
proof (cases c)
  case (Ctl_Hello v)
  then have "emits (enc_u8 (he_entity_type v) e) e' (addr_image (he_peer_address v))"
    using enc wf e good_addr_emits [of "he_peer_address v" "enc_u8 (he_entity_type v) e" e'] by simp
  from emits_trans [OF enc_u8_emits [OF e] this] show ?thesis using Ctl_Hello by simp
next
  case (Ctl_ClientIdent v)
  obtain e1 e2 where s: "length (ci_addresses v) \<le> unat (max_addresses limits)"
      "addrvec_encode (ci_addresses v) CONTROL_FEATURES e = Inr e1"
      "addr_encode (ci_target_address v) CONTROL_FEATURES e1 = Inr e2"
      "e' = enc_u64 (ci_cookie v) (enc_u64 (ci_flags v) (enc_u64 (ci_required_features v)
         (enc_u64 (ci_supported_features v) (enc_u64 (ci_global_sequence v)
         (enc_i64 (ci_global_id v) e2)))))"
    using enc Ctl_ClientIdent by auto
  have i1: "emits e e1 (addrvec_image (ci_addresses v))"
    using good_addrvec_emits [OF _ e s(2,1)] wf Ctl_ClientIdent by simp
  have i2: "emits e1 e2 (addr_image (ci_target_address v))"
    using good_addr_emits [OF _ emitsD(2) [OF i1] s(3)] wf Ctl_ClientIdent by simp
  from emits_u64s(1) [OF emits_u64s(1) [OF emits_u64s(1) [OF emits_u64s(1) [OF emits_u64s(1)
      [OF emits_u64s(2) [OF emits_trans [OF i1 i2]]]]]]]
  show ?thesis using s(1,4) Ctl_ClientIdent by (simp add: s(4))
next
  case (Ctl_ServerIdent v)
  obtain e1 where s: "length (si_addresses v) \<le> unat (max_addresses limits)"
      "addrvec_encode (si_addresses v) CONTROL_FEATURES e = Inr e1"
      "e' = enc_u64 (si_cookie v) (enc_u64 (si_flags v) (enc_u64 (si_required_features v)
         (enc_u64 (si_supported_features v) (enc_u64 (si_global_sequence v)
         (enc_i64 (si_global_id v) e1)))))"
    using enc Ctl_ServerIdent by auto
  have "emits e e1 (addrvec_image (si_addresses v))"
    using good_addrvec_emits [OF _ e s(2,1)] wf Ctl_ServerIdent by simp
  from emits_u64s(1) [OF emits_u64s(1) [OF emits_u64s(1) [OF emits_u64s(1) [OF emits_u64s(1)
      [OF emits_u64s(2) [OF this]]]]]]
  show ?thesis using s(1,3) Ctl_ServerIdent by simp
next
  case (Ctl_SessionReconnect v)
  obtain e1 where s: "length (sr_addresses v) \<le> unat (max_addresses limits)"
      "addrvec_encode (sr_addresses v) CONTROL_FEATURES e = Inr e1"
      "e' = enc_u64 (sr_message_sequence v) (enc_u64 (sr_connect_sequence v)
         (enc_u64 (sr_global_sequence v) (enc_u64 (sr_server_cookie v) (enc_u64 (sr_client_cookie v) e1))))"
    using enc Ctl_SessionReconnect by auto
  have "emits e e1 (addrvec_image (sr_addresses v))"
    using good_addrvec_emits [OF _ e s(2,1)] wf Ctl_SessionReconnect by simp
  from emits_u64s(1) [OF emits_u64s(1) [OF emits_u64s(1) [OF emits_u64s(1) [OF emits_u64s(1) [OF this]]]]]
  show ?thesis using s(1,3) Ctl_SessionReconnect by simp
next
  case (Ctl_AuthRequest v)
  obtain e1 where s: "length (ar_auth_payload v) \<le> unat (max_auth_bytes limits)"
      "encode_u32_slice (ar_preferred_modes v) (max_auth_bytes limits) (enc_u32 (ar_method v) e) = Inr e1"
      "e' = enc_lbytes (ar_auth_payload v) e1"
    using enc Ctl_AuthRequest by auto
  note u = u32s_emits [OF s(2)]
  have "emits e e1 (to_le_bytes (ar_method v) @ u32s_image (ar_preferred_modes v))"
    using emits_trans [OF enc_fixed_emits(2) [OF e] u(1)] e by simp
  from emits_lbytes_u32 [OF this s(1)] show ?thesis using u(2,3) e s Ctl_AuthRequest by simp
next
  case (Ctl_AuthBadMethod v)
  obtain e1 where s: "encode_u32_slice (abm_allowed_methods v) (max_auth_bytes limits)
        (enc_i32 (abm_result v) (enc_u32 (abm_method v) e)) = Inr e1"
      "encode_u32_slice (abm_allowed_modes v) (max_auth_bytes limits) e1 = Inr e'"
    using enc Ctl_AuthBadMethod by auto
  note u1 = u32s_emits [OF s(1)] and u2 = u32s_emits [OF s(2)]
  have "emits e (enc_i32 (abm_result v) (enc_u32 (abm_method v) e))
      (to_le_bytes (abm_method v) @ to_le_bytes (word_of_int (abm_result v) :: u32))"
    using emits_trans [OF enc_fixed_emits(2) [OF e] enc_fixed_emits(4)] e by simp
  note i = emits_trans [OF this u1(1)]
  have w: "enc_wf (enc_i32 (abm_result v) (enc_u32 (abm_method v) e))" using e by simp
  from emits_trans [OF i [OF w] u2(1) [OF emitsD(2) [OF u1(1) [OF w]]]] show ?thesis
    using u1(2,3) [OF w] u2(2,3) [OF emitsD(2) [OF u1(1) [OF w]]] Ctl_AuthBadMethod by simp
next
  case (Ctl_AuthReplyMore p)
  then show ?thesis using enc emits_lbytes_u32 [OF emits_refl [OF e]] by auto
next
  case (Ctl_AuthRequestMore p)
  then show ?thesis using enc emits_lbytes_u32 [OF emits_refl [OF e]] by auto
next
  case (Ctl_AuthDone v)
  have "emits e (enc_u32 (ad_connection_mode v) (enc_u64 (ad_global_id v) e))
      (to_le_bytes (ad_global_id v) @ to_le_bytes (ad_connection_mode v))"
    using emits_trans [OF enc_fixed_emits(3) [OF e] enc_fixed_emits(2)] e by simp
  from emits_lbytes_u32 [OF this, of "ad_auth_payload v" "max_auth_bytes limits"] show ?thesis
    using enc Ctl_AuthDone by auto
next
  case (Ctl_Keepalive2 t)
  have "emits e (enc_u32 (ts_nanoseconds t) (enc_u32 (ts_seconds t) e))
      (to_le_bytes (ts_seconds t) @ to_le_bytes (ts_nanoseconds t))"
    using emits_trans [OF enc_fixed_emits(2) [OF e] enc_fixed_emits(2)] e by simp
  then show ?thesis using enc Ctl_Keepalive2 by auto
next
  case (Ctl_Keepalive2Ack t)
  have "emits e (enc_u32 (ts_nanoseconds t) (enc_u32 (ts_seconds t) e))
      (to_le_bytes (ts_seconds t) @ to_le_bytes (ts_nanoseconds t))"
    using emits_trans [OF enc_fixed_emits(2) [OF e] enc_fixed_emits(2)] e by simp
  then show ?thesis using enc Ctl_Keepalive2Ack by auto
next
  case (Ctl_SessionReset full)
  then show ?thesis using enc enc_fixed_emits(6) [OF e, of full] by simp
qed (use enc wf e in \<open>auto intro: emits_intro emits_refl\<close>)

lemma dec_u32s_rdr:
  "dec_times dec_u32 (length vs) (rdr pre (concat (map to_le_bytes vs) @ rest) m) =
     (vs, rdr (pre @ concat (map to_le_bytes vs)) rest m)"
  using u32_codec.get_list_image [of vs "rdr pre (concat (map to_le_bytes vs) @ rest) m" rest] by simp

lemma length_concat_u32s: "length (concat (map to_le_bytes (vs :: u32 list))) = length vs * 4"
  by (induction vs) auto

lemma decode_u32_slice_rdr [simp]:
  assumes "length vs * 4 < 2 ^ 32" "length vs * 4 \<le> unat mb"
  shows "decode_u32_slice (rdr pre (u32s_image vs @ rest) m) mb = Inr (vs, rdr (pre @ u32s_image vs) rest m)"
    and "decode_u32_slice (rdr pre (u32s_image vs) m) mb = Inr (vs, rdr (pre @ u32s_image vs) [] m)"
proof -
  have n: "unat (of_nat (length vs) :: u32) = length vs" using assms(1) by (simp add: unat_of_nat)
  show *: "decode_u32_slice (rdr pre (u32s_image vs @ rest) m) mb = Inr (vs, rdr (pre @ u32s_image vs) rest m)"
    for rest
    using assms n dec_u32s_rdr [of vs "pre @ to_le_bytes (of_nat (length vs) :: u32)" rest m]
    by (simp add: decode_u32_slice_def u32s_image_def length_concat_u32s)
  show "decode_u32_slice (rdr pre (u32s_image vs) m) mb = Inr (vs, rdr (pre @ u32s_image vs) [] m)"
    using * [of "[]"] by simp
qed

lemma decode_auth_bytes_rdr [simp]:
  assumes "length p \<le> unat (max_auth_bytes limits)"
  shows "decode_auth_bytes (rdr pre (lbytes_image p @ rest) m) limits =
      Inr (p, rdr (pre @ lbytes_image p) rest m)"
    and "decode_auth_bytes (rdr pre (lbytes_image p) m) limits = Inr (p, rdr (pre @ lbytes_image p) [] m)"
proof -
  have n: "unat (of_nat (length p) :: u32) = length p"
    using assms unat_u32_less [of "max_auth_bytes limits"] by (simp add: unat_of_nat)
  show *: "decode_auth_bytes (rdr pre (lbytes_image p @ rest) m) limits =
      Inr (p, rdr (pre @ lbytes_image p) rest m)" for rest
    using assms n by (simp add: decode_auth_bytes_def lbytes_image_def word_less_nat_alt)
  show "decode_auth_bytes (rdr pre (lbytes_image p) m) limits = Inr (p, rdr (pre @ lbytes_image p) [] m)"
    using * [of "[]"] by simp
qed

lemma decode_timestamp_rdr [simp]:
  assumes "ts_nanoseconds t < 1000000000"
  shows "decode_timestamp (rdr pre (to_le_bytes (ts_seconds t) @ to_le_bytes (ts_nanoseconds t)) m) =
    Inr (t, rdr (pre @ to_le_bytes (ts_seconds t) @ to_le_bytes (ts_nanoseconds t)) [] m)"
  using assms by (simp add: decode_timestamp_def not_le)

lemma good_addr_rdr:
  assumes "good_addr a" "length (addr_image a) \<le> m"
  shows "addr_decode (rdr pre (addr_image a @ rest) m) = Inr (a, rdr (pre @ addr_image a) rest m)"
  using assms by (intro addr_decode_rdr) (auto simp: good_addr_def addr_image_def)

lemma good_addrvec_rdr:
  assumes "list_all good_addr as" "length (addrvec_image as) \<le> m" "length as \<le> unat (max_addresses limits)"
  shows "addrvec_decode (rdr pre (addrvec_image as @ rest) m) (max_addresses limits) =
    Inr (as, rdr (pre @ addrvec_image as) rest m)"
proof -
  have "length (addr_payload a) \<le> length (concat (map addr_image as))" if "a \<in> set as" for a
    using that by (induction as) (auto simp: addr_image_def)
  then have "list_all (\<lambda>a. length (addr_payload a) \<le> m) as"
    using assms(2) by (fastforce simp: list_all_iff addrvec_image_def)
  then show ?thesis
    using assms by (intro addrvec_decode_rdr) (auto simp: good_addr_def list_all_iff)
qed

lemma decode_payload_image:
  assumes "control_wf c" "control_fits c limits" "length (control_image c) \<le> m" "control_tag c = Inr t" "\<not> is_raw c"
  shows "decode_payload t (rdr [] (control_image c) m) limits =
    (if control_nanoseconds c \<ge> 1000000000 then Inl FE_Malformed else Inr (c, rdr (control_image c) [] m))"
proof (cases c)
  case (Ctl_Hello v)
  then show ?thesis
    using assms good_addr_rdr [of "he_peer_address v" m "[he_entity_type v]" "[]"]
    by (auto simp: Let_def dec_eval)
next
  case (Ctl_ClientIdent v)
  then show ?thesis using assms by (auto simp: Let_def good_addr_rdr good_addrvec_rdr)
next
  case (Ctl_ServerIdent v)
  then show ?thesis using assms by (auto simp: Let_def good_addr_rdr good_addrvec_rdr)
next
  case (Ctl_SessionReconnect v)
  then show ?thesis using assms by (auto simp: Let_def good_addr_rdr good_addrvec_rdr)
next
  case (Ctl_SessionReset full)
  then show ?thesis using assms by (auto simp: Let_def dec_eval)
next
  case (Ctl_AuthSignature sig)
  then show ?thesis using assms by (auto simp: Let_def)
next
  case (Ctl_Keepalive2 t)
  then show ?thesis using assms by (auto simp: decode_timestamp_def)
next
  case (Ctl_Keepalive2Ack t)
  then show ?thesis using assms by (auto simp: decode_timestamp_def)
qed (use assms in \<open>auto simp: Let_def\<close>)

lemma control_tag_range:
  assumes "control_tag c = Inr t" "\<not> is_raw c"
  shows "t \<noteq> Tag_Message \<and> t \<noteq> Tag_CompressionRequest \<and> t \<noteq> Tag_CompressionDone \<and>
    tag_u8 Tag_Hello \<le> tag_u8 t \<and> tag_u8 t \<le> tag_u8 Tag_Ack"
  using assms by (cases c) auto

section \<open>Properties\<close>

text \<open>
  C19: a message that encodes to a frame which the CRC codec puts on the wire is recovered by the
  peer: reading the bytes and decoding the frame returns the same header, lengths and sections.
\<close>

theorem message_wire_roundtrip:
  assumes "message_encode m limits = Inr f" "crc_encode crc w f limits = Inr bs"
  shows "\<exists>f'. crc_read crc w (bs @ rest) limits = Inr (f', rest) \<and> message_decode f' limits = Inr m"
  using crc_read_encoded [OF assms(2), of "\<lambda>_ _. Inr ()" rest] message_decode_trimmed(1) [OF assms(1)]
  by (auto simp: crc_read_def)

definition sample_message :: message where
  "sample_message = \<lparr>m_header = \<lparr>mh_sequence = 1, mh_transaction_id = 2, mh_message_type = 42, mh_priority = 0,
     mh_version = 8, mh_data_pre_padding_length = 0, mh_data_offset = 0, mh_ack_sequence = 0, mh_flags = 0,
     mh_compat_version = 1, mh_reserved = 0\<rparr>,
     m_lengths = \<lparr>ml_front = 2, ml_middle = 0, ml_data = 0\<rparr>, m_front = [5, 6], m_middle = [], m_data = []\<rparr>"

lemma sample_message_encodes:
  "\<exists>f bs. message_encode sample_message sample_frame_limits = Inr f \<and>
     crc_encode (\<lambda>seed _. seed) True f sample_frame_limits = Inr bs"
  by (simp add: message_encode_def sample_message_def sample_frame_limits_def checked_length_def Let_def
      validate_segments_def MESSAGE_ALIGNMENTS_def crc_encode_def normalized_segments_def MAX_SEGMENTS_def
      trim_empty_four descriptors_and_crc_size_def crc_size_from_descriptors_def PREAMBLE_SIZE_def
      valid_alignment_def is_power_of_two_def upt_rec DEFAULT_ALIGNMENT_def PAGE_ALIGNMENT_def)

theorem message_wire_roundtrip_witness:
  "\<exists>f bs f'. message_encode sample_message sample_frame_limits = Inr f \<and>
     crc_encode (\<lambda>seed _. seed) True f sample_frame_limits = Inr bs \<and>
     crc_read (\<lambda>seed _. seed) True (bs @ [9]) sample_frame_limits = Inr (f', [9]) \<and>
     message_decode f' sample_frame_limits = Inr sample_message"
  using sample_message_encodes message_wire_roundtrip by blast

text \<open>
  C20: every control payload but a raw \<open>AuthPayload\<close> that encodes within the limits decodes from its
  frame to itself, with the tag it was given; the exception is a keepalive whose time has a billion
  nanoseconds or more, which encodes and is refused by the decoder.  Signed fields are in range, a
  signature has its 32 bytes, and addresses are of a known family and in the modern encoding.
\<close>

theorem control_roundtrip:
  assumes "control_wf c" "\<not> is_raw c" "control_encode c limits = Inr f"
  shows "control_decode f limits = (if control_nanoseconds c \<ge> 1000000000 then Inl FE_Malformed else Inr c) \<and>
    control_tag c = Inr (frame_tag f)"
proof -
  obtain t e data where t: "control_tag c = Inr t"
    and e: "encode_control c limits (enc_new (unat (max_segment_bytes limits))) = Inr e"
    and data: "enc_finish e = Inr data"
    and f: "f = \<lparr>frame_tag = t, frame_segments = [\<lparr>seg_alignment = DEFAULT_ALIGNMENT, seg_data = data\<rparr>]\<rparr>"
    using assms(3) by (auto simp: control_encode_def)
  note em = encode_control_emits [OF assms(1) e enc_wf_new]
  have "data = control_image c" "length (control_image c) \<le> unat (max_segment_bytes limits)"
    using em data emitsD(4,5) [of "enc_new (unat (max_segment_bytes limits))" e "control_image c"]
    by (auto simp: enc_new_def)
  then show ?thesis
    using decode_payload_image [OF assms(1) _ _ t assms(2)] em control_tag_range [OF t assms(2)] t f
    by (auto simp: control_decode_def Let_def not_less)
qed

theorem control_roundtrip_witness:
  "\<exists>f. control_encode (Ctl_Ack 7) sample_frame_limits = Inr f \<and> control_decode f sample_frame_limits = Inr (Ctl_Ack 7)"
proof -
  have "\<exists>f. control_encode (Ctl_Ack 7) sample_frame_limits = Inr f"
    by (simp add: control_encode_def sample_frame_limits_def enc_finish_def enc_u64_def enc_raw_def enc_reserve_def
        enc_new_def)
  then show ?thesis using control_roundtrip [of "Ctl_Ack 7"] by auto
qed

end
