(* ===== verification/Msgr_Secure.thy ===== *)
theory Msgr_Secure
  imports Msgr_Frame
begin

text \<open>
  \<open>src/msgr/secure.rs\<close>: frames in secure mode.  AES-128-GCM belongs to the \<open>aes_gcm\<close> crate: the
  record \<open>aead\<close> of its two operations is a parameter, and \<open>aead_ok\<close> states what is documented of
  them.  An error carries the codec it leaves behind (\<open>keep\<close>): a record that fails its
  authentication has still used its nonce.  Sizes are natural numbers, as in \<open>Msgr_Frame\<close>.
\<close>

section \<open>Directions\<close>

definition SECRET_SIZE :: usize where "SECRET_SIZE = 64"
definition KEY_SIZE :: usize where "KEY_SIZE = 16"
definition TAG_SIZE :: usize where "TAG_SIZE = 16"
definition BLOCK_SIZE :: usize where "BLOCK_SIZE = 16"
definition INLINE_SIZE :: usize where "INLINE_SIZE = 48"
definition SECURE_PREAMBLE_SIZE :: usize where "SECURE_PREAMBLE_SIZE = PREAMBLE_SIZE + INLINE_SIZE + TAG_SIZE"

record aead =
  aead_encrypt :: "bytes \<Rightarrow> bytes \<Rightarrow> bytes \<Rightarrow> bytes option"
  aead_decrypt :: "bytes \<Rightarrow> bytes \<Rightarrow> bytes \<Rightarrow> bytes option"

definition aead_ok :: "aead \<Rightarrow> bool" where
  "aead_ok A \<longleftrightarrow>
     (\<forall>k n p c. aead_encrypt A k n p = Some c \<longrightarrow> aead_decrypt A k n c = Some p \<and> length c = length p + TAG_SIZE) \<and>
     (\<forall>k n p c. aead_decrypt A k n c = Some p \<longrightarrow> length c = length p + TAG_SIZE)"

record direction =
  dir_key :: bytes
  dir_fixed :: u32
  dir_counter :: u64
  dir_exhausted :: bool

record secure_codec =
  sc_tx :: direction
  sc_rx :: direction

definition dir_new :: "bytes \<Rightarrow> bytes \<Rightarrow> direction" where
  "dir_new key seed = \<lparr>dir_key = key, dir_fixed = from_le_bytes (take 4 seed),
     dir_counter = from_le_bytes (drop 4 seed), dir_exhausted = False\<rparr>"

definition dir_available :: "direction \<Rightarrow> nat \<Rightarrow> bool" where
  "dir_available d count \<longleftrightarrow>
     count = 0 \<or> (\<not> dir_exhausted d \<and> count - 1 \<le> unat U64_MAX - unat (dir_counter d))"

definition dir_nonce :: "direction \<Rightarrow> frame_error + (bytes \<times> direction)" where
  "dir_nonce d =
     (if \<not> dir_available d 1 then Inl FE_CounterExhausted
      else Inr (to_le_bytes (dir_fixed d) @ to_le_bytes (dir_counter d),
                if dir_counter d = U64_MAX then d\<lparr>dir_exhausted := True\<rparr>
                else d\<lparr>dir_counter := dir_counter d + 1\<rparr>))"

abbreviation keep :: "'s \<Rightarrow> 'e + 'a \<Rightarrow> ('e \<times> 's) + 'a" where
  "keep s \<equiv> map_err (\<lambda>e. (e, s))"

definition dir_seal :: "aead \<Rightarrow> direction \<Rightarrow> bytes \<Rightarrow> (frame_error \<times> direction) + (bytes \<times> direction)" where
  "dir_seal A d plaintext =
     rbind (keep d (dir_nonce d)) (\<lambda>(nonce, d').
       case aead_encrypt A (dir_key d) nonce plaintext of
         None \<Rightarrow> Inl (FE_LimitExceeded, d')
       | Some c \<Rightarrow> Inr (c, d'))"

definition dir_open :: "aead \<Rightarrow> direction \<Rightarrow> bytes \<Rightarrow> (frame_error \<times> direction) + (bytes \<times> direction)" where
  "dir_open A d ciphertext =
     rbind (keep d (dir_nonce d)) (\<lambda>(nonce, d').
       case aead_decrypt A (dir_key d) nonce ciphertext of
         None \<Rightarrow> Inl (FE_Integrity, d')
       | Some p \<Rightarrow> Inr (p, d'))"

definition secure_new :: "bytes \<Rightarrow> bool \<Rightarrow> frame_error + secure_codec" where
  "secure_new secret server =
     (if length secret \<noteq> SECRET_SIZE then Inl FE_InvalidSecret
      else
        let client_rx = take 12 (drop 16 secret); client_tx = take 12 (drop 28 secret);
            (rx_seed, tx_seed) = (if server then (client_tx, client_rx) else (client_rx, client_tx)) in
        Inr \<lparr>sc_tx = dir_new (take KEY_SIZE secret) tx_seed, sc_rx = dir_new (take KEY_SIZE secret) rx_seed\<rparr>)"

section \<open>Records\<close>

definition padded_length :: "usize \<Rightarrow> usize" where
  "padded_length n = (n + (BLOCK_SIZE - 1)) div BLOCK_SIZE * BLOCK_SIZE"

definition padded :: "bytes \<Rightarrow> bytes" where
  "padded data = data @ replicate (padded_length (length data) - length data) 0"

fun check_descriptors :: "frame_limits \<Rightarrow> descriptor list \<Rightarrow> frame_error + unit" where
  "check_descriptors limits [] = Inr ()"
| "check_descriptors limits (d # ds) =
     (if \<not> valid_alignment (desc_alignment d) then Inl FE_Malformed
      else if desc_length d > max_segment_bytes limits then Inl FE_LimitExceeded
      else check_descriptors limits ds)"

definition secure_size :: "descriptor list \<Rightarrow> usize" where
  "secure_size ds =
     (let first = padded_length (unat (desc_length (hd ds))) in
      SECURE_PREAMBLE_SIZE + (if first > INLINE_SIZE then first - INLINE_SIZE + TAG_SIZE else 0) +
      (if length ds > 1
       then BLOCK_SIZE + TAG_SIZE + sum_list (map (\<lambda>d. padded_length (unat (desc_length d))) (tl ds)) else 0))"

definition secure_records :: "descriptor list \<Rightarrow> nat" where
  "secure_records ds =
     1 + (if padded_length (unat (desc_length (hd ds))) > INLINE_SIZE then 1 else 0) +
     (if length ds > 1 then 1 else 0)"

definition validate_descriptors :: "descriptor list \<Rightarrow> frame_limits \<Rightarrow> frame_error + (usize \<times> nat)" where
  "validate_descriptors ds limits =
     rbind (check_descriptors limits ds) (\<lambda>_.
       if secure_size ds > unat (max_frame_bytes limits) then Inl FE_LimitExceeded
       else Inr (secure_size ds, secure_records ds))"

fun prepared_descriptors :: "segment list \<Rightarrow> frame_error + descriptor list" where
  "prepared_descriptors [] = Inr []"
| "prepared_descriptors (s # ss) =
     (if \<not> valid_alignment (seg_alignment s) then Inl FE_Malformed
      else if length (seg_data s) \<ge> 2 ^ 32 then Inl FE_LimitExceeded
      else rbind (prepared_descriptors ss) (\<lambda>ds.
        Inr (\<lparr>desc_length = of_nat (length (seg_data s)), desc_alignment = seg_alignment s\<rparr> # ds)))"

record prepared_frame =
  pf_descriptors :: "descriptor list"
  pf_segments :: "segment list"
  pf_wire_size :: usize
  pf_records :: nat

definition prepared_new :: "frame \<Rightarrow> frame_limits \<Rightarrow> frame_error + prepared_frame" where
  "prepared_new f limits =
     rbind (normalized_segments (frame_segments f)) (\<lambda>segments.
     if tag_u8 (frame_tag f) > tag_u8 Tag_Ack then Inl FE_Malformed
     else rbind (prepared_descriptors segments) (\<lambda>ds.
       rbind (validate_descriptors ds limits) (\<lambda>(wire_size, records).
         Inr \<lparr>pf_descriptors = ds, pf_segments = segments, pf_wire_size = wire_size, pf_records = records\<rparr>)))"

definition validate_frame_size :: "frame \<Rightarrow> frame_limits \<Rightarrow> frame_error + unit" where
  "validate_frame_size f limits = rbind (prepared_new f limits) (\<lambda>_. Inr ())"

definition plaintext_records :: "(u32 \<Rightarrow> bytes \<Rightarrow> u32) \<Rightarrow> tag \<Rightarrow> prepared_frame \<Rightarrow> bytes list" where
  "plaintext_records crc t p =
     (let data = seg_data (hd (pf_segments p));
          inline = min (length data) INLINE_SIZE;
          first = encode_preamble crc t (pf_descriptors p) @ take inline data @ replicate (INLINE_SIZE - inline) 0;
          first_padded = padded_length (length data);
          remainder = drop INLINE_SIZE data @ replicate (first_padded - length data) 0;
          remaining = concat (map (\<lambda>s. padded (seg_data s)) (tl (pf_segments p))) @
            LATE_STATUS_COMPLETE # replicate (BLOCK_SIZE - 1) 0
      in first # (if first_padded > INLINE_SIZE then [remainder] else []) @
           (if length (pf_segments p) = 1 then [] else [remaining]))"

fun seal_all :: "aead \<Rightarrow> direction \<Rightarrow> bytes list \<Rightarrow> (frame_error \<times> direction) + (bytes \<times> direction)" where
  "seal_all A d [] = Inr ([], d)"
| "seal_all A d (p # ps) =
     rbind (dir_seal A d p) (\<lambda>(c, d). rbind (seal_all A d ps) (\<lambda>(cs, d). Inr (c @ cs, d)))"

definition secure_encode :: "aead \<Rightarrow> (u32 \<Rightarrow> bytes \<Rightarrow> u32) \<Rightarrow> secure_codec \<Rightarrow> frame \<Rightarrow> frame_limits \<Rightarrow>
    (frame_error \<times> secure_codec) + (bytes \<times> secure_codec)" where
  "secure_encode A crc c f limits =
     rbind (keep c (prepared_new f limits)) (\<lambda>p.
     if \<not> dir_available (sc_tx c) (pf_records p) then Inl (FE_CounterExhausted, c)
     else rbind (map_err (\<lambda>(e, tx). (e, c\<lparr>sc_tx := tx\<rparr>))
         (seal_all A (sc_tx c) (plaintext_records crc (frame_tag f) p))) (\<lambda>(bs, tx).
       Inr (bs, c\<lparr>sc_tx := tx\<rparr>)))"

section \<open>Reading\<close>

definition all_zero :: "bytes \<Rightarrow> bool" where
  "all_zero data = list_all (\<lambda>b. b = 0) data"

fun split_segments :: "descriptor list \<Rightarrow> bytes \<Rightarrow> frame_error + (segment list \<times> bytes)" where
  "split_segments [] remaining = Inr ([], remaining)"
| "split_segments (d # ds) remaining =
     (let logical = unat (desc_length d); size = padded_length logical in
      if \<not> all_zero (drop logical (take size remaining)) then Inl FE_Malformed
      else rbind (split_segments ds (drop size remaining)) (\<lambda>(segments, rest).
        Inr (\<lparr>seg_alignment = desc_alignment d, seg_data = take logical remaining\<rparr> # segments, rest)))"

definition read_first_data :: "aead \<Rightarrow> direction \<Rightarrow> bytes \<Rightarrow> bytes \<Rightarrow> usize \<Rightarrow>
    (frame_error \<times> direction) + (bytes \<times> direction \<times> bytes)" where
  "read_first_data A rx bs inline_data first_padded =
     (if first_padded > INLINE_SIZE then
        rbind (keep rx (read_exact (first_padded - INLINE_SIZE + TAG_SIZE) bs)) (\<lambda>(ciphertext, bs).
        rbind (dir_open A rx ciphertext) (\<lambda>(remainder, rx). Inr (inline_data @ remainder, rx, bs)))
      else Inr (inline_data, rx, bs))"

definition read_remaining :: "aead \<Rightarrow> direction \<Rightarrow> bytes \<Rightarrow> descriptor list \<Rightarrow> usize \<Rightarrow>
    (frame_error \<times> direction) + (segment list \<times> direction \<times> bytes)" where
  "read_remaining A rx bs ds remaining_size =
     rbind (keep rx (read_exact remaining_size bs)) (\<lambda>(ciphertext, bs).
     rbind (dir_open A rx ciphertext) (\<lambda>(remaining, rx).
     rbind (keep rx (split_segments ds remaining)) (\<lambda>(segments, epilogue).
       if length epilogue \<noteq> BLOCK_SIZE \<or> \<not> all_zero (tl epilogue) then Inl (FE_Malformed, rx)
       else
         let status = hd epilogue AND 0x0f in
         if status = LATE_STATUS_COMPLETE then Inr (segments, rx, bs)
         else if status = LATE_STATUS_ABORTED then Inl (FE_Aborted, rx)
         else Inl (FE_Malformed, rx))))"

definition read_frame :: "aead \<Rightarrow> (u32 \<Rightarrow> bytes \<Rightarrow> u32) \<Rightarrow> direction \<Rightarrow>
    (tag \<Rightarrow> usize \<Rightarrow> frame_error + unit) \<Rightarrow> bytes \<Rightarrow> frame_limits \<Rightarrow>
    (frame_error \<times> direction) + (frame \<times> bytes \<times> direction)" where
  "read_frame A crc rx reserve bs limits =
     (if \<not> dir_available rx 1 then Inl (FE_CounterExhausted, rx)
      else if unat (max_frame_bytes limits) < SECURE_PREAMBLE_SIZE then Inl (FE_LimitExceeded, rx)
      else
        rbind (keep rx (read_exact SECURE_PREAMBLE_SIZE bs)) (\<lambda>(ciphertext, bs).
        rbind (dir_open A rx ciphertext) (\<lambda>(first, rx).
        rbind (keep rx (decode_preamble crc (take PREAMBLE_SIZE first))) (\<lambda>(t, ds).
        rbind (keep rx (validate_descriptors ds limits)) (\<lambda>(wire_size, records).
        rbind (keep rx (reserve t wire_size)) (\<lambda>_.
        if \<not> dir_available rx (records - 1) then Inl (FE_CounterExhausted, rx)
        else
          let first_length = unat (desc_length (hd ds)); first_padded = padded_length first_length in
          rbind (read_first_data A rx bs (drop PREAMBLE_SIZE first) first_padded) (\<lambda>(first_data, rx, bs).
          if \<not> all_zero (drop first_length first_data) then Inl (FE_Malformed, rx)
          else
            let segment = \<lparr>seg_alignment = desc_alignment (hd ds), seg_data = take first_length first_data\<rparr> in
            if length ds = 1 then Inr (\<lparr>frame_tag = t, frame_segments = [segment]\<rparr>, bs, rx)
            else
              let remaining_size = wire_size - SECURE_PREAMBLE_SIZE -
                    (if first_padded > INLINE_SIZE then first_padded - INLINE_SIZE + TAG_SIZE else 0) in
              rbind (read_remaining A rx bs (tl ds) remaining_size) (\<lambda>(segments, rx, bs).
                Inr (\<lparr>frame_tag = t, frame_segments = segment # segments\<rparr>, bs, rx)))))))))"

definition secure_read_reserved :: "aead \<Rightarrow> (u32 \<Rightarrow> bytes \<Rightarrow> u32) \<Rightarrow> secure_codec \<Rightarrow>
    (tag \<Rightarrow> usize \<Rightarrow> frame_error + unit) \<Rightarrow> bytes \<Rightarrow> frame_limits \<Rightarrow>
    (frame_error \<times> secure_codec) + (frame \<times> bytes \<times> secure_codec)" where
  "secure_read_reserved A crc c reserve bs limits =
     rbind (map_err (\<lambda>(e, rx). (e, c\<lparr>sc_rx := rx\<rparr>)) (read_frame A crc (sc_rx c) reserve bs limits))
       (\<lambda>(f, bs, rx). Inr (f, bs, c\<lparr>sc_rx := rx\<rparr>))"

definition secure_read :: "aead \<Rightarrow> (u32 \<Rightarrow> bytes \<Rightarrow> u32) \<Rightarrow> secure_codec \<Rightarrow> bytes \<Rightarrow> frame_limits \<Rightarrow>
    (frame_error \<times> secure_codec) + (frame \<times> bytes \<times> secure_codec)" where
  "secure_read A crc c bs limits = secure_read_reserved A crc c (\<lambda>_ _. Inr ()) bs limits"

section \<open>Nonces\<close>

text \<open>The nonces a direction hands out over a run of records.\<close>

fun dir_nonces :: "nat \<Rightarrow> direction \<Rightarrow> frame_error + (bytes list \<times> direction)" where
  "dir_nonces 0 d = Inr ([], d)"
| "dir_nonces (Suc k) d =
     rbind (dir_nonce d) (\<lambda>(n, d). rbind (dir_nonces k d) (\<lambda>(ns, d). Inr (n # ns, d)))"

lemma dir_available_0 [simp]: "dir_available d 0"
  by (simp add: dir_available_def)

lemma dir_available_mono: "dir_available d n \<Longrightarrow> m \<le> n \<Longrightarrow> dir_available d m"
  by (auto simp: dir_available_def)

lemma dir_nonce_available:
  assumes "dir_nonce d = Inr (n, d')" "dir_available d (Suc k)"
  shows "dir_available d' k"
proof (cases "dir_counter d = U64_MAX")
  case True
  then show ?thesis using assms(2) by (auto simp: dir_available_def)
next
  case False
  then have "dir_counter d < U64_MAX" by (metis word_order.not_eq_extremum)
  then have "unat (dir_counter d + 1) = Suc (unat (dir_counter d))" by (rule unat_Suc_less)
  moreover have "d' = d\<lparr>dir_counter := dir_counter d + 1\<rparr>"
    using assms(1) False by (auto simp: dir_nonce_def split: if_splits)
  ultimately show ?thesis using assms(2) by (auto simp: dir_available_def)
qed

lemma dir_nonces_fresh:
  "dir_nonces k d = Inr (ns, d') \<Longrightarrow>
   distinct ns \<and> (\<forall>n \<in> set ns. \<exists>c. n = to_le_bytes (dir_fixed d) @ to_le_bytes c \<and> dir_counter d \<le> c)"
proof (induction k arbitrary: d ns)
  case (Suc k)
  obtain n d1 ns' where n: "dir_nonce d = Inr (n, d1)" and ns': "dir_nonces k d1 = Inr (ns', d')"
      and ns: "ns = n # ns'" using Suc.prems by auto
  have n_eq: "n = to_le_bytes (dir_fixed d) @ to_le_bytes (dir_counter d)" and fixed: "dir_fixed d1 = dir_fixed d"
    using n by (auto simp: dir_nonce_def split: if_splits)
  have later: "\<exists>c. x = to_le_bytes (dir_fixed d) @ to_le_bytes c \<and> dir_counter d < c" if "x \<in> set ns'" for x
  proof (cases "dir_counter d = U64_MAX")
    case True
    then have "dir_exhausted d1" using n by (auto simp: dir_nonce_def split: if_splits)
    then have "k = 0" using ns' by (cases k) (auto simp: dir_nonce_def dir_available_def)
    then show ?thesis using ns' that by simp
  next
    case False
    then have lt: "dir_counter d < U64_MAX" by (metis word_order.not_eq_extremum)
    have "dir_counter d1 = dir_counter d + 1" using n False by (auto simp: dir_nonce_def split: if_splits)
    then have "dir_counter d < dir_counter d1"
      using unat_Suc_less [OF lt] by (simp add: word_less_nat_alt)
    then show ?thesis using Suc.IH [OF ns'] that fixed by (auto intro: order.strict_trans2)
  qed
  have "n \<notin> set ns'"
  proof
    assume "n \<in> set ns'"
    then obtain c where "n = to_le_bytes (dir_fixed d) @ to_le_bytes c" "dir_counter d < c"
      using later by blast
    then show False using n_eq from_to_le_bytes [of c] from_to_le_bytes [of "dir_counter d"]
      by (simp; metis less_irrefl)
  qed
  then show ?case using Suc.IH [OF ns'] later n_eq ns by (auto intro: order.strict_implies_order)
qed simp

section \<open>Secure round trips\<close>

lemma dir_open_seal:
  assumes "aead_ok A" "dir_seal A d p = Inr (c, d')"
  shows "dir_open A d c = Inr (p, d')" "length c = length p + TAG_SIZE"
  using assms by (auto simp: dir_seal_def dir_open_def aead_ok_def split: option.splits)

lemma dir_seal_available:
  assumes "dir_seal A d p = Inr (c, d')"
  shows "dir_available d 1" and "dir_available d (Suc k) \<Longrightarrow> dir_available d' k"
proof -
  obtain n where n: "dir_nonce d = Inr (n, d')"
    using assms by (auto simp: dir_seal_def split: option.splits)
  then show "dir_available d 1" by (auto simp: dir_nonce_def split: if_splits)
  show "dir_available d (Suc k) \<Longrightarrow> dir_available d' k" using dir_nonce_available [OF n] .
qed

lemma padded_length_bounds: "n \<le> padded_length n" "padded_length n > INLINE_SIZE \<longleftrightarrow> n > INLINE_SIZE"
proof -
  have "(n + 15) div 16 * 16 = n + 15 - (n + 15) mod 16" by (simp add: minus_mod_eq_div_mult)
  moreover have "(n + 15) mod 16 \<le> 15" by simp
  ultimately show "n \<le> padded_length n" by (simp add: padded_length_def BLOCK_SIZE_def)
  show "padded_length n > INLINE_SIZE \<longleftrightarrow> n > INLINE_SIZE"
    unfolding padded_length_def BLOCK_SIZE_def INLINE_SIZE_def by arith
qed

lemma length_padded [simp]: "length (padded data) = padded_length (length data)"
  using padded_length_bounds(1) [of "length data"] by (simp add: padded_def)

lemma all_zero_replicate [simp]: "all_zero (replicate n 0)"
  by (simp add: all_zero_def list_all_iff)

lemma split_segments_padded:
  assumes "ds = map (\<lambda>s. \<lparr>desc_length = of_nat (length (seg_data s)), desc_alignment = seg_alignment s\<rparr>) ss"
    "\<forall>s \<in> set ss. length (seg_data s) < 2 ^ 32"
  shows "split_segments ds (concat (map (\<lambda>s. padded (seg_data s)) ss) @ rest) = Inr (ss, rest)"
  using assms
proof (induction ss arbitrary: ds)
  case (Cons s ss)
  have len: "unat (of_nat (length (seg_data s)) :: u32) = length (seg_data s)"
    using Cons.prems(2) by (simp add: unat_of_nat)
  have data: "padded (seg_data s) = seg_data s @ replicate (padded_length (length (seg_data s)) - length (seg_data s)) 0"
    by (simp add: padded_def)
  have "length (seg_data s) \<le> padded_length (length (seg_data s))" by (rule padded_length_bounds)
  then show ?case using Cons len by (simp add: Let_def data del: length_padded)
qed simp

lemma prepared_descriptors_shape:
  "prepared_descriptors ss = Inr ds \<Longrightarrow>
   ds = map (\<lambda>s. \<lparr>desc_length = of_nat (length (seg_data s)), desc_alignment = seg_alignment s\<rparr>) ss \<and>
   (\<forall>s \<in> set ss. length (seg_data s) < 2 ^ 32)"
  by (induction ss arbitrary: ds) (auto split: if_splits)

lemma rbind_assoc: "rbind (rbind r f) g = rbind r (\<lambda>x. rbind (f x) g)"
  by (cases r) simp_all

lemma seal_all_append:
  "seal_all A d (xs @ ys) = rbind (seal_all A d xs) (\<lambda>(c, d). rbind (seal_all A d ys) (\<lambda>(c', d). Inr (c @ c', d)))"
proof (induction xs arbitrary: d)
  case Nil
  then show ?case by (cases "seal_all A d ys") auto
next
  case (Cons x xs)
  then show ?case by (cases "dir_seal A d x") (auto simp: rbind_assoc case_prod_beta)
qed

lemma read_first_sealed:
  assumes "aead_ok A"
    "seal_all A d (if padded_length (length data) > INLINE_SIZE
       then [drop INLINE_SIZE data @ replicate (padded_length (length data) - length data) 0] else []) = Inr (c, d')"
  shows "\<exists>k. read_first_data A d (c @ rest)
       (take (min (length data) INLINE_SIZE) data @ replicate (INLINE_SIZE - min (length data) INLINE_SIZE) 0)
       (padded_length (length data)) = Inr (data @ replicate k 0, d', rest)"
proof (cases "padded_length (length data) > INLINE_SIZE")
  case True
  let ?p = "drop INLINE_SIZE data @ replicate (padded_length (length data) - length data) 0"
  have big: "length data > INLINE_SIZE" using True padded_length_bounds(2) by blast
  obtain c1 where seal: "dir_seal A d ?p = Inr (c1, d')" and c: "c = c1"
    using assms(2) True by auto
  have "length ?p = padded_length (length data) - INLINE_SIZE"
    using big padded_length_bounds(1) [of "length data"] by simp
  then have "length c = padded_length (length data) - INLINE_SIZE + TAG_SIZE"
    using dir_open_seal(2) [OF assms(1) seal] c by metis
  then have "read_first_data A d (c @ rest) (take INLINE_SIZE data) (padded_length (length data)) =
      Inr (take INLINE_SIZE data @ ?p, d', rest)"
    using dir_open_seal(1) [OF assms(1) seal] True c by (simp add: read_first_data_def)
  then show ?thesis using big by (auto simp: min_def append_assoc [symmetric] simp del: append_assoc)
next
  case False
  then have "length data \<le> INLINE_SIZE" using padded_length_bounds(2) [of "length data"] by simp
  then show ?thesis using assms(2) False by (auto simp: read_first_data_def min_def)
qed

lemma read_remaining_sealed:
  assumes "aead_ok A"
    "ds = map (\<lambda>s. \<lparr>desc_length = of_nat (length (seg_data s)), desc_alignment = seg_alignment s\<rparr>) ss"
    "\<forall>s \<in> set ss. length (seg_data s) < 2 ^ 32"
    "dir_seal A d (concat (map (\<lambda>s. padded (seg_data s)) ss) @ LATE_STATUS_COMPLETE # replicate (BLOCK_SIZE - 1) 0) =
       Inr (c, d')"
  shows "read_remaining A d (c @ rest) ds (length c) = Inr (ss, d', rest)"
  using dir_open_seal [OF assms(1, 4)] split_segments_padded [OF assms(2, 3)]
  by (simp add: read_remaining_def BLOCK_SIZE_def LATE_STATUS_COMPLETE_def)

lemma sum_padded_lengths:
  assumes "\<forall>s \<in> set ss. length (seg_data s) < 2 ^ 32"
  shows "sum_list (map (\<lambda>d. padded_length (unat (desc_length d)))
      (map (\<lambda>s. \<lparr>desc_length = of_nat (length (seg_data s)), desc_alignment = seg_alignment s\<rparr>) ss)) =
    length (concat (map (\<lambda>s. padded (seg_data s)) ss))"
  using assms by (induction ss) (auto simp: unat_of_nat)

lemma prepared_new_parts:
  assumes "prepared_new f limits = Inr p"
  obtains s ss where "trim_empty (frame_segments f) = s # ss" "pf_segments p = s # ss"
    "prepared_descriptors (s # ss) = Inr (pf_descriptors p)" "frame_segments f \<noteq> []"
    "length (frame_segments f) \<le> MAX_SEGMENTS" "tag_u8 (frame_tag f) \<le> tag_u8 Tag_Ack"
    "validate_descriptors (pf_descriptors p) limits = Inr (pf_wire_size p, pf_records p)"
proof -
  obtain segments ds where seg: "normalized_segments (frame_segments f) = Inr segments"
    and tag: "tag_u8 (frame_tag f) \<le> tag_u8 Tag_Ack" and ds: "prepared_descriptors segments = Inr ds"
    and v: "validate_descriptors ds limits = Inr (pf_wire_size p, pf_records p)"
    and p: "pf_descriptors p = ds" "pf_segments p = segments"
    using assms by (auto simp: prepared_new_def split: if_splits)
  have ne: "frame_segments f \<noteq> []" and few: "length (frame_segments f) \<le> MAX_SEGMENTS"
    and eq: "segments = trim_empty (frame_segments f)"
    using seg by (auto simp: normalized_segments_def split: if_splits)
  obtain s ss where "segments = s # ss"
    using trim_empty_shape [OF ne] eq by (metis list.exhaust)
  then show thesis using that ne few tag ds v p eq by simp
qed

lemma prepared_preamble:
  assumes p: "prepared_new f limits = Inr p"
  shows "decode_preamble crc (encode_preamble crc (frame_tag f) (pf_descriptors p)) = Inr (frame_tag f, pf_descriptors p)"
    and "length (encode_preamble crc (frame_tag f) (pf_descriptors p)) = PREAMBLE_SIZE"
proof -
  obtain s ss where trim: "trim_empty (frame_segments f) = s # ss"
    and ds: "prepared_descriptors (s # ss) = Inr (pf_descriptors p)" and ne: "frame_segments f \<noteq> []"
    and few: "length (frame_segments f) \<le> MAX_SEGMENTS" and tag: "tag_u8 (frame_tag f) \<le> tag_u8 Tag_Ack"
    using p by (rule prepared_new_parts)
  note shape = prepared_descriptors_shape [OF ds]
  have len: "length (pf_descriptors p) = Suc (length ss)" using shape by simp
  have bound: "1 \<le> length (pf_descriptors p)" "length (pf_descriptors p) \<le> 4"
    using len trim_empty_shape [OF ne] trim few by (auto simp: MAX_SEGMENTS_def)
  have last: "length (pf_descriptors p) > 1 \<longrightarrow> desc_length (last (pf_descriptors p)) \<noteq> 0"
  proof
    assume "length (pf_descriptors p) > 1"
    then have ss: "ss \<noteq> []" and "seg_data (last ss) \<noteq> []" using len trim_empty_shape [OF ne] trim by auto
    moreover have "length (seg_data (last ss)) < 2 ^ 32" using shape ss by simp
    ultimately have "unat (of_nat (length (seg_data (last ss))) :: u32) \<noteq> 0" by (simp add: unat_of_nat)
    then have "(of_nat (length (seg_data (last ss))) :: u32) \<noteq> 0" by (metis unat_0)
    then show "desc_length (last (pf_descriptors p)) \<noteq> 0" using shape ss by (simp add: last_map)
  qed
  show "decode_preamble crc (encode_preamble crc (frame_tag f) (pf_descriptors p)) = Inr (frame_tag f, pf_descriptors p)"
    "length (encode_preamble crc (frame_tag f) (pf_descriptors p)) = PREAMBLE_SIZE"
    by (rule decode_encode_preamble [OF bound tag last])+
qed

lemma seal_all_three:
  assumes "seal_all A d (x # xs @ ys) = Inr (bs, tx)"
  shows "\<exists>c1 d1 b1 d2 b2. dir_seal A d x = Inr (c1, d1) \<and> seal_all A d1 xs = Inr (b1, d2) \<and>
    seal_all A d2 ys = Inr (b2, tx) \<and> bs = c1 @ b1 @ b2"
  using assms by (auto simp: seal_all_append)

lemma length_seal_all:
  "aead_ok A \<Longrightarrow> seal_all A d ps = Inr (c, d') \<Longrightarrow> length c = sum_list (map (\<lambda>p. length p + TAG_SIZE) ps)"
  by (induction ps arbitrary: d c) (auto dest: dir_open_seal(2))

text \<open>A sealed frame as the three records it is made of, and the wire size the preparation promised.\<close>

lemma secure_encode_parts:
  assumes A: "aead_ok A" and enc: "secure_encode A crc c f limits = Inr (bs, c')"
  obtains p s ss c1 d1 b1 d2 b2 where
    "prepared_new f limits = Inr p" "trim_empty (frame_segments f) = s # ss"
    "prepared_descriptors (s # ss) = Inr (pf_descriptors p)"
    "validate_descriptors (pf_descriptors p) limits = Inr (length bs, pf_records p)"
    "dir_available (sc_tx c) (pf_records p)"
    "bs = c1 @ b1 @ b2" "length c1 = SECURE_PREAMBLE_SIZE"
    "dir_seal A (sc_tx c) (encode_preamble crc (frame_tag f) (pf_descriptors p) @
       take (min (length (seg_data s)) INLINE_SIZE) (seg_data s) @
       replicate (INLINE_SIZE - min (length (seg_data s)) INLINE_SIZE) 0) = Inr (c1, d1)"
    "seal_all A d1 (if padded_length (length (seg_data s)) > INLINE_SIZE
       then [drop INLINE_SIZE (seg_data s) @ replicate (padded_length (length (seg_data s)) - length (seg_data s)) 0]
       else []) = Inr (b1, d2)"
    "length b1 = (if padded_length (length (seg_data s)) > INLINE_SIZE
       then padded_length (length (seg_data s)) - INLINE_SIZE + TAG_SIZE else 0)"
    "seal_all A d2 (if ss = [] then [] else [concat (map (\<lambda>s. padded (seg_data s)) ss) @
       LATE_STATUS_COMPLETE # replicate (BLOCK_SIZE - 1) 0]) = Inr (b2, sc_tx c')"
proof -
  obtain p tx where p: "prepared_new f limits = Inr p" and avail: "dir_available (sc_tx c) (pf_records p)"
    and seal: "seal_all A (sc_tx c) (plaintext_records crc (frame_tag f) p) = Inr (bs, tx)"
    and c': "c' = c\<lparr>sc_tx := tx\<rparr>"
    using enc by (auto simp: secure_encode_def split: if_splits)
  obtain s ss where trim: "trim_empty (frame_segments f) = s # ss" and segs: "pf_segments p = s # ss"
    and ds: "prepared_descriptors (s # ss) = Inr (pf_descriptors p)"
    and v: "validate_descriptors (pf_descriptors p) limits = Inr (pf_wire_size p, pf_records p)"
    using p by (rule prepared_new_parts)
  let ?data = "seg_data s"
  let ?first = "encode_preamble crc (frame_tag f) (pf_descriptors p) @
       take (min (length ?data) INLINE_SIZE) ?data @ replicate (INLINE_SIZE - min (length ?data) INLINE_SIZE) 0"
  let ?r1 = "if padded_length (length ?data) > INLINE_SIZE
       then [drop INLINE_SIZE ?data @ replicate (padded_length (length ?data) - length ?data) 0] else []"
  let ?r2 = "if ss = [] then [] else [concat (map (\<lambda>s. padded (seg_data s)) ss) @
       LATE_STATUS_COMPLETE # replicate (BLOCK_SIZE - 1) 0]"
  have "plaintext_records crc (frame_tag f) p = ?first # ?r1 @ ?r2"
    by (simp add: plaintext_records_def segs Let_def)
  then obtain c1 d1 b1 d2 b2 where c1: "dir_seal A (sc_tx c) ?first = Inr (c1, d1)"
    and b1: "seal_all A d1 ?r1 = Inr (b1, d2)" and b2: "seal_all A d2 ?r2 = Inr (b2, tx)" and bs: "bs = c1 @ b1 @ b2"
    using seal_all_three [of A "sc_tx c" ?first ?r1 ?r2 bs tx] seal by metis
  have len1: "length c1 = SECURE_PREAMBLE_SIZE"
    using dir_open_seal(2) [OF A c1] prepared_preamble(2) [OF p] by (simp add: SECURE_PREAMBLE_SIZE_def)
  have big: "length ?data > INLINE_SIZE" if "padded_length (length ?data) > INLINE_SIZE"
    using that padded_length_bounds(2) by blast
  have lenb1: "length b1 = (if padded_length (length ?data) > INLINE_SIZE
       then padded_length (length ?data) - INLINE_SIZE + TAG_SIZE else 0)"
    using length_seal_all [OF A b1] big padded_length_bounds(1) [of "length ?data"] by auto
  note shape = prepared_descriptors_shape [OF ds]
  have "length b2 = (if ss = [] then 0 else
      BLOCK_SIZE + TAG_SIZE + sum_list (map (\<lambda>d. padded_length (unat (desc_length d))) (tl (pf_descriptors p))))"
    using length_seal_all [OF A b2] sum_padded_lengths [of ss] shape
    by (auto simp: BLOCK_SIZE_def simp del: length_concat)
  then have "length bs = secure_size (pf_descriptors p)"
    using bs len1 lenb1 shape by (auto simp: secure_size_def Let_def unat_of_nat)
  moreover have "pf_wire_size p = secure_size (pf_descriptors p)"
    using v by (auto simp: validate_descriptors_def split: if_splits)
  ultimately have "validate_descriptors (pf_descriptors p) limits = Inr (length bs, pf_records p)"
    using v by simp
  then show thesis using that [OF p trim ds _ avail bs len1 c1 b1 lenb1] b2 c' by simp
qed

lemma read_frame_encoded:
  assumes A: "aead_ok A" and enc: "secure_encode A crc c f limits = Inr (bs, c')"
    and ok: "reserve (frame_tag f) (length bs) = Inr ()"
  shows "read_frame A crc (sc_tx c) reserve (bs @ rest) limits =
      Inr (\<lparr>frame_tag = frame_tag f, frame_segments = trim_empty (frame_segments f)\<rparr>, rest, sc_tx c')"
proof -
  obtain p s ss c1 d1 b1 d2 b2 where p: "prepared_new f limits = Inr p"
    and trim: "trim_empty (frame_segments f) = s # ss"
    and ds: "prepared_descriptors (s # ss) = Inr (pf_descriptors p)"
    and v: "validate_descriptors (pf_descriptors p) limits = Inr (length bs, pf_records p)"
    and avail: "dir_available (sc_tx c) (pf_records p)"
    and bs: "bs = c1 @ b1 @ b2" and len1: "length c1 = SECURE_PREAMBLE_SIZE"
    and c1: "dir_seal A (sc_tx c) (encode_preamble crc (frame_tag f) (pf_descriptors p) @
       take (min (length (seg_data s)) INLINE_SIZE) (seg_data s) @
       replicate (INLINE_SIZE - min (length (seg_data s)) INLINE_SIZE) 0) = Inr (c1, d1)"
    and b1: "seal_all A d1 (if padded_length (length (seg_data s)) > INLINE_SIZE
       then [drop INLINE_SIZE (seg_data s) @ replicate (padded_length (length (seg_data s)) - length (seg_data s)) 0]
       else []) = Inr (b1, d2)"
    and lenb1: "length b1 = (if padded_length (length (seg_data s)) > INLINE_SIZE
       then padded_length (length (seg_data s)) - INLINE_SIZE + TAG_SIZE else 0)"
    and b2: "seal_all A d2 (if ss = [] then [] else [concat (map (\<lambda>s. padded (seg_data s)) ss) @
       LATE_STATUS_COMPLETE # replicate (BLOCK_SIZE - 1) 0]) = Inr (b2, sc_tx c')"
    by (rule secure_encode_parts [OF A enc])
  note shape = prepared_descriptors_shape [OF ds] and pre = prepared_preamble [OF p, of crc]
  obtain k where first: "read_first_data A d1 (b1 @ b2 @ rest)
       (take (min (length (seg_data s)) INLINE_SIZE) (seg_data s) @
        replicate (INLINE_SIZE - min (length (seg_data s)) INLINE_SIZE) 0)
       (padded_length (length (seg_data s))) = Inr (seg_data s @ replicate k 0, d2, b2 @ rest)"
    using read_first_sealed [OF A b1] by blast
  let ?first = "encode_preamble crc (frame_tag f) (pf_descriptors p) @
       take (min (length (seg_data s)) INLINE_SIZE) (seg_data s) @
       replicate (INLINE_SIZE - min (length (seg_data s)) INLINE_SIZE) 0"
  have start: "read_exact SECURE_PREAMBLE_SIZE (bs @ rest) = Inr (c1, b1 @ b2 @ rest)"
    "dir_open A (sc_tx c) c1 = Inr (?first, d1)" "dir_available (sc_tx c) 1"
    using bs len1 dir_open_seal(1) [OF A c1] dir_seal_available(1) [OF c1] by simp_all
  have room: "\<not> unat (max_frame_bytes limits) < SECURE_PREAMBLE_SIZE"
    using v bs len1 by (auto simp: validate_descriptors_def split: if_splits)
  have split: "take PREAMBLE_SIZE ?first = encode_preamble crc (frame_tag f) (pf_descriptors p)"
    "drop PREAMBLE_SIZE ?first = take (min (length (seg_data s)) INLINE_SIZE) (seg_data s) @
       replicate (INLINE_SIZE - min (length (seg_data s)) INLINE_SIZE) 0"
    using pre(2) by simp_all
  have desc: "unat (desc_length (hd (pf_descriptors p))) = length (seg_data s)"
    "desc_alignment (hd (pf_descriptors p)) = seg_alignment s" "length (pf_descriptors p) = Suc (length ss)"
    using shape by (simp_all add: unat_of_nat)
  have more: "dir_available d1 (pf_records p - 1)"
    using dir_seal_available(2) [OF c1] avail by (cases "pf_records p") auto
  have size: "length bs - SECURE_PREAMBLE_SIZE - length b1 = length b2" using bs len1 by simp
  have zeros: "all_zero (drop (length (seg_data s)) (seg_data s @ replicate k 0))"
    "take (length (seg_data s)) (seg_data s @ replicate k 0) = seg_data s" by simp_all
  have same: "\<lparr>seg_alignment = seg_alignment s, seg_data = seg_data s\<rparr> = s" by simp
  note read = read_frame_def start map_err_simps ok rbind_simps prod.case room split pre(1) v more desc first zeros
    lenb1 [symmetric] size Let_def if_True if_False not_True_eq_False not_False_eq_True
  show ?thesis
  proof (cases "ss = []")
    case True
    then have "b2 = []" "sc_tx c' = d2" using b2 by simp_all
    then show ?thesis unfolding read using True start(3) room more by (simp add: trim same)
  next
    case False
    then have "read_remaining A d2 (b2 @ rest) (tl (pf_descriptors p)) (length b2) = Inr (ss, sc_tx c', rest)"
      using b2 shape by (intro read_remaining_sealed [OF A]) (auto split: if_splits)
    then show ?thesis unfolding read using False start(3) room more by (simp add: trim same)
  qed
qed

section \<open>Properties\<close>

text \<open>Frames written one after the other on a connection, and read one after the other from it.\<close>

fun secure_encode_all :: "aead \<Rightarrow> (u32 \<Rightarrow> bytes \<Rightarrow> u32) \<Rightarrow> secure_codec \<Rightarrow> frame list \<Rightarrow> frame_limits \<Rightarrow>
    (frame_error \<times> secure_codec) + (bytes \<times> secure_codec)" where
  "secure_encode_all A crc c [] limits = Inr ([], c)"
| "secure_encode_all A crc c (f # fs) limits =
     rbind (secure_encode A crc c f limits) (\<lambda>(bs, c).
       rbind (secure_encode_all A crc c fs limits) (\<lambda>(more, c). Inr (bs @ more, c)))"

fun secure_read_count :: "aead \<Rightarrow> (u32 \<Rightarrow> bytes \<Rightarrow> u32) \<Rightarrow> secure_codec \<Rightarrow> nat \<Rightarrow> bytes \<Rightarrow> frame_limits \<Rightarrow>
    (frame_error \<times> secure_codec) + (frame list \<times> bytes \<times> secure_codec)" where
  "secure_read_count A crc c 0 bs limits = Inr ([], bs, c)"
| "secure_read_count A crc c (Suc k) bs limits =
     rbind (secure_read A crc c bs limits) (\<lambda>(f, bs, c).
       rbind (secure_read_count A crc c k bs limits) (\<lambda>(fs, bs, c). Inr (f # fs, bs, c)))"

definition trimmed_frame :: "frame \<Rightarrow> frame" where
  "trimmed_frame f = \<lparr>frame_tag = frame_tag f, frame_segments = trim_empty (frame_segments f)\<rparr>"

lemma secure_stream_delivered:
  assumes "aead_ok A"
  shows "secure_encode_all A crc c fs limits = Inr (bs, c') \<Longrightarrow> sc_rx r = sc_tx c \<Longrightarrow>
    secure_read_count A crc r (length fs) (bs @ rest) limits =
      Inr (map trimmed_frame fs, rest, r\<lparr>sc_rx := sc_tx c'\<rparr>)"
proof (induction fs arbitrary: c bs r)
  case (Cons f fs)
  then obtain b1 c1 b2 where enc: "secure_encode A crc c f limits = Inr (b1, c1)"
    and all: "secure_encode_all A crc c1 fs limits = Inr (b2, c')" and bs: "bs = b1 @ b2" by auto
  have "secure_read A crc r (b1 @ b2 @ rest) limits = Inr (trimmed_frame f, b2 @ rest, r\<lparr>sc_rx := sc_tx c1\<rparr>)"
    using read_frame_encoded [OF assms enc, of "\<lambda>_ _. Inr ()"] Cons.prems(2)
    by (simp add: secure_read_def secure_read_reserved_def trimmed_frame_def)
  then show ?case using Cons.IH [OF all, of "r\<lparr>sc_rx := sc_tx c1\<rparr>"] bs by simp
qed simp

text \<open>
  C6: Two ends that derive their codecs from the same connection secret, one as the client and one
  as the server, understand each other: whatever sequence of frames one end seals, the other end
  opens the same frames in the same order (without trailing empty segments) and consumes exactly
  their bytes, whichever end is the server.
\<close>

theorem secure_stream_roundtrip:
  assumes "aead_ok A" "secure_new secret server = Inr sender" "secure_new secret (\<not> server) = Inr receiver"
    "secure_encode_all A crc sender frames limits = Inr (bs, sender')"
  shows "\<exists>receiver'. secure_read_count A crc receiver (length frames) (bs @ rest) limits =
      Inr (map trimmed_frame frames, rest, receiver') \<and> sc_rx receiver' = sc_tx sender' \<and>
      sc_tx receiver' = sc_tx receiver"
proof -
  have "sc_rx receiver = sc_tx sender"
    using assms(2, 3) by (auto simp: secure_new_def Let_def split: if_splits)
  then show ?thesis using secure_stream_delivered [OF assms(1, 4)] by auto
qed

definition null_aead :: aead where
  "null_aead = \<lparr>aead_encrypt = (\<lambda>k n p. Some (p @ replicate 16 0)),
     aead_decrypt = (\<lambda>k n c. if length c < 16 \<or> drop (length c - 16) c \<noteq> replicate 16 0 then None
       else Some (take (length c - 16) c))\<rparr>"

lemma null_aead_ok: "aead_ok null_aead"
  by (auto simp: aead_ok_def null_aead_def TAG_SIZE_def split: if_splits)

definition sample_codec :: "u64 \<Rightarrow> secure_codec" where
  "sample_codec n = \<lparr>sc_tx = \<lparr>dir_key = replicate 16 0, dir_fixed = 0, dir_counter = n, dir_exhausted = False\<rparr>,
     sc_rx = \<lparr>dir_key = replicate 16 0, dir_fixed = 0, dir_counter = 0, dir_exhausted = False\<rparr>\<rparr>"

lemma sample_codec_new: "secure_new (replicate 64 0) server = Inr (sample_codec 0)"
proof -
  have "from_le_bytes (replicate 4 0) = (0 :: u32)" "from_le_bytes (replicate 8 0) = (0 :: u64)"
    by (simp_all add: numeral_eq_Suc from_le_bytes_def)
  then show ?thesis
    by (simp add: secure_new_def SECRET_SIZE_def KEY_SIZE_def dir_new_def sample_codec_def Let_def)
qed

lemma sample_codec_encodes:
  "\<exists>bs. secure_encode null_aead (\<lambda>seed _. seed) (sample_codec 0) sample_frame sample_frame_limits = Inr (bs, sample_codec 1)"
  "\<exists>bs. secure_encode null_aead (\<lambda>seed _. seed) (sample_codec 1) sample_frame sample_frame_limits = Inr (bs, sample_codec 2)"
  by (simp_all add: secure_encode_def prepared_new_def normalized_segments_def validate_descriptors_def
      plaintext_records_def secure_size_def secure_records_def padded_length_def dir_seal_def dir_nonce_def
      dir_available_def null_aead_def sample_codec_def sample_frame_def sample_frame_limits_def
      MAX_SEGMENTS_def trim_empty.simps valid_alignment_def is_power_of_two_def upt_rec
      SECURE_PREAMBLE_SIZE_def PREAMBLE_SIZE_def INLINE_SIZE_def TAG_SIZE_def BLOCK_SIZE_def Let_def)

theorem secure_stream_roundtrip_witness:
  "\<exists>bs sender' receiver'.
     secure_encode_all null_aead (\<lambda>seed _. seed) (sample_codec 0) [sample_frame, sample_frame] sample_frame_limits =
       Inr (bs, sender') \<and>
     secure_read_count null_aead (\<lambda>seed _. seed) (sample_codec 0) 2 (bs @ [7]) sample_frame_limits =
       Inr ([sample_frame, sample_frame], [7], receiver')"
proof -
  obtain b1 where b1: "secure_encode null_aead (\<lambda>seed _. seed) (sample_codec 0) sample_frame sample_frame_limits =
      Inr (b1, sample_codec 1)" using sample_codec_encodes(1) by auto
  obtain b2 where b2: "secure_encode null_aead (\<lambda>seed _. seed) (sample_codec 1) sample_frame sample_frame_limits =
      Inr (b2, sample_codec 2)" using sample_codec_encodes(2) by auto
  have "secure_encode_all null_aead (\<lambda>seed _. seed) (sample_codec 0) [sample_frame, sample_frame] sample_frame_limits =
      Inr (b1 @ b2, sample_codec 2)" using b1 b2 by simp
  from this secure_stream_roundtrip [OF null_aead_ok sample_codec_new [of False] sample_codec_new this, where rest = "[7]"]
  show ?thesis by (auto simp: sample_frame_def trimmed_frame_def trim_empty.simps numeral_2_eq_2)
qed

text \<open>
  C7: A direction never uses a nonce twice: the nonces it hands out in any run of records are
  pairwise distinct, twelve bytes long, and once the counter has passed its last value the
  direction refuses every further record instead of wrapping around.
\<close>

theorem nonces_never_repeat:
  assumes "dir_nonces k d = Inr (ns, d')"
  shows "distinct ns \<and> (\<forall>n \<in> set ns. length n = 12) \<and>
    (dir_counter d = U64_MAX \<and> k \<ge> 1 \<longrightarrow> dir_nonce d' = Inl FE_CounterExhausted)"
proof (intro conjI)
  show "distinct ns" "\<forall>n \<in> set ns. length n = 12" using dir_nonces_fresh [OF assms] by auto
  show "dir_counter d = U64_MAX \<and> k \<ge> 1 \<longrightarrow> dir_nonce d' = Inl FE_CounterExhausted"
  proof
    assume last: "dir_counter d = U64_MAX \<and> k \<ge> 1"
    then obtain j where k: "k = Suc j" by (cases k) auto
    obtain n d1 ns' where n: "dir_nonce d = Inr (n, d1)" and ns': "dir_nonces j d1 = Inr (ns', d')"
      using assms k by auto
    have "dir_exhausted d1" using n last by (auto simp: dir_nonce_def split: if_splits)
    then have stuck: "dir_nonce d1 = Inl FE_CounterExhausted" by (simp add: dir_nonce_def dir_available_def)
    then show "dir_nonce d' = Inl FE_CounterExhausted" using ns' by (cases j) auto
  qed
qed

theorem nonces_never_repeat_witness:
  "\<exists>ns d'. dir_nonces 2 (sc_tx (sample_codec 0)) = Inr (ns, d') \<and> distinct ns \<and> length ns = 2"
proof -
  have "dir_nonces 2 (sc_tx (sample_codec 0)) =
      Inr ([to_le_bytes (0 :: u32) @ to_le_bytes (0 :: u64), to_le_bytes (0 :: u32) @ to_le_bytes (1 :: u64)],
        sc_tx (sample_codec 2))"
    by (simp add: numeral_2_eq_2 sample_codec_def dir_nonce_def dir_available_def)
  from this nonces_never_repeat [OF this] show ?thesis by simp
qed

section \<open>Which nonces a read offers to the cipher\<close>

text \<open>
  \<open>offers low high A f sel d\<close>: started in direction \<open>d\<close>, the read \<open>f A\<close> leaves the direction just after
  a run of nonces, at most \<open>high\<close> and on success at least \<open>low\<close>, and its result depends on the cipher
  only at these nonces.  So every nonce that was offered to the cipher has been consumed.
\<close>

definition left :: "('a \<Rightarrow> direction) \<Rightarrow> (frame_error \<times> direction) + 'a \<Rightarrow> direction" where
  "left sel r = (case r of Inl (e, d) \<Rightarrow> d | Inr x \<Rightarrow> sel x)"

definition same_at :: "aead \<Rightarrow> aead \<Rightarrow> bytes \<Rightarrow> bytes list \<Rightarrow> bool" where
  "same_at A B key ns \<longleftrightarrow> (\<forall>n \<in> set ns. aead_decrypt B key n = aead_decrypt A key n)"

definition offers :: "nat \<Rightarrow> nat \<Rightarrow> aead \<Rightarrow> (aead \<Rightarrow> (frame_error \<times> direction) + 'a) \<Rightarrow> ('a \<Rightarrow> direction) \<Rightarrow> direction \<Rightarrow> bool" where
  "offers low high A f sel d \<longleftrightarrow> (\<exists>ns. length ns \<le> high \<and> (is_ok (f A) \<longrightarrow> low \<le> length ns) \<and>
     dir_nonces (length ns) d = Inr (ns, left sel (f A)) \<and> (\<forall>B. same_at A B (dir_key d) ns \<longrightarrow> f B = f A))"

lemma left_simps [simp]: "left sel (Inl (e, d)) = d" "left sel (Inr x) = sel x"
  by (simp_all add: left_def)

lemma same_at_append [simp]: "same_at A B key (ns @ ms) \<longleftrightarrow> same_at A B key ns \<and> same_at A B key ms"
  by (auto simp: same_at_def)

lemma dir_nonces_add:
  "dir_nonces i d = Inr (ns, d1) \<Longrightarrow> dir_nonces j d1 = Inr (ms, d') \<Longrightarrow> dir_nonces (i + j) d = Inr (ns @ ms, d')"
  by (induction i arbitrary: d ns) auto

lemma dir_nonces_key: "dir_nonces i d = Inr (ns, d') \<Longrightarrow> dir_key d' = dir_key d"
proof (induction i arbitrary: d ns)
  case (Suc i)
  then obtain n d1 ms where "dir_nonce d = Inr (n, d1)" "dir_nonces i d1 = Inr (ms, d')" by auto
  then show ?case using Suc.IH by (auto simp: dir_nonce_def split: if_splits)
qed simp

lemma offers_const: "left sel r = d \<Longrightarrow> offers 0 h A (\<lambda>_. r) sel d"
  unfolding offers_def by (rule exI [of _ "[]"]) simp

lemma offers_bind:
  assumes f: "offers l1 h1 A f sel d" and g: "\<And>x. f A = Inr x \<Longrightarrow> offers l2 h2 A (\<lambda>B. g B x) sel' (sel x)"
    and "l \<le> l1 + l2" "h1 + h2 \<le> h"
  shows "offers l h A (\<lambda>B. rbind (f B) (g B)) sel' d"
proof -
  obtain ns where ns: "length ns \<le> h1" "is_ok (f A) \<longrightarrow> l1 \<le> length ns"
      "dir_nonces (length ns) d = Inr (ns, left sel (f A))" "\<And>B. same_at A B (dir_key d) ns \<Longrightarrow> f B = f A"
    using f by (auto simp: offers_def)
  show ?thesis
  proof (cases "f A")
    case (Inl e)
    obtain err d' where e: "e = (err, d')" by fastforce
    show ?thesis unfolding offers_def
      by (rule exI [of _ ns]) (use ns Inl e assms(4) in auto)
  next
    case (Inr x)
    then obtain ms where ms: "length ms \<le> h2" "is_ok (g A x) \<longrightarrow> l2 \<le> length ms"
        "dir_nonces (length ms) (sel x) = Inr (ms, left sel' (g A x))"
        "\<And>B. same_at A B (dir_key (sel x)) ms \<Longrightarrow> g B x = g A x"
      using g by (auto simp: offers_def)
    have "dir_key (sel x) = dir_key d" using dir_nonces_key [OF ns(3)] Inr by simp
    then show ?thesis unfolding offers_def
      by (intro exI [of _ "ns @ ms"]) (use ns ms Inr assms(3, 4) dir_nonces_add [OF ns(3)] in auto)
  qed
qed

lemma offers_open: "offers 1 1 A (\<lambda>B. dir_open B d c) snd d"
proof (cases "dir_nonce d")
  case (Inl e)
  then show ?thesis unfolding offers_def by (intro exI [of _ "[]"]) (simp add: dir_open_def)
next
  case (Inr x)
  obtain n d' where x: "x = (n, d')" by fastforce
  show ?thesis unfolding offers_def
    by (rule exI [of _ "[n]"]) (simp add: dir_open_def Inr x same_at_def split: option.splits)
qed

lemma offers_mono: "offers l h A f sel d \<Longrightarrow> l' \<le> l \<Longrightarrow> h \<le> h' \<Longrightarrow> offers l' h' A f sel d"
  unfolding offers_def by (meson order.trans)

lemma offers_fail: "offers l h A (\<lambda>_. Inl (e, d)) sel d"
  unfolding offers_def by (rule exI [of _ "[]"]) simp

lemma offers_if:
  "(c \<Longrightarrow> offers l h A f sel d) \<Longrightarrow> (\<not> c \<Longrightarrow> offers l h A g sel d) \<Longrightarrow> offers l h A (\<lambda>B. if c then f B else g B) sel d"
  by (cases c) simp_all

lemma offers_keep:
  assumes "\<And>x. r = Inr x \<Longrightarrow> offers l h A (\<lambda>B. g B x) sel d"
  shows "offers l h A (\<lambda>B. rbind (keep d r) (g B)) sel d"
  using assms by (cases r) (simp_all add: offers_fail)

lemma offers_pair:
  "(\<And>a b. x = (a, b) \<Longrightarrow> offers l h A (\<lambda>B. f B a b) sel d) \<Longrightarrow> offers l h A (\<lambda>B. case x of (a, b) \<Rightarrow> f B a b) sel d"
  by (cases x) simp

lemma offers_bind_open:
  assumes "\<And>p d'. offers 0 h A (\<lambda>B. g B (p, d')) sel d'"
  shows "offers 1 (Suc h) A (\<lambda>B. rbind (dir_open B d c) (g B)) sel d"
  by (rule offers_bind [OF offers_open, of _ _ _ 0 h]) (use assms in auto)

lemmas offers_intros = offers_fail offers_if offers_keep offers_pair offers_const

lemma read_first_data_offers: "offers 0 1 A (\<lambda>B. read_first_data B d bs i n) (\<lambda>(_, d, _). d) d"
  unfolding read_first_data_def One_nat_def
  by (intro offers_intros offers_mono [OF offers_bind_open]) simp_all

lemma read_remaining_offers: "offers 0 1 A (\<lambda>B. read_remaining B d bs ds n) (\<lambda>(_, d, _). d) d"
proof (rule offers_mono)
  show "offers 1 (Suc 0) A (\<lambda>B. read_remaining B d bs ds n) (\<lambda>(_, d, _). d) d"
    unfolding read_remaining_def Let_def
    by (intro offers_intros offers_bind_open) (auto simp: rbind_def map_err_def split: sum.splits)
qed simp_all

lemma read_frame_offers: "offers 1 3 A (\<lambda>B. read_frame B crc d reserve bs limits) (\<lambda>(_, _, d). d) d"
proof -
  have last: "offers 0 1 A (\<lambda>B. rbind (read_remaining B rx bs ds n) (\<lambda>(segments, rx, bs). Inr (f segments, bs, rx))) (\<lambda>(_, _, d). d) rx"
    for rx bs ds n f
    by (rule offers_bind [OF read_remaining_offers, of _ _ _ _ _ 0 0]) (auto intro: offers_const)
  have tail: "offers 0 2 A (\<lambda>B. rbind (read_first_data B rx bs i n) (\<lambda>(x, rx, bs). g B x rx bs)) (\<lambda>(_, _, d). d) rx"
    if "\<And>x rx bs. offers 0 1 A (\<lambda>B. g B x rx bs) (\<lambda>(_, _, d). d) rx" for rx bs i n g
    by (rule offers_bind [OF read_first_data_offers, of _ _ _ _ _ 0 1]) (use that in auto)
  show ?thesis unfolding read_frame_def Let_def numeral_3_eq_3
    by (intro offers_intros offers_bind_open)
      (simp add: numeral_2_eq_2 [symmetric]; intro offers_intros tail last; simp)
qed

definition codec_after :: "(frame_error \<times> secure_codec) + (frame \<times> bytes \<times> secure_codec) \<Rightarrow> secure_codec" where
  "codec_after r = (case r of Inl (e, c) \<Rightarrow> c | Inr (f, rest, c) \<Rightarrow> c)"

text \<open>
  C8: However a read of the stream ends, with a frame, at a truncation, at a failed authentication
  or at a malformed record, the receive direction has consumed the nonces the read offered to the
  cipher: it stands just after a run of at most three nonces, at least one if a frame was read, and
  the outcome depends on what the cipher does under these nonces only.  The next read starts with
  nonces that were not offered yet.  The send direction is untouched.
\<close>

theorem secure_read_advances:
  "\<exists>ns. length ns \<le> 3 \<and> (is_ok (secure_read_reserved A crc c reserve bs limits) \<longrightarrow> ns \<noteq> []) \<and>
    dir_nonces (length ns) (sc_rx c) = Inr (ns, sc_rx (codec_after (secure_read_reserved A crc c reserve bs limits))) \<and>
    sc_tx (codec_after (secure_read_reserved A crc c reserve bs limits)) = sc_tx c \<and>
    (\<forall>B. (\<forall>n \<in> set ns. \<forall>ciphertext. aead_decrypt B (dir_key (sc_rx c)) n ciphertext = aead_decrypt A (dir_key (sc_rx c)) n ciphertext) \<longrightarrow>
       secure_read_reserved B crc c reserve bs limits = secure_read_reserved A crc c reserve bs limits)"
proof -
  let ?f = "\<lambda>B. read_frame B crc (sc_rx c) reserve bs limits"
  from read_frame_offers [of A crc "sc_rx c" reserve bs limits, unfolded offers_def]
  obtain ns where ns: "length ns \<le> 3" "is_ok (?f A) \<longrightarrow> 1 \<le> length ns"
      "dir_nonces (length ns) (sc_rx c) = Inr (ns, left (\<lambda>(_, _, d). d) (?f A))"
      "\<forall>B. same_at A B (dir_key (sc_rx c)) ns \<longrightarrow> ?f B = ?f A"
    by (elim exE conjE)
  have after: "is_ok (secure_read_reserved A crc c reserve bs limits) = is_ok (?f A)"
    "sc_rx (codec_after (secure_read_reserved A crc c reserve bs limits)) = left (\<lambda>(_, _, d). d) (?f A)"
    "sc_tx (codec_after (secure_read_reserved A crc c reserve bs limits)) = sc_tx c"
    by (cases "?f A"; auto simp: secure_read_reserved_def codec_after_def)+
  have "\<forall>B. (\<forall>n \<in> set ns. \<forall>x. aead_decrypt B (dir_key (sc_rx c)) n x = aead_decrypt A (dir_key (sc_rx c)) n x) \<longrightarrow>
      secure_read_reserved B crc c reserve bs limits = secure_read_reserved A crc c reserve bs limits"
  proof (intro allI impI)
    fix B :: aead
    assume "\<forall>n \<in> set ns. \<forall>x. aead_decrypt B (dir_key (sc_rx c)) n x = aead_decrypt A (dir_key (sc_rx c)) n x"
    then have "same_at A B (dir_key (sc_rx c)) ns" by (simp add: same_at_def fun_eq_iff)
    with ns(4) have "?f B = ?f A" by blast
    then show "secure_read_reserved B crc c reserve bs limits = secure_read_reserved A crc c reserve bs limits"
      by (simp add: secure_read_reserved_def)
  qed
  moreover have "is_ok (secure_read_reserved A crc c reserve bs limits) \<longrightarrow> ns \<noteq> []" using ns(2) after(1) by auto
  moreover have "dir_nonces (length ns) (sc_rx c) =
      Inr (ns, sc_rx (codec_after (secure_read_reserved A crc c reserve bs limits)))" using ns(3) after(2) by simp
  ultimately show ?thesis using ns(1) after(3) by (intro exI [of _ ns] conjI)
qed

text \<open>Two reads of streams the cipher refuses: each consumes a nonce.\<close>

definition deaf_aead :: aead where
  "deaf_aead = null_aead\<lparr>aead_decrypt := \<lambda>k n c. None\<rparr>"

lemma deaf_read:
  "secure_read_reserved deaf_aead crc (sample_codec 0) reserve (replicate 96 0) sample_frame_limits =
     Inl (FE_Integrity, (sample_codec 0)\<lparr>sc_rx := (sc_rx (sample_codec 0))\<lparr>dir_counter := 1\<rparr>\<rparr>)"
  by (simp add: secure_read_reserved_def read_frame_def sample_codec_def dir_available_def sample_frame_limits_def
      SECURE_PREAMBLE_SIZE_def PREAMBLE_SIZE_def INLINE_SIZE_def TAG_SIZE_def read_exact_def dir_open_def dir_nonce_def
      deaf_aead_def)

theorem secure_read_advances_witness:
  "\<exists>ns. dir_nonces (length ns) (sc_rx (sample_codec 0)) =
     Inr (ns, (sc_rx (sample_codec 0))\<lparr>dir_counter := 1\<rparr>) \<and> ns \<noteq> [] \<and> length ns \<le> 3"
proof -
  obtain ns where "length ns \<le> 3" "dir_nonces (length ns) (sc_rx (sample_codec 0)) =
      Inr (ns, (sc_rx (sample_codec 0))\<lparr>dir_counter := 1\<rparr>)"
    using secure_read_advances [of deaf_aead "\<lambda>seed _. seed" "sample_codec 0" "\<lambda>_ _. Inr ()" "replicate 96 0" sample_frame_limits]
    by (auto simp: deaf_read codec_after_def)
  moreover from this have "ns \<noteq> []" by (auto simp: sample_codec_def)
  ultimately show ?thesis by blast
qed

end
