(* ===== verification/Msgr_Session.thy ===== *)
theory Msgr_Session
  imports Msgr_Message Msgr_Secure "HOL-Library.State_Monad" "HOL-Library.Multiset"
begin

text \<open>
  \<open>src/msgr/session.rs\<close>: the messenger session, a machine that reacts to inputs (requests, frames,
  transport events) with effects.  An operation of the machine is a computation of the state monad
  over the machine and the effects pushed so far.  \<open>usize\<close> counters are natural numbers and the
  byte counters are 64-bit words; \<open>Msgr_Session_Inv\<close> shows that neither is ever
  decremented below zero nor wraps around.  The two-valued \<open>RenewalPending\<close> is a boolean.  The CRC32C function is a parameter, as in
  \<open>Msgr_Frame\<close>.
\<close>

section \<open>Data\<close>

definition MAX_CONTROL_MESSAGES :: usize where "MAX_CONTROL_MESSAGES = 16"
definition MAX_CONTROL_BYTES :: u64 where "MAX_CONTROL_BYTES = push_bit 20 1"

datatype conn_state = Disconnected | Connecting | Reconnecting | Ready | Waiting | Stopped

datatype reconnect_policy = FailPending | ReplayPending

datatype session_error =
    Ses_Closed | Ses_Disconnected | Ses_Cancelled | Ses_QueueSaturated | Ses_TooManyInFlight
  | Ses_TransitionLimit | Ses_ReconnectExhausted | Ses_OutcomeUnknown | Ses_Renewal | Ses_Malformed
  | Ses_UnsupportedFeature | Ses_UnsupportedPayload | Ses_Frame frame_error

record session_config =
  cf_limits :: frame_limits
  cf_max_queued_messages :: usize
  cf_max_retained_bytes :: u64
  cf_max_in_flight_transactions :: usize
  cf_max_reconnect_attempts :: usize
  cf_max_handshake_transitions :: usize
  cf_reconnect_policy :: reconnect_policy
  cf_client_ident :: client_ident
  cf_client_cookie :: u64
  cf_server_cookie :: u64
  cf_global_sequence :: u64
  cf_connect_sequence :: u64
  cf_replacement_cookies :: "u64 list"

datatype session_input =
    In_Start bool
  | In_InitialConnection "u64 option" "bytes option"
  | In_InitialIdentity u64 "u64 option" "bytes option"
  | In_Admit u64 message bool
  | In_AdmitControl u64 message u64
  | In_Cancel u64
  | In_Dispatch
  | In_WriteComplete u64 "u64 option" "session_error + unit"
  | In_Connected u64 "u64 option" "bytes option"
  | In_ConnectFailed u64
  | In_Control u64 control
  | In_Message u64 message
  | In_Fault u64 session_error
  | In_RenewalDue u64
  | In_ConsumeIncoming
  | In_Stop

datatype session_event =
    Ev_StateChanged conn_state | Ev_SequenceGap u64 u64 | Ev_DuplicateDropped u64 | Ev_Acknowledged u64
  | Ev_KeepaliveAck | Ev_TransportFault session_error | Ev_SessionReset bool | Ev_Retry u64
  | Ev_RetryGlobal u64 | Ev_Wait | Ev_ReconnectOk u64 | Ev_CredentialRenewal
  | Ev_CredentialRenewalCompleted | Ev_EventsDropped u64

datatype effect =
    Eff_Connect u64
  | Eff_CloseTransport u64
  | Eff_SendControl u64 control
  | Eff_SendMessage u64 u64 message
  | Eff_Admitted u64 u64
  | Eff_Completed u64 "message option"
  | Eff_Failed u64 session_error
  | Eff_Incoming message
  | Eff_Event session_event
  | Eff_Terminal session_error

record pending =
  p_request_id :: u64
  p_message :: message
  p_bytes :: u64
  p_sequence :: u64
  p_sent :: bool
  p_may_have_executed :: bool
  p_one_way :: bool
  p_control :: "u64 option"

datatype renewal_state = Renewal_Idle | Renewal_Draining | Renewal_Reconnecting

datatype credential_change = Cred_Unknown | Cred_Unchanged | Cred_Changed

record machine =
  sm_config :: session_config
  sm_state :: conn_state
  sm_generation :: u64
  sm_pending :: "pending list"
  sm_by_transaction :: "u64 \<rightharpoonup> u64"
  sm_replay :: "u64 list"
  sm_controls :: "control list"
  sm_retained_bytes :: u64
  sm_control_generation :: u64
  sm_control_messages :: usize
  sm_control_bytes :: u64
  sm_incoming_count :: usize
  sm_write_busy :: bool
  sm_next_outbound :: "u64 option"
  sm_last_inbound :: u64
  sm_next_transaction_id :: "u64 option"
  sm_client_cookie :: u64
  sm_server_cookie :: u64
  sm_server_global_id :: i64
  sm_server_addresses :: entity_addr_vec
  sm_server_features :: u64
  sm_global_sequence :: u64
  sm_connect_sequence :: u64
  sm_authenticated_global_id :: u64
  sm_credential_identity :: "bytes option"
  sm_candidate_credential_identity :: "bytes option"
  sm_credential_change :: credential_change
  sm_renewal :: renewal_state
  sm_renewal_pending :: bool
  sm_server_flags :: u64
  sm_connected_once :: bool
  sm_reconnect_attempts :: usize
  sm_transitions :: usize
  sm_connect_pending :: bool
  sm_terminal_error :: "session_error option"
  sm_replacement_cookies :: "u64 list"

definition machine_new :: "session_config \<Rightarrow> session_error + machine" where
  "machine_new config =
     (if cf_max_queued_messages config = 0 \<or> cf_max_retained_bytes config = 0 \<or>
         cf_max_in_flight_transactions config = 0 \<or> cf_max_handshake_transitions config = 0 \<or>
         max_segment_bytes (cf_limits config) = 0 \<or> max_frame_bytes (cf_limits config) = 0
      then Inl Ses_Malformed
      else if cf_global_sequence config \<noteq> 0 \<and> ci_global_sequence (cf_client_ident config) \<noteq> 0 \<and>
         cf_global_sequence config \<noteq> ci_global_sequence (cf_client_ident config)
      then Inl Ses_Malformed
      else Inr \<lparr>sm_config = config, sm_state = Disconnected, sm_generation = 0, sm_pending = [],
        sm_by_transaction = Map.empty, sm_replay = [], sm_controls = [], sm_retained_bytes = 0,
        sm_control_generation = 1, sm_control_messages = 0, sm_control_bytes = 0, sm_incoming_count = 0,
        sm_write_busy = False, sm_next_outbound = Some 1, sm_last_inbound = 0,
        sm_next_transaction_id = Some 1, sm_client_cookie = cf_client_cookie config,
        sm_server_cookie = cf_server_cookie config, sm_server_global_id = 0, sm_server_addresses = [],
        sm_server_features = 0,
        sm_global_sequence = max (cf_global_sequence config) (ci_global_sequence (cf_client_ident config)),
        sm_connect_sequence = cf_connect_sequence config, sm_authenticated_global_id = 0,
        sm_credential_identity = None, sm_candidate_credential_identity = None,
        sm_credential_change = Cred_Unknown, sm_renewal = Renewal_Idle, sm_renewal_pending = False,
        sm_server_flags = 0, sm_connected_once = False, sm_reconnect_attempts = 0, sm_transitions = 0,
        sm_connect_pending = False, sm_terminal_error = None,
        sm_replacement_cookies = cf_replacement_cookies config\<rparr>)"

section \<open>Primitive computations\<close>

type_synonym 'a sop = "(machine \<times> effect list, 'a) state"

definition machine :: "machine sop" where
  "machine = State (\<lambda>(m, es). (m, (m, es)))"

definition change :: "(machine \<Rightarrow> machine) \<Rightarrow> unit sop" where
  "change f = State (\<lambda>(m, es). ((), (f m, es)))"

definition push :: "effect \<Rightarrow> unit sop" where
  "push e = State (\<lambda>(m, es). ((), (m, es @ [e])))"

abbreviation ret :: "'a \<Rightarrow> 'a sop" where
  "ret \<equiv> State_Monad.return"

fun for_each :: "'b list \<Rightarrow> ('b \<Rightarrow> unit sop) \<Rightarrow> unit sop" where
  "for_each [] f = ret ()"
| "for_each (x # xs) f = do { f x; for_each xs f }"

definition checked_succ :: "u64 \<Rightarrow> u64 option" where
  "checked_succ n = (if n = U64_MAX then None else Some (n + 1))"

section \<open>Requests\<close>

definition find_pending :: "machine \<Rightarrow> u64 \<Rightarrow> pending option" where
  "find_pending m request_id = find (\<lambda>p. p_request_id p = request_id) (sm_pending m)"

definition in_flight_count :: "machine \<Rightarrow> usize" where
  "in_flight_count m = length (filter (\<lambda>p. p_sent p \<and> p_control p = None) (sm_pending m))"

definition is_control :: "pending \<Rightarrow> bool" where
  "is_control p \<longleftrightarrow> p_control p \<noteq> None"

fun remove_first :: "('a \<Rightarrow> bool) \<Rightarrow> 'a list \<Rightarrow> 'a list" where
  "remove_first P [] = []"
| "remove_first P (x # xs) = (if P x then xs else x # remove_first P xs)"

definition p_transaction_id :: "pending \<Rightarrow> u64" where
  "p_transaction_id p = mh_transaction_id (m_header (p_message p))"

definition drop_pending :: "u64 \<Rightarrow> machine \<Rightarrow> machine" where
  "drop_pending request_id m =
     (case find_pending m request_id of
        None \<Rightarrow> m
      | Some p \<Rightarrow>
          let m = m\<lparr>sm_pending := remove_first (\<lambda>p. p_request_id p = request_id) (sm_pending m),
                    sm_replay := filter (\<lambda>candidate. candidate \<noteq> request_id) (sm_replay m),
                    sm_by_transaction := (sm_by_transaction m)(p_transaction_id p := None)\<rparr> in
          if is_control p
          then m\<lparr>sm_control_messages := sm_control_messages m - 1, sm_control_bytes := sm_control_bytes m - p_bytes p\<rparr>
          else m\<lparr>sm_retained_bytes := sm_retained_bytes m - p_bytes p\<rparr>)"

definition remove_pending :: "u64 \<Rightarrow> unit sop" where
  "remove_pending request_id = change (drop_pending request_id)"

definition admission_bytes :: "(u32 \<Rightarrow> bytes \<Rightarrow> u32) \<Rightarrow> machine \<Rightarrow> message \<Rightarrow> session_error + u64" where
  "admission_bytes crc m msg =
     (let limits = cf_limits (sm_config m) in
      if length (m_front msg) \<ge> 2 ^ 32 \<or> length (m_middle msg) \<ge> 2 ^ 32 \<or> length (m_data msg) \<ge> 2 ^ 32
      then Inl Ses_Malformed
      else
        let front = of_nat (length (m_front msg)) :: u32; middle = of_nat (length (m_middle msg)) :: u32;
            data = of_nat (length (m_data msg)) :: u32 in
        if ml_front (m_lengths msg) \<noteq> front \<or> ml_middle (m_lengths msg) \<noteq> middle \<or>
           ml_data (m_lengths msg) \<noteq> data \<or> mh_data_pre_padding_length (m_header msg) > data \<or>
           front > max_segment_bytes limits \<or> middle > max_segment_bytes limits \<or> data > max_segment_bytes limits
        then Inl Ses_Malformed
        else rbind (map_err Ses_Frame (message_encode msg limits)) (\<lambda>frame.
          if \<not> is_ok (crc_encode crc True frame limits) \<or> \<not> is_ok (validate_frame_size frame limits)
          then Inl Ses_Malformed
          else Inr (of_nat MESSAGE_HEADER_SIZE + ucast front + ucast middle + ucast data)))"

definition trim_replay :: "u64 \<Rightarrow> unit sop" where
  "trim_replay sequence =
     change (\<lambda>m. let sequences = map_of (rev (map (\<lambda>p. (p_request_id p, p_sequence p)) (sm_pending m))) in
       m\<lparr>sm_replay := filter (\<lambda>request_id. case sequences request_id of None \<Rightarrow> False | Some v \<Rightarrow> v > sequence)
          (sm_replay m)\<rparr>)"

fun unsend :: "u64 \<Rightarrow> pending list \<Rightarrow> pending list" where
  "unsend request_id [] = []"
| "unsend request_id (p # ps) =
     (if p_request_id p = request_id then p\<lparr>p_sent := False\<rparr> # ps else p # unsend request_id ps)"

definition prepare_replay :: "unit sop" where
  "prepare_replay = change (\<lambda>m. m\<lparr>sm_pending := fold unsend (sm_replay m) (sm_pending m)\<rparr>)"

definition allocate_sequence :: "machine \<Rightarrow> session_error + (u64 \<times> machine)" where
  "allocate_sequence m =
     (case sm_next_outbound m of
        None \<Rightarrow> Inl Ses_TransitionLimit
      | Some n \<Rightarrow>
          let sequence = max n 1 in
          Inr (sequence, m\<lparr>sm_next_outbound := if sequence = U64_MAX then None else Some (sequence + 1)\<rparr>))"

text \<open>
  The search of \<open>take_transaction_id\<close> for an unused identifier: the first result is the identifier,
  the second the next candidate it leaves behind.
\<close>

lemma following_id_smaller:
  assumes "max n 1 \<noteq> (U64_MAX :: u64)"
  shows "2 ^ 64 - unat (max n 1 + 1) < 2 ^ 64 - unat n"
proof -
  have "max n 1 < U64_MAX" using assms by (metis word_order.not_eq_extremum)
  then have "unat (max n 1 + 1) = Suc (unat (max n 1))" by (rule unat_Suc_less)
  moreover have "unat n \<le> unat (max n 1)" by (simp add: word_le_nat_alt [symmetric])
  moreover have "unat (max n 1 + 1) < 2 ^ 64" using unsigned_less [of "max n 1 + 1"] by simp
  ultimately show ?thesis by linarith
qed

function find_transaction_id :: "(u64 \<rightharpoonup> u64) \<Rightarrow> u64 option \<Rightarrow> u64 option \<times> u64 option" where
  "find_transaction_id used None = (None, None)"
| "find_transaction_id used (Some n) =
     (let transaction_id = max n 1;
          following = (if transaction_id = U64_MAX then None else Some (transaction_id + 1)) in
      if used transaction_id = None then (Some transaction_id, following)
      else find_transaction_id used following)"
  by pat_completeness auto
termination
  by (relation "measure (\<lambda>(used, n). case n of None \<Rightarrow> 0 | Some n \<Rightarrow> Suc (2 ^ 64 - unat n))")
    (use following_id_smaller in \<open>auto split: option.splits\<close>)

definition take_transaction_id :: "(session_error + u64) sop" where
  "take_transaction_id = do {
     m \<leftarrow> machine;
     let (transaction_id, following) = find_transaction_id (sm_by_transaction m) (sm_next_transaction_id m);
     change (\<lambda>m. m\<lparr>sm_next_transaction_id := following\<rparr>);
     ret (case transaction_id of None \<Rightarrow> Inl Ses_TransitionLimit | Some t \<Rightarrow> Inr t)
   }"

section \<open>The observable state\<close>

record snapshot =
  sn_state :: conn_state
  sn_generation :: u64
  sn_next_outbound_sequence :: u64
  sn_last_inbound_sequence :: u64
  sn_next_transaction_id :: u64
  sn_client_cookie :: u64
  sn_server_cookie :: u64
  sn_server_global_id :: i64
  sn_server_addresses :: entity_addr_vec
  sn_server_features :: u64
  sn_global_sequence :: u64
  sn_connect_sequence :: u64
  sn_queued :: usize
  sn_in_flight :: usize
  sn_replay :: usize
  sn_retained_bytes :: u64
  sn_control_generation :: u64
  sn_control_messages :: usize
  sn_control_bytes :: u64
  sn_reconnect_attempts :: usize
  sn_handshake_transitions :: usize
  sn_dropped_events :: u64

definition machine_snapshot :: "machine \<Rightarrow> snapshot" where
  "machine_snapshot m = \<lparr>sn_state = sm_state m, sn_generation = sm_generation m,
     sn_next_outbound_sequence = (case sm_next_outbound m of None \<Rightarrow> 0 | Some n \<Rightarrow> n),
     sn_last_inbound_sequence = sm_last_inbound m,
     sn_next_transaction_id = (case sm_next_transaction_id m of None \<Rightarrow> 0 | Some n \<Rightarrow> n),
     sn_client_cookie = sm_client_cookie m, sn_server_cookie = sm_server_cookie m,
     sn_server_global_id = sm_server_global_id m, sn_server_addresses = sm_server_addresses m,
     sn_server_features = sm_server_features m, sn_global_sequence = sm_global_sequence m,
     sn_connect_sequence = sm_connect_sequence m,
     sn_queued = length (filter (\<lambda>p. \<not> p_sent p \<and> p_control p = None) (sm_pending m)),
     sn_in_flight = in_flight_count m, sn_replay = length (sm_replay m),
     sn_retained_bytes = sm_retained_bytes m, sn_control_generation = sm_control_generation m,
     sn_control_messages = sm_control_messages m, sn_control_bytes = sm_control_bytes m,
     sn_reconnect_attempts = sm_reconnect_attempts m, sn_handshake_transitions = sm_transitions m,
     sn_dropped_events = 0\<rparr>"

definition machine_limits :: "machine \<Rightarrow> frame_limits" where
  "machine_limits m = cf_limits (sm_config m)"

definition queue_limit :: "machine \<Rightarrow> usize" where
  "queue_limit m = cf_max_queued_messages (sm_config m)"

definition retained_limit :: "machine \<Rightarrow> u64" where
  "retained_limit m = cf_max_retained_bytes (sm_config m)"

section \<open>Failures\<close>

definition set_conn_state :: "conn_state \<Rightarrow> unit sop" where
  "set_conn_state s = do {
     m \<leftarrow> machine;
     if sm_state m \<noteq> s then do {
       change (\<lambda>m. m\<lparr>sm_state := s\<rparr>);
       push (Eff_Event (Ev_StateChanged s))
     } else ret ()
   }"

definition fail_all :: "session_error \<Rightarrow> unit sop" where
  "fail_all error = do {
     m \<leftarrow> machine;
     for_each (map (\<lambda>p. (p_request_id p, p_may_have_executed p)) (sm_pending m))
       (\<lambda>(request_id, may_have_executed). push (Eff_Failed request_id
          (if may_have_executed \<and> error \<noteq> Ses_OutcomeUnknown then Ses_OutcomeUnknown else error)));
     change (\<lambda>m. m\<lparr>sm_pending := [], sm_replay := [], sm_by_transaction := Map.empty, sm_retained_bytes := 0,
       sm_control_messages := 0, sm_control_bytes := 0\<rparr>)
   }"

definition fail_terminal :: "session_error \<Rightarrow> unit sop" where
  "fail_terminal error = do {
     m \<leftarrow> machine;
     if sm_terminal_error m \<noteq> None then ret ()
     else do {
       change (\<lambda>m. m\<lparr>sm_terminal_error := Some error\<rparr>);
       push (Eff_Terminal error);
       push (Eff_Event (Ev_TransportFault error));
       change (\<lambda>m. m\<lparr>sm_write_busy := False, sm_controls := [], sm_connect_pending := False\<rparr>);
       push (Eff_CloseTransport (sm_generation m));
       fail_all error;
       set_conn_state Disconnected
     }
   }"

definition invalidate_controls :: "bool sop" where
  "invalidate_controls = do {
     m \<leftarrow> machine;
     case checked_succ (sm_control_generation m) of
       None \<Rightarrow> do { fail_terminal Ses_TransitionLimit; ret False }
     | Some generation \<Rightarrow> do {
         change (\<lambda>m. m\<lparr>sm_control_generation := generation\<rparr>);
         for_each (map (\<lambda>p. (p_request_id p, p_may_have_executed p)) (filter is_control (sm_pending m)))
           (\<lambda>(request_id, sent). do {
              remove_pending request_id;
              push (Eff_Failed request_id (if sent then Ses_OutcomeUnknown else Ses_Disconnected))
            });
         ret True
       }
   }"

definition fail_sent_unknown :: "unit sop" where
  "fail_sent_unknown = do {
     m \<leftarrow> machine;
     for_each (map p_request_id (filter p_sent (sm_pending m)))
       (\<lambda>request_id. do {
          remove_pending request_id;
          push (Eff_Failed request_id Ses_OutcomeUnknown)
        });
     change (\<lambda>m. m\<lparr>sm_replay := []\<rparr>)
   }"

definition reset_for_new_identity :: "unit sop" where
  "reset_for_new_identity = do {
     change (\<lambda>m. m\<lparr>sm_server_cookie := 0, sm_server_flags := 0, sm_connect_sequence := 0, sm_last_inbound := 0,
       sm_next_outbound := Some 1, sm_next_transaction_id := Some 1\<rparr>);
     fail_all Ses_Disconnected
   }"

section \<open>Transports\<close>

definition begin_reconnect :: "unit sop" where
  "begin_reconnect = do {
     m \<leftarrow> machine;
     if cf_max_reconnect_attempts (sm_config m) = 0 \<or>
        sm_reconnect_attempts m \<ge> cf_max_reconnect_attempts (sm_config m)
     then fail_terminal Ses_ReconnectExhausted
     else do {
       change (\<lambda>m. m\<lparr>sm_reconnect_attempts := sm_reconnect_attempts m + 1, sm_connect_pending := True\<rparr>);
       case checked_succ (sm_generation m) of
         None \<Rightarrow> fail_terminal Ses_TransitionLimit
       | Some generation \<Rightarrow> do {
           change (\<lambda>m. m\<lparr>sm_generation := generation\<rparr>);
           push (Eff_Connect generation)
         }
     }
   }"

definition start_transport :: "conn_state \<Rightarrow> bool sop" where
  "start_transport s = do {
     m \<leftarrow> machine;
     case checked_succ (sm_generation m) of
       None \<Rightarrow> do { fail_terminal Ses_TransitionLimit; ret False }
     | Some generation \<Rightarrow> do {
         change (\<lambda>m. m\<lparr>sm_generation := generation\<rparr>);
         set_conn_state s;
         ret True
       }
   }"

definition fault_policy :: "unit sop" where
  "fault_policy = do {
     m \<leftarrow> machine;
     if sm_server_flags m AND CONNECTION_FLAG_LOSSY \<noteq> 0 then do {
       fail_sent_unknown;
       reset_for_new_identity
     }
     else if cf_reconnect_policy (sm_config m) = FailPending then fail_all Ses_Disconnected
     else if sm_server_cookie m = 0 then fail_sent_unknown
     else prepare_replay
   }"

definition fault :: "session_error \<Rightarrow> unit sop" where
  "fault error = do {
     m \<leftarrow> machine;
     if sm_terminal_error m \<noteq> None \<or> sm_state m = Stopped \<or>
        (sm_state m = Disconnected \<and> sm_connect_pending m)
     then ret ()
     else do {
       valid \<leftarrow> invalidate_controls;
       if \<not> valid then ret ()
       else if error = Ses_QueueSaturated then fail_terminal error
       else do {
         push (Eff_Event (Ev_TransportFault error));
         push (Eff_CloseTransport (sm_generation m));
         change (\<lambda>m. m\<lparr>sm_write_busy := False, sm_controls := []\<rparr>);
         fault_policy;
         set_conn_state Disconnected;
         begin_reconnect
       }
     }
   }"

definition start :: "bool \<Rightarrow> unit sop" where
  "start is_ready = do {
     m \<leftarrow> machine;
     if sm_state m \<noteq> Disconnected \<or> sm_connect_pending m \<or> sm_terminal_error m \<noteq> None then ret ()
     else if is_ready then do {
       change (\<lambda>m. m\<lparr>sm_connected_once := True\<rparr>);
       start_transport Ready;
       ret ()
     }
     else begin_reconnect
   }"

definition stop :: "unit sop" where
  "stop = do {
     m \<leftarrow> machine;
     if sm_state m = Stopped then ret ()
     else do {
       set_conn_state Stopped;
       fail_all Ses_Closed;
       change (\<lambda>m. m\<lparr>sm_connect_pending := False\<rparr>);
       push (Eff_CloseTransport (sm_generation m))
     }
   }"

definition require_ready :: "bool sop" where
  "require_ready = do {
     m \<leftarrow> machine;
     if sm_state m = Ready then ret True
     else do { fault Ses_Malformed; ret False }
   }"

definition transition_allowed :: "conn_state \<Rightarrow> bool sop" where
  "transition_allowed expected = do {
     m \<leftarrow> machine;
     if sm_state m \<noteq> expected then do { fault Ses_Malformed; ret False }
     else do {
       change (\<lambda>m. m\<lparr>sm_transitions := sm_transitions m + 1\<rparr>);
       if sm_transitions m + 1 > cf_max_handshake_transitions (sm_config m)
       then do { fault Ses_TransitionLimit; ret False }
       else ret True
     }
   }"

definition accept_acknowledgment :: "u64 \<Rightarrow> bool sop" where
  "accept_acknowledgment sequence = do {
     m \<leftarrow> machine;
     if (case sm_next_outbound m of None \<Rightarrow> False | Some next \<Rightarrow> sequence \<noteq> 0 \<and> sequence \<ge> next)
     then do { fault Ses_Malformed; ret False }
     else ret True
   }"

definition queue_control :: "control \<Rightarrow> unit sop" where
  "queue_control c = do {
     m \<leftarrow> machine;
     if length (sm_controls m) \<ge> cf_max_queued_messages (sm_config m) then fault Ses_QueueSaturated
     else change (\<lambda>m. m\<lparr>sm_controls := sm_controls m @ [c]\<rparr>)
   }"

definition queue_client_ident :: "unit sop" where
  "queue_client_ident = do {
     m \<leftarrow> machine;
     queue_control (Ctl_ClientIdent ((cf_client_ident (sm_config m))
       \<lparr>ci_cookie := sm_client_cookie m, ci_global_sequence := sm_global_sequence m\<rparr>))
   }"

definition queue_reconnect :: "unit sop" where
  "queue_reconnect = do {
     change (\<lambda>m. m\<lparr>sm_controls := []\<rparr>);
     m \<leftarrow> machine;
     queue_control (Ctl_SessionReconnect \<lparr>sr_addresses = ci_addresses (cf_client_ident (sm_config m)),
       sr_client_cookie = sm_client_cookie m, sr_server_cookie = sm_server_cookie m,
       sr_global_sequence = sm_global_sequence m, sr_connect_sequence = sm_connect_sequence m,
       sr_message_sequence = sm_last_inbound m\<rparr>)
   }"

definition refresh_cookie :: "bool sop" where
  "refresh_cookie = do {
     m \<leftarrow> machine;
     case sm_replacement_cookies m of
       [] \<Rightarrow> do { fail_terminal Ses_Disconnected; ret False }
     | cookie # cookies \<Rightarrow> do {
         change (\<lambda>m. m\<lparr>sm_replacement_cookies := cookies\<rparr>);
         if cookie = 0 then do { fail_terminal Ses_Malformed; ret False }
         else do { change (\<lambda>m. m\<lparr>sm_client_cookie := cookie\<rparr>); ret True }
       }
   }"

section \<open>Handlers\<close>

definition assign_transaction_id :: "message \<Rightarrow> (session_error + u64) sop" where
  "assign_transaction_id msg = do {
     m \<leftarrow> machine;
     if mh_transaction_id (m_header msg) = 0 then do {
       taken \<leftarrow> take_transaction_id;
       case taken of
         Inl error \<Rightarrow> do { fail_terminal error; ret (Inl error) }
       | Inr transaction_id \<Rightarrow> ret (Inr transaction_id)
     }
     else if sm_by_transaction m (mh_transaction_id (m_header msg)) \<noteq> None then ret (Inl Ses_Malformed)
     else ret (Inr (mh_transaction_id (m_header msg)))
   }"

definition enqueue :: "u64 \<Rightarrow> message \<Rightarrow> u64 \<Rightarrow> bool \<Rightarrow> bool \<Rightarrow> u64 \<Rightarrow> unit sop" where
  "enqueue request_id msg nbytes one_way as_control transaction_id = do {
     change (\<lambda>m. m\<lparr>sm_pending := sm_pending m @
         [\<lparr>p_request_id = request_id,
           p_message = msg\<lparr>m_header := (m_header msg)\<lparr>mh_transaction_id := transaction_id\<rparr>\<rparr>,
           p_bytes = nbytes, p_sequence = 0, p_sent = False, p_may_have_executed = False,
           p_one_way = one_way,
           p_control = (if as_control then Some (sm_control_generation m) else None)\<rparr>],
       sm_by_transaction := (sm_by_transaction m)(transaction_id \<mapsto> request_id)\<rparr>);
     (if as_control
      then change (\<lambda>m. m\<lparr>sm_control_messages := sm_control_messages m + 1,
             sm_control_bytes := sm_control_bytes m + nbytes\<rparr>)
      else change (\<lambda>m. m\<lparr>sm_retained_bytes := sm_retained_bytes m + nbytes\<rparr>));
     push (Eff_Admitted request_id transaction_id)
   }"

definition admit :: "(u32 \<Rightarrow> bytes \<Rightarrow> u32) \<Rightarrow> u64 \<Rightarrow> message \<Rightarrow> bool \<Rightarrow> bool \<Rightarrow> unit sop" where
  "admit crc request_id msg one_way as_control = do {
     m \<leftarrow> machine;
     case sm_terminal_error m of
       Some error \<Rightarrow> push (Eff_Failed request_id error)
     | None \<Rightarrow>
     if sm_state m = Stopped then push (Eff_Failed request_id Ses_Closed)
     else case admission_bytes crc m msg of
       Inl _ \<Rightarrow> push (Eff_Failed request_id Ses_Malformed)
     | Inr nbytes \<Rightarrow>
     if (if as_control
         then sm_control_messages m \<ge> MAX_CONTROL_MESSAGES \<or>
              unat nbytes > unat MAX_CONTROL_BYTES - unat (sm_control_bytes m)
         else length (sm_pending m) - sm_control_messages m \<ge> cf_max_queued_messages (sm_config m) \<or>
              unat nbytes > unat (cf_max_retained_bytes (sm_config m)) - unat (sm_retained_bytes m))
        \<or> find_pending m request_id \<noteq> None
     then push (Eff_Failed request_id Ses_QueueSaturated)
     else do {
       taken \<leftarrow> assign_transaction_id msg;
       case taken of
         Inl error \<Rightarrow> push (Eff_Failed request_id error)
       | Inr transaction_id \<Rightarrow> enqueue request_id msg nbytes one_way as_control transaction_id
     }
   }"

definition cancel :: "u64 \<Rightarrow> unit sop" where
  "cancel request_id = do {
     m \<leftarrow> machine;
     case find_pending m request_id of
       None \<Rightarrow> ret ()
     | Some p \<Rightarrow> do {
         remove_pending request_id;
         push (Eff_Failed request_id (if p_may_have_executed p then Ses_OutcomeUnknown else Ses_Cancelled))
       }
   }"

text \<open>\<open>Iterator::min_by_key\<close>: the first of the least elements; keys compare lexicographically.\<close>

definition key_less :: "nat \<times> u64 \<Rightarrow> nat \<times> u64 \<Rightarrow> bool" where
  "key_less a b \<longleftrightarrow> fst a < fst b \<or> (fst a = fst b \<and> snd a < snd b)"

fun min_by_key :: "('a \<Rightarrow> nat \<times> u64) \<Rightarrow> 'a list \<Rightarrow> 'a option" where
  "min_by_key key [] = None"
| "min_by_key key (x # xs) = Some (foldl (\<lambda>best y. if key_less (key y) (key best) then y else best) x xs)"

definition dispatch_key :: "pending \<Rightarrow> nat \<times> u64" where
  "dispatch_key p =
     (if p_sequence p = 0 then (if p_control p \<noteq> None then (1, 0) else (2, 0)) else (0, p_sequence p))"

definition next_index :: "machine \<Rightarrow> nat option" where
  "next_index m =
     min_by_key (\<lambda>i. dispatch_key (sm_pending m ! i))
       (filter (\<lambda>i. let p = sm_pending m ! i in
          \<not> p_sent p \<and> (p_control p \<noteq> None \<or> (sm_renewal m \<noteq> Renewal_Draining \<and>
            in_flight_count m < cf_max_in_flight_transactions (sm_config m)))) [0..<length (sm_pending m)])"

definition update_pending :: "nat \<Rightarrow> (pending \<Rightarrow> pending) \<Rightarrow> machine \<Rightarrow> machine" where
  "update_pending index f m = m\<lparr>sm_pending := (sm_pending m)[index := f (sm_pending m ! index)]\<rparr>"

definition assign_sequence :: "nat \<Rightarrow> bool sop" where
  "assign_sequence index = do {
     m \<leftarrow> machine;
     if p_sequence (sm_pending m ! index) = 0 then
       case allocate_sequence m of
         Inl error \<Rightarrow> do { fail_terminal error; ret False }
       | Inr (sequence, m') \<Rightarrow> do {
           change (\<lambda>_. update_pending index (\<lambda>p. p\<lparr>p_sequence := sequence,
             p_message := (p_message p)\<lparr>m_header := (m_header (p_message p))\<lparr>mh_sequence := sequence\<rparr>\<rparr>\<rparr>) m');
           ret True
         }
     else ret True
   }"

definition send_pending :: "nat \<Rightarrow> unit sop" where
  "send_pending index = do {
     change (update_pending index (\<lambda>p. p\<lparr>p_sent := True, p_may_have_executed := True\<rparr>));
     m \<leftarrow> machine;
     let p = sm_pending m ! index;
     change (\<lambda>m. m\<lparr>sm_replay :=
       (if p_request_id p \<in> set (sm_replay m) then sm_replay m else sm_replay m @ [p_request_id p]),
       sm_write_busy := True\<rparr>);
     push (Eff_SendMessage (sm_generation m) (p_request_id p) (p_message p))
   }"

definition dispatch :: "unit sop" where
  "dispatch = do {
     m \<leftarrow> machine;
     if sm_write_busy m \<or> sm_state m \<in> {Disconnected, Waiting, Stopped} then ret ()
     else case sm_controls m of
       c # cs \<Rightarrow> do {
         change (\<lambda>m. m\<lparr>sm_controls := cs, sm_write_busy := True\<rparr>);
         push (Eff_SendControl (sm_generation m) c)
       }
     | [] \<Rightarrow>
         if sm_state m \<noteq> Ready then ret ()
         else if sm_renewal m = Renewal_Draining \<and> sm_control_messages m = 0 then
           (if in_flight_count m = 0 then do {
              change (\<lambda>m. m\<lparr>sm_renewal := Renewal_Reconnecting\<rparr>);
              fault Ses_Renewal
            }
            else ret ())
         else case next_index m of
           None \<Rightarrow> ret ()
         | Some index \<Rightarrow> do {
             assigned \<leftarrow> assign_sequence index;
             if assigned then send_pending index else ret ()
           }
   }"

definition establish :: "u64 \<Rightarrow> unit sop" where
  "establish generation = do {
     m \<leftarrow> machine;
     if sm_server_cookie m \<noteq> 0 then
       case checked_succ (sm_connect_sequence m) of
         None \<Rightarrow> do { fail_terminal Ses_TransitionLimit; push (Eff_CloseTransport generation) }
       | Some next \<Rightarrow> do {
           change (\<lambda>m. m\<lparr>sm_connect_sequence := next\<rparr>);
           started \<leftarrow> start_transport Reconnecting;
           if \<not> started then push (Eff_CloseTransport generation) else queue_reconnect
         }
     else do {
       fresh \<leftarrow> refresh_cookie;
       if \<not> fresh then push (Eff_CloseTransport generation)
       else do {
         change (\<lambda>m. m\<lparr>sm_connect_sequence := 0\<rparr>);
         started \<leftarrow> start_transport Connecting;
         if \<not> started then push (Eff_CloseTransport generation) else queue_client_ident
       }
     }
   }"

definition adopt_identity :: "u64 option \<Rightarrow> bool sop" where
  "adopt_identity authenticated_global_id =
     (case authenticated_global_id of
        None \<Rightarrow> ret True
      | Some global_id \<Rightarrow> do {
          m \<leftarrow> machine;
          change (\<lambda>m. m\<lparr>sm_authenticated_global_id := global_id\<rparr>);
          if unat global_id \<ge> 2 ^ 63 then do { fail_terminal Ses_Malformed; ret False }
          else do {
            change (\<lambda>m. m\<lparr>sm_config := (sm_config m)\<lparr>cf_client_ident :=
              (cf_client_ident (sm_config m))\<lparr>ci_global_id := uint global_id\<rparr>\<rparr>\<rparr>);
            if sm_authenticated_global_id m \<noteq> 0 \<and> sm_authenticated_global_id m \<noteq> global_id
            then do { reset_for_new_identity; ret True }
            else ret True
          }
        })"

definition judge_credential :: "bytes option \<Rightarrow> machine \<Rightarrow> machine" where
  "judge_credential credential_identity m =
     (case credential_identity of
        None \<Rightarrow> m\<lparr>sm_candidate_credential_identity := None, sm_credential_change := Cred_Unknown\<rparr>
      | Some identity \<Rightarrow>
          if sm_credential_identity m = Some identity then m\<lparr>sm_credential_change := Cred_Unchanged\<rparr>
          else m\<lparr>sm_candidate_credential_identity := Some identity, sm_credential_change := Cred_Changed\<rparr>)"

definition advance_global_sequence :: "bool sop" where
  "advance_global_sequence = do {
     m \<leftarrow> machine;
     if sm_connected_once m then
       case checked_succ (sm_global_sequence m) of
         None \<Rightarrow> do { fail_terminal Ses_TransitionLimit; ret False }
       | Some next \<Rightarrow> do { change (\<lambda>m. m\<lparr>sm_global_sequence := next\<rparr>); ret True }
     else ret True
   }"

definition connected :: "u64 \<Rightarrow> u64 option \<Rightarrow> bytes option \<Rightarrow> unit sop" where
  "connected generation authenticated_global_id credential_identity = do {
     m \<leftarrow> machine;
     if generation \<noteq> sm_generation m \<or> \<not> sm_connect_pending m then push (Eff_CloseTransport generation)
     else do {
       change (\<lambda>m. m\<lparr>sm_connect_pending := False, sm_terminal_error := None, sm_transitions := 0\<rparr>);
       advanced \<leftarrow> advance_global_sequence;
       if \<not> advanced then push (Eff_CloseTransport generation)
       else do {
         change (\<lambda>m. m\<lparr>sm_connected_once := True\<rparr>);
         adopted \<leftarrow> adopt_identity authenticated_global_id;
         if \<not> adopted then push (Eff_CloseTransport generation)
         else do {
           change (judge_credential credential_identity);
           establish generation
         }
       }
     }
   }"

definition complete_renewal :: "bool sop" where
  "complete_renewal = do {
     m \<leftarrow> machine;
     if sm_renewal m \<noteq> Renewal_Reconnecting then ret True
     else if sm_credential_change m = Cred_Changed then do {
       change (\<lambda>m. m\<lparr>sm_credential_identity := sm_candidate_credential_identity m,
         sm_candidate_credential_identity := None\<rparr>);
       (if sm_renewal_pending m then do {
          change (\<lambda>m. m\<lparr>sm_renewal_pending := False\<rparr>);
          push (Eff_Event Ev_CredentialRenewal);
          change (\<lambda>m. m\<lparr>sm_renewal := Renewal_Draining\<rparr>)
        }
        else change (\<lambda>m. m\<lparr>sm_renewal := Renewal_Idle\<rparr>));
       change (\<lambda>m. m\<lparr>sm_credential_change := Cred_Unknown\<rparr>);
       push (Eff_Event Ev_CredentialRenewalCompleted);
       ret True
     }
     else do { fault Ses_Renewal; ret False }
   }"

definition reset :: "bool \<Rightarrow> unit sop" where
  "reset full = do {
     valid \<leftarrow> invalidate_controls;
     if \<not> valid then ret ()
     else do {
       push (Eff_Event (Ev_SessionReset full));
       change (\<lambda>m. m\<lparr>sm_server_cookie := 0, sm_server_flags := 0, sm_connect_sequence := 0, sm_last_inbound := 0\<rparr>);
       proceed \<leftarrow>
         (if full then do {
            fresh \<leftarrow> refresh_cookie;
            if \<not> fresh then ret False
            else do {
              change (\<lambda>m. m\<lparr>sm_next_outbound := Some 1, sm_next_transaction_id := Some 1\<rparr>);
              fail_all Ses_Disconnected;
              ret True
            }
          }
          else do { prepare_replay; ret True });
       if proceed then do {
         set_conn_state Connecting;
         queue_client_ident
       } else ret ()
     }
   }"

definition server_ident_received :: "server_ident \<Rightarrow> unit sop" where
  "server_ident_received ident = do {
     m \<leftarrow> machine;
     if sm_state m \<noteq> Connecting then fault Ses_Malformed
     else do {
       change (\<lambda>m. m\<lparr>sm_transitions := sm_transitions m + 1\<rparr>);
       if sm_transitions m + 1 > cf_max_handshake_transitions (sm_config m) then fault Ses_TransitionLimit
       else if si_required_features ident AND NOT (ci_supported_features (cf_client_ident (sm_config m))) \<noteq> 0 \<or>
         ci_required_features (cf_client_ident (sm_config m)) AND NOT (si_supported_features ident) \<noteq> 0
       then fail_terminal Ses_UnsupportedFeature
       else if \<not> list_ex (\<lambda>address. addr_has_same_endpoint address (ci_target_address (cf_client_ident (sm_config m))))
         (si_addresses ident)
       then fault Ses_Malformed
       else do {
         change (\<lambda>m. m\<lparr>sm_server_cookie := si_cookie ident, sm_server_global_id := si_global_id ident,
           sm_server_addresses := si_addresses ident, sm_server_features := si_supported_features ident,
           sm_server_flags := si_flags ident\<rparr>);
         fail_sent_unknown;
         completed \<leftarrow> complete_renewal;
         if completed then do {
           change (\<lambda>m. m\<lparr>sm_reconnect_attempts := 0\<rparr>);
           set_conn_state Ready
         } else ret ()
       }
     }
   }"

definition deliver_incoming :: "message \<Rightarrow> unit sop" where
  "deliver_incoming msg = do {
     m \<leftarrow> machine;
     if sm_incoming_count m \<ge> cf_max_queued_messages (sm_config m) then fail_terminal Ses_QueueSaturated
     else do {
       change (\<lambda>m. m\<lparr>sm_incoming_count := sm_incoming_count m + 1\<rparr>);
       push (Eff_Incoming msg)
     }
   }"

definition message_received :: "message \<Rightarrow> unit sop" where
  "message_received msg = do {
     m \<leftarrow> machine;
     if sm_state m \<noteq> Ready then fault Ses_Malformed
     else do {
       accepted \<leftarrow> accept_acknowledgment (mh_ack_sequence (m_header msg));
       if \<not> accepted then ret ()
       else if mh_sequence (m_header msg) \<le> sm_last_inbound m
       then push (Eff_Event (Ev_DuplicateDropped (mh_sequence (m_header msg))))
       else do {
         (if sm_last_inbound m \<noteq> U64_MAX \<and> mh_sequence (m_header msg) \<noteq> sm_last_inbound m + 1
          then push (Eff_Event (Ev_SequenceGap (mh_sequence (m_header msg)) (sm_last_inbound m + 1)))
          else ret ());
         change (\<lambda>m. m\<lparr>sm_last_inbound := mh_sequence (m_header msg)\<rparr>);
         trim_replay (mh_ack_sequence (m_header msg));
         queue_control (Ctl_Ack (mh_sequence (m_header msg)));
         m \<leftarrow> machine;
         case Option.bind (sm_by_transaction m (mh_transaction_id (m_header msg))) (find_pending m) of
           Some p \<Rightarrow>
             if p_may_have_executed p \<and> \<not> p_one_way p then do {
               remove_pending (p_request_id p);
               push (Eff_Completed (p_request_id p) (Some msg))
             }
             else deliver_incoming msg
         | None \<Rightarrow> deliver_incoming msg
       }
     }
   }"

definition session_reconnect_ok :: "u64 \<Rightarrow> unit sop" where
  "session_reconnect_ok message_sequence = do {
     allowed \<leftarrow> transition_allowed Reconnecting;
     if \<not> allowed then ret ()
     else do {
       accepted \<leftarrow> accept_acknowledgment message_sequence;
       if \<not> accepted then ret ()
       else do {
         trim_replay message_sequence;
         prepare_replay;
         completed \<leftarrow> complete_renewal;
         if completed then do {
           change (\<lambda>m. m\<lparr>sm_reconnect_attempts := 0\<rparr>);
           set_conn_state Ready;
           push (Eff_Event (Ev_ReconnectOk message_sequence))
         } else ret ()
       }
     }
   }"

definition session_retry :: "u64 \<Rightarrow> unit sop" where
  "session_retry connect_sequence = do {
     allowed \<leftarrow> transition_allowed Reconnecting;
     if \<not> allowed then ret ()
     else case checked_succ connect_sequence of
       None \<Rightarrow> fail_terminal Ses_TransitionLimit
     | Some next \<Rightarrow> do {
         change (\<lambda>m. m\<lparr>sm_connect_sequence := next\<rparr>);
         push (Eff_Event (Ev_Retry next));
         queue_reconnect
       }
   }"

definition session_retry_global :: "u64 \<Rightarrow> unit sop" where
  "session_retry_global global_sequence = do {
     allowed \<leftarrow> transition_allowed Reconnecting;
     if \<not> allowed then ret ()
     else do {
       m \<leftarrow> machine;
       case checked_succ (max (sm_global_sequence m) global_sequence) of
         None \<Rightarrow> fail_terminal Ses_TransitionLimit
       | Some next \<Rightarrow> do {
           change (\<lambda>m. m\<lparr>sm_global_sequence := next\<rparr>);
           push (Eff_Event (Ev_RetryGlobal next));
           queue_reconnect
         }
     }
   }"

definition wait_received :: "unit sop" where
  "wait_received = do {
     m \<leftarrow> machine;
     if sm_state m \<notin> {Connecting, Reconnecting} then fault Ses_Malformed
     else do {
       change (\<lambda>m. m\<lparr>sm_transitions := sm_transitions m + 1\<rparr>);
       set_conn_state Waiting;
       push (Eff_Event Ev_Wait);
       fault Ses_Disconnected
     }
   }"

fun control_received :: "control \<Rightarrow> unit sop" where
  "control_received (Ctl_Ack sequence) = do {
     is_ready \<leftarrow> require_ready;
     if \<not> is_ready then ret ()
     else do {
       accepted \<leftarrow> accept_acknowledgment sequence;
       if \<not> accepted then ret ()
       else do {
         trim_replay sequence;
         push (Eff_Event (Ev_Acknowledged sequence))
       }
     }
   }"
| "control_received (Ctl_Keepalive2 ts) = do {
     is_ready \<leftarrow> require_ready;
     if is_ready then queue_control (Ctl_Keepalive2Ack ts) else ret ()
   }"
| "control_received (Ctl_Keepalive2Ack ts) = do {
     is_ready \<leftarrow> require_ready;
     if is_ready then push (Eff_Event Ev_KeepaliveAck) else ret ()
   }"
| "control_received (Ctl_SessionReset full) = do {
     allowed \<leftarrow> transition_allowed Reconnecting;
     if allowed then reset full else ret ()
   }"
| "control_received (Ctl_SessionRetry connect_sequence) = session_retry connect_sequence"
| "control_received (Ctl_SessionRetryGlobal global_sequence) = session_retry_global global_sequence"
| "control_received Ctl_Wait = wait_received"
| "control_received (Ctl_SessionReconnectOk message_sequence) = session_reconnect_ok message_sequence"
| "control_received (Ctl_ServerIdent ident) = server_ident_received ident"
| "control_received (Ctl_IdentMissingFeatures features) = fail_terminal Ses_UnsupportedPayload"
| "control_received _ = fault Ses_UnsupportedPayload"

definition renewal_due :: "u64 \<Rightarrow> unit sop" where
  "renewal_due generation = do {
     m \<leftarrow> machine;
     if generation \<noteq> sm_generation m then ret ()
     else if sm_renewal m = Renewal_Idle then do {
       valid \<leftarrow> invalidate_controls;
       if \<not> valid then ret ()
       else do {
         change (\<lambda>m. m\<lparr>sm_renewal := Renewal_Draining\<rparr>);
         push (Eff_Event Ev_CredentialRenewal)
       }
     }
     else change (\<lambda>m. m\<lparr>sm_renewal_pending := True\<rparr>)
   }"

definition write_complete :: "u64 option \<Rightarrow> session_error + unit \<Rightarrow> unit sop" where
  "write_complete request_id result = do {
     change (\<lambda>m. m\<lparr>sm_write_busy := False\<rparr>);
     case result of
       Inl error \<Rightarrow> fault error
     | Inr _ \<Rightarrow> do {
         m \<leftarrow> machine;
         case Option.bind request_id (find_pending m) of
           Some p \<Rightarrow>
             if p_one_way p then do {
               remove_pending (p_request_id p);
               push (Eff_Completed (p_request_id p) None)
             } else ret ()
         | None \<Rightarrow> ret ()
       }
   }"

definition admit_control :: "(u32 \<Rightarrow> bytes \<Rightarrow> u32) \<Rightarrow> u64 \<Rightarrow> message \<Rightarrow> u64 \<Rightarrow> unit sop" where
  "admit_control crc request_id msg generation = do {
     m \<leftarrow> machine;
     if generation \<noteq> sm_control_generation m \<or> sm_state m \<noteq> Ready
     then push (Eff_Failed request_id Ses_Disconnected)
     else if mh_message_type (m_header msg) \<noteq> 61 \<or> mh_version (m_header msg) \<noteq> 1 \<or>
       mh_compat_version (m_header msg) > 1 \<or> length (m_front msg) < 29 \<or> m_front msg ! 28 \<noteq> 2 \<or>
       m_middle msg \<noteq> [] \<or> m_data msg \<noteq> []
     then push (Eff_Failed request_id Ses_UnsupportedPayload)
     else admit crc request_id msg True True
   }"

fun react :: "(u32 \<Rightarrow> bytes \<Rightarrow> u32) \<Rightarrow> session_input \<Rightarrow> unit sop" where
  "react crc (In_Start is_ready) = start is_ready"
| "react crc (In_InitialConnection authenticated_global_id credential_identity) = do {
     m \<leftarrow> machine;
     if sm_state m = Disconnected \<and> \<not> sm_connect_pending m then do {
       change (\<lambda>m. m\<lparr>sm_connect_pending := True\<rparr>);
       connected (sm_generation m) authenticated_global_id credential_identity
     } else ret ()
   }"
| "react crc (In_InitialIdentity generation authenticated_global_id credential_identity) = do {
     m \<leftarrow> machine;
     if generation = sm_generation m \<and> sm_state m = Ready then do {
       (case authenticated_global_id of
          None \<Rightarrow> ret ()
        | Some global_id \<Rightarrow> change (\<lambda>m. m\<lparr>sm_authenticated_global_id := global_id\<rparr>));
       change (\<lambda>m. m\<lparr>sm_credential_identity := credential_identity\<rparr>)
     } else ret ()
   }"
| "react crc (In_Admit request_id msg one_way) = admit crc request_id msg one_way False"
| "react crc (In_AdmitControl request_id msg generation) = admit_control crc request_id msg generation"
| "react crc (In_Cancel request_id) = cancel request_id"
| "react crc In_Dispatch = dispatch"
| "react crc (In_WriteComplete generation request_id result) = do {
     m \<leftarrow> machine;
     if generation = sm_generation m then write_complete request_id result else ret ()
   }"
| "react crc (In_Connected generation authenticated_global_id credential_identity) =
     connected generation authenticated_global_id credential_identity"
| "react crc (In_ConnectFailed generation) = do {
     m \<leftarrow> machine;
     if generation = sm_generation m \<and> sm_connect_pending m then do {
       change (\<lambda>m. m\<lparr>sm_connect_pending := False\<rparr>);
       push (Eff_Event (Ev_TransportFault Ses_Disconnected));
       begin_reconnect
     } else ret ()
   }"
| "react crc (In_Control generation c) = do {
     m \<leftarrow> machine;
     if generation = sm_generation m then control_received c else ret ()
   }"
| "react crc (In_Message generation msg) = do {
     m \<leftarrow> machine;
     if generation = sm_generation m then message_received msg else ret ()
   }"
| "react crc (In_Fault generation error) = do {
     m \<leftarrow> machine;
     if generation = sm_generation m then fault error else ret ()
   }"
| "react crc (In_RenewalDue generation) = renewal_due generation"
| "react crc In_ConsumeIncoming = change (\<lambda>m. m\<lparr>sm_incoming_count := sm_incoming_count m - 1\<rparr>)"
| "react crc In_Stop = stop"

definition session_step :: "(u32 \<Rightarrow> bytes \<Rightarrow> u32) \<Rightarrow> machine \<Rightarrow> session_input \<Rightarrow> machine \<times> effect list" where
  "session_step crc m input = snd (run_state (react crc input) (m, []))"

end
