(* ===== verification/Msgr_Session_Inv.thy ===== *)
theory Msgr_Session_Inv
  imports Msgr_Session
begin

text \<open>
  What the session of \<open>Msgr_Session\<close> guarantees in every state it can reach: its accounts are exact
  and bounded, every submitted request is resolved exactly once, and a request that may have been
  executed is never reported as if it had not been.
\<close>

section \<open>A program logic for session operations\<close>

text \<open>\<open>wp c Q s\<close>: run from \<open>s\<close>, the computation \<open>c\<close> ends with a result and a state satisfying \<open>Q\<close>.\<close>

definition wp :: "'a sop \<Rightarrow> ('a \<Rightarrow> machine \<times> effect list \<Rightarrow> bool) \<Rightarrow> machine \<times> effect list \<Rightarrow> bool" where
  "wp c Q s = (case run_state c s of (a, s') \<Rightarrow> Q a s')"

lemma run_primitives [simp]:
  "run_state machine (m, es) = (m, (m, es))"
  "run_state (change f) (m, es) = ((), (f m, es))"
  "run_state (push e) (m, es) = ((), (m, es @ [e]))"
  by (simp_all add: machine_def change_def push_def)

lemma wp_simps [simp]:
  "wp (ret x) Q = Q x"
  "wp (State_Monad.bind c f) R = wp c (\<lambda>a. wp (f a) R)"
  "wp machine T (m, es) = T m (m, es)"
  "wp (change g) U (m, es) = U () (g m, es)"
  "wp (push e) U (m, es) = U () (m, es @ [e])"
  by (auto simp: wp_def fun_eq_iff split: prod.splits)

lemma wp_mono: "wp c Q s \<Longrightarrow> (\<And>a m es. Q a (m, es) \<Longrightarrow> R a (m, es)) \<Longrightarrow> wp c R s"
  by (auto simp: wp_def split: prod.splits)

lemma wp_run: "wp c Q s \<Longrightarrow> run_state c s = (a, s') \<Longrightarrow> Q a s'"
  by (simp add: wp_def)

lemma run_for_each_push:
  "run_state (for_each xs (\<lambda>x. push (f x))) (m, es) = ((), (m, es @ map f xs))"
  by (induction xs arbitrary: es) simp_all

lemma for_each_map: "for_each (map g xs) f = for_each xs (\<lambda>x. f (g x))"
  by (induction xs) simp_all

section \<open>The invariant\<close>

abbreviation request_ids :: "machine \<Rightarrow> u64 list" where
  "request_ids m \<equiv> map p_request_id (sm_pending m)"

definition total_bytes :: "pending list \<Rightarrow> nat" where
  "total_bytes ps = sum_list (map (\<lambda>p. unat (p_bytes p)) ps)"

definition requests_ok :: "machine \<Rightarrow> bool" where
  "requests_ok m \<longleftrightarrow>
     distinct (request_ids m) \<and> distinct (map p_transaction_id (sm_pending m)) \<and>
     sm_by_transaction m = map_of (map (\<lambda>p. (p_transaction_id p, p_request_id p)) (sm_pending m))"

definition accounts_ok :: "machine \<Rightarrow> bool" where
  "accounts_ok m \<longleftrightarrow>
     sm_control_messages m = length (filter is_control (sm_pending m)) \<and>
     unat (sm_control_bytes m) = total_bytes (filter is_control (sm_pending m)) \<and>
     unat (sm_retained_bytes m) = total_bytes (filter (\<lambda>p. \<not> is_control p) (sm_pending m))"

definition bounds_ok :: "machine \<Rightarrow> bool" where
  "bounds_ok m \<longleftrightarrow>
     sm_control_messages m \<le> MAX_CONTROL_MESSAGES \<and>
     sm_control_bytes m \<le> MAX_CONTROL_BYTES \<and>
     sm_retained_bytes m \<le> cf_max_retained_bytes (sm_config m) \<and>
     length (filter (\<lambda>p. \<not> is_control p) (sm_pending m)) \<le> cf_max_queued_messages (sm_config m) \<and>
     in_flight_count m \<le> cf_max_in_flight_transactions (sm_config m) \<and>
     length (sm_controls m) \<le> cf_max_queued_messages (sm_config m) \<and>
     sm_incoming_count m \<le> cf_max_queued_messages (sm_config m) \<and>
     sm_reconnect_attempts m \<le> cf_max_reconnect_attempts (sm_config m)"

definition numbered :: "u64 option \<Rightarrow> pending \<Rightarrow> bool" where
  "numbered next p \<longleftrightarrow>
     (p_sent p \<longrightarrow> p_may_have_executed p) \<and> (p_may_have_executed p \<longrightarrow> p_sequence p \<noteq> 0) \<and>
     (p_sequence p \<noteq> 0 \<longrightarrow> mh_sequence (m_header (p_message p)) = p_sequence p \<and>
        (case next of None \<Rightarrow> True | Some n \<Rightarrow> p_sequence p < n))"

definition sequences_ok :: "machine \<Rightarrow> bool" where
  "sequences_ok m \<longleftrightarrow>
     (\<forall>p \<in> set (sm_pending m). numbered (sm_next_outbound m) p) \<and>
     distinct (filter (\<lambda>n. n \<noteq> 0) (map p_sequence (sm_pending m))) \<and>
     distinct (sm_replay m) \<and>
     (\<forall>r \<in> set (sm_replay m). \<exists>p \<in> set (sm_pending m). p_request_id p = r \<and> p_may_have_executed p)"

definition lifecycle_ok :: "machine \<Rightarrow> bool" where
  "lifecycle_ok m \<longleftrightarrow>
     (sm_connect_pending m \<longrightarrow> sm_state m = Disconnected \<and> sm_terminal_error m = None) \<and>
     (sm_state m = Stopped \<longrightarrow> sm_pending m = []) \<and>
     (sm_terminal_error m \<noteq> None \<longrightarrow> sm_pending m = [] \<and> sm_state m \<in> {Disconnected, Stopped})"

definition session_ok :: "machine \<Rightarrow> bool" where
  "session_ok m \<longleftrightarrow> requests_ok m \<and> accounts_ok m \<and> bounds_ok m \<and> sequences_ok m \<and> lifecycle_ok m"

text \<open>
  The history of a session: which requests were resolved by its effects, and which were put on the
  wire.  \<open>S\<close> is the multiset of the requests submitted so far.
\<close>

fun resolves :: "effect \<Rightarrow> u64 option" where
  "resolves (Eff_Completed r reply) = Some r"
| "resolves (Eff_Failed r error) = Some r"
| "resolves _ = None"

definition resolved :: "effect list \<Rightarrow> u64 list" where
  "resolved es = List.map_filter resolves es"

definition sent_ids :: "effect list \<Rightarrow> u64 set" where
  "sent_ids es = {r. \<exists>g msg. Eff_SendMessage g r msg \<in> set es}"

definition ledger_ok :: "u64 multiset \<Rightarrow> machine \<Rightarrow> effect list \<Rightarrow> bool" where
  "ledger_ok S m es \<longleftrightarrow> mset (resolved es) + mset (request_ids m) = S"

definition honest :: "u64 multiset \<Rightarrow> machine \<Rightarrow> effect list \<Rightarrow> bool" where
  "honest S m es \<longleftrightarrow> ((\<forall>r. count S r \<le> 1) \<longrightarrow>
     (\<forall>p \<in> set (sm_pending m). p_may_have_executed p \<longleftrightarrow> p_request_id p \<in> sent_ids es) \<and>
     (\<forall>r error. Eff_Failed r error \<in> set es \<longrightarrow> error \<noteq> Ses_OutcomeUnknown \<longrightarrow> r \<notin> sent_ids es) \<and>
     (\<forall>r reply. Eff_Completed r (Some reply) \<in> set es \<longrightarrow> r \<in> sent_ids es) \<and>
     sent_ids es \<subseteq> set_mset S)"

text \<open>The configuration without the identity the session learns when it connects.\<close>

definition config_core :: "session_config \<Rightarrow> session_config" where
  "config_core c = c\<lparr>cf_client_ident := (cf_client_ident c)\<lparr>ci_global_id := 0\<rparr>\<rparr>"

definition good :: "u64 multiset \<Rightarrow> machine \<Rightarrow> effect list \<Rightarrow> machine \<times> effect list \<Rightarrow> bool" where
  "good S m0 h s \<longleftrightarrow> session_ok (fst s) \<and> ledger_ok S (fst s) (h @ snd s) \<and> honest S (fst s) (h @ snd s) \<and>
     config_core (sm_config (fst s)) = config_core (sm_config m0) \<and> sm_generation m0 \<le> sm_generation (fst s)"

lemma resolved_simps [simp]:
  "resolved [] = []" "resolved (e # es) = (case resolves e of None \<Rightarrow> resolved es | Some r \<Rightarrow> r # resolved es)"
  "resolved (xs @ ys) = resolved xs @ resolved ys"
  by (auto simp: resolved_def List.map_filter_def split: option.splits)

lemma sent_ids_simps [simp]:
  "sent_ids [] = {}" "sent_ids (xs @ ys) = sent_ids xs \<union> sent_ids ys"
  "sent_ids [Eff_SendMessage g r msg] = {r}"
  by (auto simp: sent_ids_def)

text \<open>Effects that neither resolve nor send a request.\<close>

definition neutral :: "effect \<Rightarrow> bool" where
  "neutral e \<longleftrightarrow> resolves e = None \<and> sent_ids [e] = {}"

lemma neutral_effects [simp]:
  "neutral (Eff_Connect g)" "neutral (Eff_CloseTransport g)" "neutral (Eff_SendControl g c)"
  "neutral (Eff_Admitted r t)" "neutral (Eff_Incoming msg)" "neutral (Eff_Event ev)" "neutral (Eff_Terminal error)"
  by (simp_all add: neutral_def sent_ids_def)

lemma good_neutral: "neutral e \<Longrightarrow> good S m0 h (m, es) \<Longrightarrow> good S m0 h (m, es @ [e])"
  by (cases e) (auto simp: good_def ledger_ok_def honest_def neutral_def)

text \<open>A machine that differs only in fields outside the invariant.\<close>

definition similar :: "machine \<Rightarrow> machine \<Rightarrow> bool" where
  "similar m m' \<longleftrightarrow> sm_pending m' = sm_pending m \<and> sm_by_transaction m' = sm_by_transaction m \<and>
     sm_replay m' = sm_replay m \<and> sm_retained_bytes m' = sm_retained_bytes m \<and>
     sm_control_messages m' = sm_control_messages m \<and> sm_control_bytes m' = sm_control_bytes m \<and>
     sm_next_outbound m' = sm_next_outbound m \<and> config_core (sm_config m') = config_core (sm_config m)"

lemma session_ok_similar:
  "session_ok m \<Longrightarrow> similar m m' \<Longrightarrow> bounds_ok m' \<Longrightarrow> lifecycle_ok m' \<Longrightarrow> session_ok m'"
  by (simp add: session_ok_def similar_def requests_ok_def accounts_ok_def sequences_ok_def)

lemma good_similar:
  assumes g: "good S m0 h (m, es)" and sim: "similar m m'" and gen: "sm_generation m \<le> sm_generation m'"
    and ok: "bounds_ok m'" "lifecycle_ok m'"
  shows "good S m0 h (m', es)"
proof -
  have "session_ok m'" using g sim ok session_ok_similar by (auto simp: good_def)
  moreover have "sm_pending m' = sm_pending m" "config_core (sm_config m') = config_core (sm_config m)"
    using sim by (simp_all add: similar_def)
  ultimately show ?thesis using g order.trans [OF _ gen] by (simp add: good_def ledger_ok_def honest_def)
qed

section \<open>Removing a request\<close>

lemma find_pending_split:
  assumes "find_pending m r = Some p"
  obtains xs ys where "sm_pending m = xs @ p # ys" "p_request_id p = r"
    "remove_first (\<lambda>p. p_request_id p = r) (sm_pending m) = xs @ ys"
proof -
  have "\<exists>xs ys. ps = xs @ p # ys \<and> p_request_id p = r \<and> remove_first (\<lambda>p. p_request_id p = r) ps = xs @ ys"
    if "find (\<lambda>p. p_request_id p = r) ps = Some p" for ps
    using that
  proof (induction ps)
    case (Cons q ps)
    show ?case
    proof (cases "p_request_id q = r")
      case True
      then show ?thesis using Cons.prems by (intro exI [of _ "[]"] exI [of _ ps]) simp
    next
      case False
      then obtain xs ys where "ps = xs @ p # ys" "p_request_id p = r"
          "remove_first (\<lambda>p. p_request_id p = r) ps = xs @ ys" using Cons by auto
      then show ?thesis using False by (intro exI [of _ "q # xs"] exI [of _ ys]) simp
    qed
  qed simp
  then show thesis using that assms unfolding find_pending_def by blast
qed

lemma find_pending_None: "find_pending m r = None \<longleftrightarrow> r \<notin> set (request_ids m)"
  by (auto simp: find_pending_def find_None_iff)

lemma find_pending_Some:
  assumes "distinct (request_ids m)"
  shows "find_pending m r = Some p \<longleftrightarrow> p \<in> set (sm_pending m) \<and> p_request_id p = r"
proof
  assume "find_pending m r = Some p"
  then show "p \<in> set (sm_pending m) \<and> p_request_id p = r" by (rule find_pending_split) simp
next
  note dist = assms
  assume p: "p \<in> set (sm_pending m) \<and> p_request_id p = r"
  then obtain q where q: "find_pending m r = Some q" using find_pending_None [of m r] by force
  then have "q \<in> set (sm_pending m) \<and> p_request_id q = r" by (rule find_pending_split) simp
  then have "q = p" using p dist by (auto simp: distinct_map dest: inj_onD)
  then show "find_pending m r = Some p" using q by simp
qed

lemma total_bytes_simps [simp]:
  "total_bytes [] = 0" "total_bytes (p # ps) = unat (p_bytes p) + total_bytes ps"
  "total_bytes (ps @ qs) = total_bytes ps + total_bytes qs"
  by (simp_all add: total_bytes_def)

text \<open>The machine after the request \<open>p\<close> between \<open>xs\<close> and \<open>ys\<close> is dropped.\<close>

lemma drop_pending_fields:
  assumes "sm_pending m = xs @ p # ys" "find_pending m r = Some p"
    "remove_first (\<lambda>p. p_request_id p = r) (sm_pending m) = xs @ ys"
  shows "sm_pending (drop_pending r m) = xs @ ys"
    "sm_replay (drop_pending r m) = filter (\<lambda>c. c \<noteq> r) (sm_replay m)"
    "sm_by_transaction (drop_pending r m) = (sm_by_transaction m)(p_transaction_id p := None)"
    "sm_control_messages (drop_pending r m) = sm_control_messages m - (if is_control p then 1 else 0)"
    "sm_control_bytes (drop_pending r m) = sm_control_bytes m - (if is_control p then p_bytes p else 0)"
    "sm_retained_bytes (drop_pending r m) = sm_retained_bytes m - (if is_control p then 0 else p_bytes p)"
  using assms by (simp_all add: drop_pending_def Let_def)

lemma drop_pending_frame [simp]:
  "sm_config (drop_pending r m) = sm_config m" "sm_state (drop_pending r m) = sm_state m"
  "sm_generation (drop_pending r m) = sm_generation m" "sm_controls (drop_pending r m) = sm_controls m"
  "sm_incoming_count (drop_pending r m) = sm_incoming_count m"
  "sm_next_outbound (drop_pending r m) = sm_next_outbound m"
  "sm_reconnect_attempts (drop_pending r m) = sm_reconnect_attempts m"
  "sm_connect_pending (drop_pending r m) = sm_connect_pending m"
  "sm_terminal_error (drop_pending r m) = sm_terminal_error m"
  by (simp_all add: drop_pending_def Let_def split: option.splits)

lemma map_of_remove:
  "distinct (map fst (xs @ (t, r) # ys)) \<Longrightarrow> (map_of (xs @ (t, r) # ys))(t := None) = map_of (xs @ ys)"
proof (induction xs)
  case Nil
  then show ?case by (simp add: map_of_eq_None_iff fun_upd_idem del: fun_upd_apply)
next
  case (Cons x xs)
  obtain k v where x: "x = (k, v)" by (cases x)
  have "(map_of ((k, v) # xs @ (t, r) # ys))(t := None) = ((map_of (xs @ (t, r) # ys))(t := None))(k \<mapsto> v)"
    using Cons.prems x by (simp add: fun_upd_twist del: fun_upd_apply map_of_append)
  then show ?case using Cons x by (simp del: fun_upd_apply map_of_append)
qed

lemma requests_ok_drop:
  assumes ok: "requests_ok m" and p: "find_pending m r = Some p"
  shows "requests_ok (drop_pending r m)"
proof -
  obtain xs ys where sp: "sm_pending m = xs @ p # ys" "p_request_id p = r"
    "remove_first (\<lambda>p. p_request_id p = r) (sm_pending m) = xs @ ys" using p by (rule find_pending_split)
  note f = drop_pending_fields [OF sp(1) p sp(3)]
  have "distinct (map fst (map (\<lambda>p. (p_transaction_id p, p_request_id p)) xs @ (p_transaction_id p, p_request_id p) #
      map (\<lambda>p. (p_transaction_id p, p_request_id p)) ys))"
    using ok sp(1) by (simp add: requests_ok_def o_def)
  from map_of_remove [OF this] show ?thesis using ok sp(1) by (simp add: requests_ok_def f)
qed

lemma accounts_ok_drop:
  assumes ok: "accounts_ok m" and p: "find_pending m r = Some p"
  shows "accounts_ok (drop_pending r m)" "sm_control_messages (drop_pending r m) \<le> sm_control_messages m"
    "sm_control_bytes (drop_pending r m) \<le> sm_control_bytes m"
    "sm_retained_bytes (drop_pending r m) \<le> sm_retained_bytes m"
proof -
  obtain xs ys where sp: "sm_pending m = xs @ p # ys" "p_request_id p = r"
    "remove_first (\<lambda>p. p_request_id p = r) (sm_pending m) = xs @ ys" using p by (rule find_pending_split)
  note f = drop_pending_fields [OF sp(1) p sp(3)]
  have c: "unat (sm_control_bytes m - p_bytes p) = unat (sm_control_bytes m) - unat (p_bytes p)" if "is_control p"
    using ok sp(1) that by (intro unat_sub) (auto simp: accounts_ok_def word_le_nat_alt)
  have n: "unat (sm_retained_bytes m - p_bytes p) = unat (sm_retained_bytes m) - unat (p_bytes p)" if "\<not> is_control p"
    using ok sp(1) that by (intro unat_sub) (auto simp: accounts_ok_def word_le_nat_alt)
  show "accounts_ok (drop_pending r m)" using ok sp(1) c n by (auto simp: accounts_ok_def f)
  show "sm_control_messages (drop_pending r m) \<le> sm_control_messages m" by (simp add: f)
  show "sm_control_bytes (drop_pending r m) \<le> sm_control_bytes m"
    using c unfolding word_le_nat_alt by (simp add: f)
  show "sm_retained_bytes (drop_pending r m) \<le> sm_retained_bytes m"
    using n unfolding word_le_nat_alt by (simp add: f)
qed

lemma session_ok_drop:
  assumes ok: "session_ok m" and p: "find_pending m r = Some p"
  shows "session_ok (drop_pending r m)"
proof -
  obtain xs ys where sp: "sm_pending m = xs @ p # ys" "p_request_id p = r"
    "remove_first (\<lambda>p. p_request_id p = r) (sm_pending m) = xs @ ys" using p by (rule find_pending_split)
  note f = drop_pending_fields [OF sp(1) p sp(3)]
  have acc: "accounts_ok m" and req: "requests_ok m" using ok by (simp_all add: session_ok_def)
  have "in_flight_count (drop_pending r m) \<le> in_flight_count m" by (simp add: in_flight_count_def f sp(1))
  moreover have "length (filter (\<lambda>p. \<not> is_control p) (xs @ ys)) \<le> length (filter (\<lambda>p. \<not> is_control p) (sm_pending m))"
    by (simp add: sp(1))
  ultimately have "bounds_ok (drop_pending r m)"
    using ok accounts_ok_drop(2-4) [OF acc p]
    by (auto simp: session_ok_def bounds_ok_def f(1) simp del: filter_append length_append)
  moreover have "sequences_ok (drop_pending r m)"
  proof -
    have "\<exists>q \<in> set (xs @ ys). p_request_id q = c \<and> p_may_have_executed q"
      if "c \<in> set (sm_replay m)" "c \<noteq> r" for c
      using ok sp(1, 2) that by (force simp: session_ok_def sequences_ok_def)
    then show ?thesis using ok sp(1) by (auto simp: session_ok_def sequences_ok_def f split: if_splits)
  qed
  moreover have "lifecycle_ok (drop_pending r m)"
    using ok sp(1) by (auto simp: session_ok_def lifecycle_ok_def f)
  ultimately show ?thesis
    using requests_ok_drop [OF req p] accounts_ok_drop(1) [OF acc p] by (simp add: session_ok_def)
qed

text \<open>Resolving a pending request: it leaves the machine and its outcome is reported.\<close>

lemma good_resolve:
  assumes g: "good S m0 h (m, es)" and p: "find_pending m r = Some p" and e: "resolves e = Some r"
    and failed: "\<And>error. e = Eff_Failed r error \<Longrightarrow> error \<noteq> Ses_OutcomeUnknown \<Longrightarrow> \<not> p_may_have_executed p"
    and completed: "\<And>reply. e = Eff_Completed r (Some reply) \<Longrightarrow> p_may_have_executed p"
  shows "good S m0 h (drop_pending r m, es @ [e])"
proof -
  obtain xs ys where sp: "sm_pending m = xs @ p # ys" "p_request_id p = r"
    "remove_first (\<lambda>p. p_request_id p = r) (sm_pending m) = xs @ ys" using p by (rule find_pending_split)
  note f = drop_pending_fields [OF sp(1) p sp(3)]
  have "session_ok (drop_pending r m)" using g p by (simp add: good_def session_ok_drop)
  moreover have "ledger_ok S (drop_pending r m) (h @ es @ [e])"
    using g sp(1, 2) e by (simp add: good_def ledger_ok_def f)
  moreover have "sent_ids [e] = {}" using e by (cases e) (auto simp: sent_ids_def)
  then have "honest S (drop_pending r m) (h @ es @ [e])"
    using g sp(1, 2) e failed completed by (cases e) (auto simp: good_def honest_def f)
  ultimately show ?thesis using g by (simp add: good_def)
qed

lemma find_pending_dropped:
  assumes "r' \<noteq> r"
  shows "find_pending (drop_pending r m) r' = find_pending m r'"
proof -
  have "find (\<lambda>p. p_request_id p = r') (remove_first (\<lambda>p. p_request_id p = r) ps) =
      find (\<lambda>p. p_request_id p = r') ps" for ps :: "pending list"
    using assms by (induction ps) auto
  then show ?thesis by (simp add: drop_pending_def find_pending_def Let_def split: option.splits)
qed

text \<open>The requests an input submits.\<close>

fun submits :: "session_input \<Rightarrow> u64 list" where
  "submits (In_Admit r msg one_way) = [r]"
| "submits (In_AdmitControl r msg g) = [r]"
| "submits _ = []"

section \<open>The contract of a session invariant\<close>

definition cleared :: "machine \<Rightarrow> machine" where
  "cleared m = m\<lparr>sm_pending := [], sm_replay := [], sm_by_transaction := Map.empty, sm_retained_bytes := 0,
     sm_control_messages := 0, sm_control_bytes := 0\<rparr>"

definition failures :: "session_error \<Rightarrow> machine \<Rightarrow> effect list" where
  "failures error m = map (\<lambda>p. Eff_Failed (p_request_id p)
     (if p_may_have_executed p \<and> error \<noteq> Ses_OutcomeUnknown then Ses_OutcomeUnknown else error)) (sm_pending m)"

lemma run_fail_all: "run_state (fail_all error) (m, es) = ((), (cleared m, es @ failures error m))"
  by (simp add: fail_all_def run_for_each_push cleared_def failures_def split_def o_def)

lemma wp_fail_all [simp]: "wp (fail_all error) Q (m, es) = Q () (cleared m, es @ failures error m)"
  by (simp add: wp_def run_fail_all)

text \<open>A machine that is neither terminal nor waiting for a transport.\<close>

definition live :: "machine \<Rightarrow> bool" where
  "live m \<longleftrightarrow> sm_terminal_error m = None \<and> \<not> sm_connect_pending m"

text \<open>The machine in which request \<open>i\<close> has its sequence number.\<close>

definition sequenced :: "nat \<Rightarrow> machine \<Rightarrow> machine option" where
  "sequenced i m =
     (if p_sequence (sm_pending m ! i) = 0 then
        (case allocate_sequence m of
           Inl _ \<Rightarrow> None
         | Inr (n, m') \<Rightarrow> Some (update_pending i (\<lambda>p. p\<lparr>p_sequence := n,
             p_message := (p_message p)\<lparr>m_header := (m_header (p_message p))\<lparr>mh_sequence := n\<rparr>\<rparr>\<rparr>) m'))
      else Some m)"

lemma wp_assign_sequence:
  "wp (assign_sequence i) Q (m, es) =
     (case sequenced i m of
        None \<Rightarrow> wp (fail_terminal Ses_TransitionLimit) (\<lambda>_. Q False) (m, es)
      | Some m' \<Rightarrow> Q True (m', es))"
  by (auto simp: assign_sequence_def sequenced_def allocate_sequence_def Let_def split: option.splits)

text \<open>
  An invariant of a machine and its effects fits the contract if the few updates that touch requests
  keep it, and every other update of the machine that respects its bounds and its life cycle.
\<close>

locale session_contract =
  fixes inv :: "machine \<times> effect list \<Rightarrow> bool"
  assumes inv_ok: "inv (m, es) \<Longrightarrow> session_ok m"
    and inv_push: "inv (m, es) \<Longrightarrow> neutral e \<Longrightarrow> inv (m, es @ [e])"
    and inv_minor: "inv (m, es) \<Longrightarrow> similar m m' \<Longrightarrow> sm_generation m \<le> sm_generation m' \<Longrightarrow>
      bounds_ok m' \<Longrightarrow> lifecycle_ok m' \<Longrightarrow> inv (m', es)"
    and inv_resolve: "inv (m, es) \<Longrightarrow> find_pending m r = Some p \<Longrightarrow> resolves e = Some r \<Longrightarrow>
      (\<And>error. e = Eff_Failed r error \<Longrightarrow> error \<noteq> Ses_OutcomeUnknown \<Longrightarrow> \<not> p_may_have_executed p) \<Longrightarrow>
      (\<And>reply. e = Eff_Completed r (Some reply) \<Longrightarrow> p_may_have_executed p) \<Longrightarrow>
      inv (drop_pending r m, es @ [e])"
    and inv_clear: "inv (m, es) \<Longrightarrow> sm_pending m' = sm_pending m \<Longrightarrow> sm_generation m \<le> sm_generation m' \<Longrightarrow>
      config_core (sm_config m') = config_core (sm_config m) \<Longrightarrow> list_all neutral ns \<Longrightarrow> bounds_ok (cleared m') \<Longrightarrow> lifecycle_ok (cleared m') \<Longrightarrow>
      inv (cleared m', es @ ns @ failures error m)"
    and inv_trim: "inv (m, es) \<Longrightarrow> inv (m\<lparr>sm_replay := filter P (sm_replay m)\<rparr>, es)"
    and inv_unsend: "inv (m, es) \<Longrightarrow> inv (m\<lparr>sm_pending := fold unsend (sm_replay m) (sm_pending m)\<rparr>, es)"
    and inv_send: "inv (m, es) \<Longrightarrow> sm_state m = Ready \<Longrightarrow> next_index m = Some i \<Longrightarrow> sequenced i m = Some m' \<Longrightarrow>
      wp (send_pending i) (\<lambda>_. inv) (m', es)"
begin

lemma inv_bounds: "inv (m, es) \<Longrightarrow> bounds_ok m" "inv (m, es) \<Longrightarrow> lifecycle_ok m"
  using inv_ok by (auto simp: session_ok_def)

lemma inv_distinct: "inv (m, es) \<Longrightarrow> distinct (request_ids m)"
  using inv_ok by (auto simp: session_ok_def requests_ok_def)

lemma live_state: "inv (m, es) \<Longrightarrow> sm_state m \<notin> {Disconnected, Stopped} \<Longrightarrow> live m"
  using inv_bounds(2) [of m es] by (auto simp: lifecycle_ok_def live_def)

lemma inv_frame:
  assumes "inv (m, es)" "similar m m'" "sm_generation m' = sm_generation m" "sm_controls m' = sm_controls m"
    "sm_config m' = sm_config m" "sm_incoming_count m' = sm_incoming_count m"
    "sm_reconnect_attempts m' = sm_reconnect_attempts m" "sm_state m' = sm_state m"
    "sm_connect_pending m' = sm_connect_pending m" "sm_terminal_error m' = sm_terminal_error m"
  shows "inv (m', es)"
  using inv_minor [OF assms(1, 2)] inv_bounds [OF assms(1)] assms(2-)
  by (simp add: bounds_ok_def lifecycle_ok_def similar_def in_flight_count_def)

lemma wp_set_conn_state:
  assumes "inv (m, es)" "s = Disconnected \<or> (live m \<and> s \<noteq> Stopped)"
    "\<And>es'. inv (m\<lparr>sm_state := s\<rparr>, es') \<Longrightarrow> Q () (m\<lparr>sm_state := s\<rparr>, es')"
  shows "wp (set_conn_state s) Q (m, es)"
proof -
  have m': "inv (m\<lparr>sm_state := s\<rparr>, es)"
    using inv_bounds [OF assms(1)] assms(2)
    by (intro inv_minor [OF assms(1)])
      (auto simp: similar_def bounds_ok_def lifecycle_ok_def live_def in_flight_count_def)
  then have "inv (m\<lparr>sm_state := s\<rparr>, es @ [Eff_Event (Ev_StateChanged s)])" by (rule inv_push) simp
  then show ?thesis using assms(3) m' by (cases "sm_state m = s") (auto simp: set_conn_state_def)
qed

lemma inv_cleared:
  assumes "inv (m, es)" "sm_pending m' = sm_pending m" "sm_generation m' = sm_generation m"
    "sm_config m' = sm_config m" "sm_controls m' = sm_controls m" "sm_incoming_count m' = sm_incoming_count m"
    "sm_reconnect_attempts m' = sm_reconnect_attempts m" "sm_state m' = sm_state m"
    "sm_connect_pending m' = sm_connect_pending m" "sm_terminal_error m' = sm_terminal_error m"
  shows "inv (cleared m', es @ failures error m)"
  using inv_clear [OF assms(1, 2), of "[]"] inv_bounds [OF assms(1)] assms(2-)
  by (simp add: bounds_ok_def lifecycle_ok_def cleared_def in_flight_count_def)

lemma failures_same: "sm_pending m' = sm_pending m \<Longrightarrow> failures error m' = failures error m"
  by (simp add: failures_def)

lemma wp_fail_terminal:
  assumes "inv (m, es)" "\<And>m' es'. inv (m', es') \<Longrightarrow> Q () (m', es')"
  shows "wp (fail_terminal error) Q (m, es)"
proof (cases "sm_terminal_error m = None")
  case True
  let ?m = "m\<lparr>sm_terminal_error := Some error, sm_write_busy := False, sm_controls := [], sm_connect_pending := False\<rparr>"
  let ?ns = "[Eff_Terminal error, Eff_Event (Ev_TransportFault error), Eff_CloseTransport (sm_generation m)]"
  let ?d = "cleared (?m\<lparr>sm_state := Disconnected\<rparr>)"
  have d: "inv (?d, es @ ?ns @ failures error m)"
    using inv_bounds [OF assms(1)]
    by (intro inv_clear [OF assms(1)]) (auto simp: bounds_ok_def lifecycle_ok_def cleared_def in_flight_count_def)
  have run: "wp (fail_terminal error) Q (m, es) =
      wp (set_conn_state Disconnected) Q (cleared ?m, es @ ?ns @ failures error m)"
    using True by (simp add: fail_terminal_def failures_same [of ?m m])
  show ?thesis
  proof (cases "sm_state m = Disconnected")
    case True
    then have "?d = cleared ?m" "sm_state (cleared ?m) = Disconnected" by (simp_all add: cleared_def)
    then show ?thesis unfolding run using assms(2) d by (simp add: set_conn_state_def)
  next
    case False
    then have eq: "?d = (cleared ?m)\<lparr>sm_state := Disconnected\<rparr>" "sm_state (cleared ?m) \<noteq> Disconnected"
      by (simp_all add: cleared_def)
    then show ?thesis unfolding run
      using assms(2) inv_push [OF d, of "Eff_Event (Ev_StateChanged Disconnected)"]
      by (simp add: set_conn_state_def del: append_assoc)
  qed
next
  case False
  then show ?thesis using assms by (simp add: fail_terminal_def)
qed

lemma resolve_each:
  assumes "\<And>r x. \<exists>error. f r x = Eff_Failed r error \<and> (x \<longrightarrow> error = Ses_OutcomeUnknown)"
  shows "inv (m, es) \<Longrightarrow> distinct (map fst rs) \<Longrightarrow>
    \<forall>(r, x) \<in> set rs. \<exists>p. find_pending m r = Some p \<and> p_may_have_executed p = x \<Longrightarrow>
    (\<And>m' es'. inv (m', es') \<Longrightarrow> sm_state m' = sm_state m \<Longrightarrow> live m' = live m \<Longrightarrow>
      sm_generation m' = sm_generation m \<Longrightarrow> Q () (m', es')) \<Longrightarrow>
    wp (for_each rs (\<lambda>(r, x). do { remove_pending r; push (f r x) })) Q (m, es)"
proof (induction rs arbitrary: m es)
  case (Cons a rs)
  obtain r x where a: "a = (r, x)" by (cases a)
  obtain p where p: "find_pending m r = Some p" "p_may_have_executed p = x" using Cons.prems(3) a by auto
  obtain error where e: "f r x = Eff_Failed r error" "x \<longrightarrow> error = Ses_OutcomeUnknown" using assms by blast
  have "inv (drop_pending r m, es @ [f r x])"
    using p e by (intro inv_resolve [OF Cons.prems(1) p(1)]) auto
  moreover have "\<forall>(r', x') \<in> set rs. \<exists>p. find_pending (drop_pending r m) r' = Some p \<and> p_may_have_executed p = x'"
  proof (intro ballI, clarify)
    fix r' x'
    assume in_rs: "(r', x') \<in> set rs"
    then have "r' \<noteq> r" using Cons.prems(2) a by force
    then show "\<exists>p. find_pending (drop_pending r m) r' = Some p \<and> p_may_have_executed p = x'"
      using Cons.prems(3) in_rs by (auto simp: find_pending_dropped)
  qed
  ultimately show ?case using Cons.IH [of "drop_pending r m"] Cons.prems(2, 4) a
    by (simp add: remove_pending_def live_def)
qed simp

lemma requests_found:
  assumes "inv (m, es)"
  shows "distinct (map fst (map (\<lambda>p. (p_request_id p, p_may_have_executed p)) (filter P (sm_pending m))))"
    and "\<forall>(r, x) \<in> set (map (\<lambda>p. (p_request_id p, p_may_have_executed p)) (filter P (sm_pending m))).
      \<exists>p. find_pending m r = Some p \<and> p_may_have_executed p = x"
  using inv_distinct [OF assms] by (auto simp: o_def distinct_map_filter find_pending_Some)

lemma wp_invalidate_controls:
  assumes "inv (m, es)" "\<And>m' es'. inv (m', es') \<Longrightarrow> Q False (m', es')"
    "\<And>m' es'. inv (m', es') \<Longrightarrow> sm_state m' = sm_state m \<Longrightarrow> live m' = live m \<Longrightarrow>
       sm_generation m' = sm_generation m \<Longrightarrow> Q True (m', es')"
  shows "wp invalidate_controls Q (m, es)"
proof (cases "checked_succ (sm_control_generation m)")
  case None
  then show ?thesis using assms(1, 2) by (simp add: invalidate_controls_def wp_fail_terminal)
next
  case (Some g)
  let ?m = "m\<lparr>sm_control_generation := g\<rparr>"
  have m: "inv (?m, es)" by (rule inv_frame [OF assms(1)]) (simp_all add: similar_def)
  have "wp (for_each (map (\<lambda>p. (p_request_id p, p_may_have_executed p)) (filter is_control (sm_pending ?m)))
      (\<lambda>(r, x). do { remove_pending r; push (Eff_Failed r (if x then Ses_OutcomeUnknown else Ses_Disconnected)) }))
      (\<lambda>_. Q True) (?m, es)"
    using requests_found [OF m, of is_control] assms(3)
    by (intro resolve_each [OF _ m]) (auto simp: live_def)
  then show ?thesis using Some by (simp add: invalidate_controls_def)
qed

lemma wp_fail_sent_unknown:
  assumes "inv (m, es)"
    "\<And>m' es'. inv (m', es') \<Longrightarrow> sm_state m' = sm_state m \<Longrightarrow> live m' = live m \<Longrightarrow>
       sm_generation m' = sm_generation m \<Longrightarrow> Q () (m', es')"
  shows "wp fail_sent_unknown Q (m, es)"
proof -
  have "wp (for_each (map (\<lambda>p. (p_request_id p, p_may_have_executed p)) (filter p_sent (sm_pending m)))
      (\<lambda>(r, x). do { remove_pending r; push (Eff_Failed r Ses_OutcomeUnknown) }))
      (\<lambda>_. wp (change (\<lambda>m. m\<lparr>sm_replay := []\<rparr>)) Q) (m, es)"
    using requests_found [OF assms(1), of p_sent] assms(2) inv_trim [of _ _ "\<lambda>_. False"]
    by (intro resolve_each [OF _ assms(1)]) (auto simp: live_def)
  then show ?thesis by (simp add: fail_sent_unknown_def for_each_map)
qed

lemma wp_reset_for_new_identity:
  assumes "inv (m, es)"
    "\<And>m' es'. inv (m', es') \<Longrightarrow> sm_state m' = sm_state m \<Longrightarrow> live m' = live m \<Longrightarrow>
       sm_generation m' = sm_generation m \<Longrightarrow> Q () (m', es')"
  shows "wp reset_for_new_identity Q (m, es)"
proof -
  let ?m = "m\<lparr>sm_server_cookie := 0, sm_server_flags := 0, sm_connect_sequence := 0, sm_last_inbound := 0,
       sm_next_outbound := Some 1, sm_next_transaction_id := Some 1\<rparr>"
  have "inv (cleared ?m, es @ failures Ses_Disconnected m)" by (rule inv_cleared [OF assms(1)]) simp_all
  then show ?thesis
    using assms(2) by (simp add: reset_for_new_identity_def failures_same [of ?m m] live_def cleared_def)
qed

lemma wp_trim_replay:
  assumes "inv (m, es)"
    "\<And>m'. inv (m', es) \<Longrightarrow> sm_state m' = sm_state m \<Longrightarrow> live m' = live m \<Longrightarrow> sm_last_inbound m' = sm_last_inbound m \<Longrightarrow> Q () (m', es)"
  shows "wp (trim_replay n) Q (m, es)"
  using assms(2) inv_trim [OF assms(1)] by (simp add: trim_replay_def Let_def live_def)

lemma wp_prepare_replay:
  assumes "inv (m, es)"
    "\<And>m'. inv (m', es) \<Longrightarrow> sm_state m' = sm_state m \<Longrightarrow> live m' = live m \<Longrightarrow> sm_generation m' = sm_generation m \<Longrightarrow> Q () (m', es)"
  shows "wp prepare_replay Q (m, es)"
  using assms(2) inv_unsend [OF assms(1)] by (simp add: prepare_replay_def live_def)

lemma checked_succ_less: "checked_succ n = Some k \<Longrightarrow> n \<le> k"
  by (auto simp: checked_succ_def word_le_nat_alt unat_Suc_less word_order.not_eq_extremum split: if_splits)

lemma wp_begin_reconnect:
  assumes "inv (m, es)" "sm_state m = Disconnected" "sm_terminal_error m = None"
    "\<And>m' es'. inv (m', es') \<Longrightarrow> Q () (m', es')"
  shows "wp begin_reconnect Q (m, es)"
proof -
  let ?m = "m\<lparr>sm_reconnect_attempts := sm_reconnect_attempts m + 1, sm_connect_pending := True\<rparr>"
  note b = inv_bounds [OF assms(1)]
  have m: "inv (?m, es)" if "sm_reconnect_attempts m < cf_max_reconnect_attempts (sm_config m)"
    using b assms(2, 3) that
    by (intro inv_minor [OF assms(1)]) (auto simp: similar_def bounds_ok_def lifecycle_ok_def in_flight_count_def)
  have g: "inv (?m\<lparr>sm_generation := g\<rparr>, es @ [Eff_Connect g])"
    if "sm_reconnect_attempts m < cf_max_reconnect_attempts (sm_config m)" "checked_succ (sm_generation m) = Some g" for g
    using inv_bounds [OF m [OF that(1)]] checked_succ_less [OF that(2)]
    by (intro inv_push inv_minor [OF m [OF that(1)]])
      (auto simp: similar_def bounds_ok_def lifecycle_ok_def in_flight_count_def)
  show ?thesis
    using assms(1, 4) m g
    by (auto simp: begin_reconnect_def not_le intro!: wp_fail_terminal split: option.splits)
qed

lemma wp_start_transport:
  assumes "inv (m, es)" "live m" "s \<noteq> Stopped" "\<And>m' es'. inv (m', es') \<Longrightarrow> Q False (m', es')"
    "\<And>m' es'. inv (m', es') \<Longrightarrow> live m' \<Longrightarrow> Q True (m', es')"
  shows "wp (start_transport s) Q (m, es)"
proof (cases "checked_succ (sm_generation m)")
  case None
  then show ?thesis using assms(1, 4) by (simp add: start_transport_def wp_fail_terminal)
next
  case (Some g)
  have "inv (m\<lparr>sm_generation := g\<rparr>, es)"
    using inv_bounds [OF assms(1)] checked_succ_less [OF Some]
    by (intro inv_minor [OF assms(1)]) (auto simp: similar_def bounds_ok_def lifecycle_ok_def in_flight_count_def)
  then show ?thesis using Some assms(2, 3, 5)
    by (auto simp: start_transport_def live_def intro!: wp_set_conn_state)
qed

lemma wp_fault_policy:
  assumes "inv (m, es)"
    "\<And>m' es'. inv (m', es') \<Longrightarrow> sm_state m' = sm_state m \<Longrightarrow> live m' = live m \<Longrightarrow> Q () (m', es')"
  shows "wp fault_policy Q (m, es)"
proof -
  have "inv (cleared m, es @ failures Ses_Disconnected m)" by (rule inv_cleared [OF assms(1)]) simp_all
  moreover have "sm_state (cleared m) = sm_state m" "live (cleared m) = live m" by (simp_all add: cleared_def live_def)
  ultimately show ?thesis using assms
    by (auto simp: fault_policy_def intro!: wp_fail_sent_unknown wp_reset_for_new_identity wp_prepare_replay)
qed

lemma inv_disconnect:
  assumes "inv (m, es)" "list_all neutral ns"
  shows "inv (m\<lparr>sm_write_busy := b, sm_controls := []\<rparr>, es @ ns)"
proof -
  have "inv (m\<lparr>sm_write_busy := b, sm_controls := []\<rparr>, es)"
    using inv_bounds [OF assms(1)]
    by (intro inv_minor [OF assms(1)]) (auto simp: similar_def bounds_ok_def lifecycle_ok_def in_flight_count_def)
  then show ?thesis using assms(2)
  proof (induction ns rule: rev_induct)
    case (snoc n ns)
    then show ?case using inv_push [of _ "es @ ns" n] by simp
  qed simp
qed

lemma wp_fault:
  assumes "inv (m, es)" "\<And>m' es'. inv (m', es') \<Longrightarrow> Q () (m', es')"
  shows "wp (fault error) Q (m, es)"
proof (cases "sm_terminal_error m \<noteq> None \<or> sm_state m = Stopped \<or> (sm_state m = Disconnected \<and> sm_connect_pending m)")
  case True
  then show ?thesis using assms by (auto simp: fault_def)
next
  case False
  then have "live m" using inv_bounds(2) [OF assms(1)] by (auto simp: live_def lifecycle_ok_def)
  have go: "wp fault_policy (\<lambda>_. wp (set_conn_state Disconnected) (\<lambda>_. wp begin_reconnect Q))
      (m'\<lparr>sm_write_busy := False, sm_controls := []\<rparr>,
       es' @ [Eff_Event (Ev_TransportFault error), Eff_CloseTransport (sm_generation m)])"
    if "inv (m', es')" "live m'" for m' es'
  proof -
    have "inv (m'\<lparr>sm_write_busy := False, sm_controls := []\<rparr>,
       es' @ [Eff_Event (Ev_TransportFault error), Eff_CloseTransport (sm_generation m)])"
      by (rule inv_disconnect [OF that(1)]) simp
    then show ?thesis using that(2) assms(2)
      by (auto simp: live_def intro!: wp_fault_policy wp_set_conn_state wp_begin_reconnect)
  qed
  show ?thesis using False assms \<open>live m\<close> go
    by (auto simp: fault_def intro!: wp_invalidate_controls wp_fail_terminal)
qed

lemma wp_start:
  assumes "inv (m, es)" "\<And>m' es'. inv (m', es') \<Longrightarrow> Q () (m', es')"
  shows "wp (start is_ready) Q (m, es)"
proof -
  have "inv (m\<lparr>sm_connected_once := True\<rparr>, es)" by (rule inv_frame [OF assms(1)]) (simp_all add: similar_def)
  then show ?thesis using assms
    by (auto simp: start_def live_def intro!: wp_start_transport wp_begin_reconnect)
qed

lemma wp_stop:
  assumes "inv (m, es)" "\<And>m' es'. inv (m', es') \<Longrightarrow> Q () (m', es')"
  shows "wp stop Q (m, es)"
proof (cases "sm_state m = Stopped")
  case True
  then show ?thesis using assms by (simp add: stop_def)
next
  case False
  let ?m = "m\<lparr>sm_state := Stopped, sm_connect_pending := False\<rparr>"
  have "inv (cleared ?m, es @ [Eff_Event (Ev_StateChanged Stopped)] @ failures Ses_Closed m)"
    using inv_bounds [OF assms(1)]
    by (intro inv_clear [OF assms(1)]) (auto simp: bounds_ok_def lifecycle_ok_def cleared_def in_flight_count_def)
  then have "inv (cleared ?m, es @ [Eff_Event (Ev_StateChanged Stopped)] @ failures Ses_Closed m @
      [Eff_CloseTransport (sm_generation m)])"
    using inv_push [of "cleared ?m" _ "Eff_CloseTransport (sm_generation m)"] by fastforce
  moreover have "cleared ?m = (cleared (m\<lparr>sm_state := Stopped\<rparr>))\<lparr>sm_connect_pending := False\<rparr>"
    by (simp add: cleared_def)
  ultimately show ?thesis using False assms(2)
    by (simp add: stop_def set_conn_state_def failures_same [of "m\<lparr>sm_state := Stopped\<rparr>" m])
qed

lemma wp_require_ready:
  assumes "inv (m, es)" "\<And>m' es'. inv (m', es') \<Longrightarrow> Q False (m', es')" "live m \<Longrightarrow> Q True (m, es)"
  shows "wp require_ready Q (m, es)"
  using assms live_state [OF assms(1)] by (auto simp: require_ready_def intro!: wp_fault)

lemma wp_transition_allowed:
  assumes "inv (m, es)" "s \<notin> {Disconnected, Stopped}" "\<And>m' es'. inv (m', es') \<Longrightarrow> Q False (m', es')"
    "\<And>m' es'. inv (m', es') \<Longrightarrow> live m' \<Longrightarrow> Q True (m', es')"
  shows "wp (transition_allowed s) Q (m, es)"
proof -
  have "inv (m\<lparr>sm_transitions := n\<rparr>, es)" for n by (rule inv_frame [OF assms(1)]) (simp_all add: similar_def)
  moreover have "live (m\<lparr>sm_transitions := n\<rparr>)" if "sm_state m = s" for n
    using live_state [OF assms(1)] assms(2) that by (auto simp: live_def)
  ultimately show ?thesis using assms by (auto simp: transition_allowed_def intro!: wp_fault)
qed

lemma wp_accept_acknowledgment:
  assumes "inv (m, es)" "\<And>m' es'. inv (m', es') \<Longrightarrow> Q False (m', es')" "Q True (m, es)"
  shows "wp (accept_acknowledgment n) Q (m, es)"
  using assms by (auto simp: accept_acknowledgment_def intro!: wp_fault)

lemma wp_queue_control:
  assumes "inv (m, es)" "\<And>m' es'. inv (m', es') \<Longrightarrow> Q () (m', es')"
  shows "wp (queue_control c) Q (m, es)"
proof -
  have "inv (m\<lparr>sm_controls := sm_controls m @ [c]\<rparr>, es)"
    if "length (sm_controls m) < cf_max_queued_messages (sm_config m)"
    using inv_bounds [OF assms(1)] that
    by (intro inv_minor [OF assms(1)]) (auto simp: similar_def bounds_ok_def lifecycle_ok_def in_flight_count_def)
  then show ?thesis using assms by (auto simp: queue_control_def not_le intro!: wp_fault)
qed

lemma wp_queue_client_ident:
  assumes "inv (m, es)" "\<And>m' es'. inv (m', es') \<Longrightarrow> Q () (m', es')"
  shows "wp queue_client_ident Q (m, es)"
  using assms by (auto simp: queue_client_ident_def intro!: wp_queue_control)

lemma wp_queue_reconnect:
  assumes "inv (m, es)" "\<And>m' es'. inv (m', es') \<Longrightarrow> Q () (m', es')"
  shows "wp queue_reconnect Q (m, es)"
  using assms inv_disconnect [OF assms(1), of "[]" "sm_write_busy m"]
  by (auto simp: queue_reconnect_def intro!: wp_queue_control)

lemma wp_refresh_cookie:
  assumes "inv (m, es)" "\<And>m' es'. inv (m', es') \<Longrightarrow> Q False (m', es')"
    "\<And>m' es'. inv (m', es') \<Longrightarrow> live m' = live m \<Longrightarrow> Q True (m', es')"
  shows "wp refresh_cookie Q (m, es)"
proof -
  have "inv (m\<lparr>sm_replacement_cookies := cs\<rparr>, es)" "inv (m\<lparr>sm_replacement_cookies := cs, sm_client_cookie := c\<rparr>, es)" for cs c
    by (rule inv_frame [OF assms(1)]; simp add: similar_def)+
  then show ?thesis using assms
    by (auto simp: refresh_cookie_def live_def intro!: wp_fail_terminal split: list.splits)
qed

lemma wp_establish:
  assumes "inv (m, es)" "live m" "\<And>m' es'. inv (m', es') \<Longrightarrow> Q () (m', es')"
  shows "wp (establish generation) Q (m, es)"
proof -
  have close: "Q () (m', es' @ [Eff_CloseTransport generation])" if "inv (m', es')" for m' es'
    using that inv_push assms(3) by simp
  have seq: "inv (m'\<lparr>sm_connect_sequence := n\<rparr>, es')" if "inv (m', es')" for m' es' n
    by (rule inv_frame [OF that]) (simp_all add: similar_def)
  have live_seq: "live (m'\<lparr>sm_connect_sequence := n\<rparr>) = live m'" for m' n by (simp add: live_def)
  show ?thesis
    using assms close seq
    by (auto simp: establish_def live_seq intro!: wp_fail_terminal wp_start_transport wp_queue_reconnect
        wp_queue_client_ident wp_refresh_cookie split: option.splits)
qed

lemma wp_adopt_identity:
  assumes "inv (m, es)" "live m" "\<And>m' es'. inv (m', es') \<Longrightarrow> Q False (m', es')"
    "\<And>m' es'. inv (m', es') \<Longrightarrow> live m' \<Longrightarrow> Q True (m', es')"
  shows "wp (adopt_identity gid) Q (m, es)"
proof -
  have a: "inv (m\<lparr>sm_authenticated_global_id := g\<rparr>, es)" for g
    by (rule inv_frame [OF assms(1)]) (simp_all add: similar_def)
  have b: "inv (m\<lparr>sm_authenticated_global_id := g, sm_config := (sm_config m)\<lparr>cf_client_ident :=
      (cf_client_ident (sm_config m))\<lparr>ci_global_id := i\<rparr>\<rparr>\<rparr>, es)" for g i
    using inv_bounds [OF assms(1)]
    by (intro inv_minor [OF assms(1)]) (auto simp: similar_def config_core_def bounds_ok_def lifecycle_ok_def in_flight_count_def)
  show ?thesis using assms a b
    by (auto simp: adopt_identity_def live_def intro!: wp_fail_terminal wp_reset_for_new_identity split: option.splits)
qed

lemma wp_advance_global_sequence:
  assumes "inv (m, es)" "live m" "\<And>m' es'. inv (m', es') \<Longrightarrow> Q False (m', es')"
    "\<And>m' es'. inv (m', es') \<Longrightarrow> live m' \<Longrightarrow> Q True (m', es')"
  shows "wp advance_global_sequence Q (m, es)"
proof -
  have "inv (m\<lparr>sm_global_sequence := n\<rparr>, es)" for n by (rule inv_frame [OF assms(1)]) (simp_all add: similar_def)
  then show ?thesis using assms
    by (auto simp: advance_global_sequence_def live_def intro!: wp_fail_terminal split: option.splits)
qed

lemma wp_connected_fresh:
  assumes "inv (m\<lparr>sm_connect_pending := False, sm_terminal_error := None, sm_transitions := 0\<rparr>, es)"
    "\<And>m' es'. inv (m', es') \<Longrightarrow> Q () (m', es')"
    "generation \<noteq> sm_generation m \<or> \<not> sm_connect_pending m \<Longrightarrow> Q () (m, es @ [Eff_CloseTransport generation])"
  shows "wp (connected generation gid cred) Q (m, es)"
proof -
  have close: "Q () (m', es' @ [Eff_CloseTransport generation])" if "inv (m', es')" for m' es'
    using that inv_push assms(2) by simp
  have once: "inv (m'\<lparr>sm_connected_once := True\<rparr>, es')" if "inv (m', es')" for m' es'
    by (rule inv_frame [OF that]) (simp_all add: similar_def)
  have judged: "inv (judge_credential cred m', es')" if "inv (m', es')" for m' es'
    by (rule inv_frame [OF that]) (simp_all add: similar_def judge_credential_def split: option.splits)
  have live_judged: "live (judge_credential cred m') = live m'" for m'
    by (simp add: live_def judge_credential_def split: option.splits)
  have live_once: "live (m'\<lparr>sm_connected_once := True\<rparr>) = live m'" for m' by (simp add: live_def)
  have live_fresh: "live (m\<lparr>sm_connect_pending := False, sm_terminal_error := None, sm_transitions := 0\<rparr>)"
    by (simp add: live_def)
  show ?thesis
    using assms close live_fresh
    by (auto simp: connected_def live_once live_judged
        intro!: wp_advance_global_sequence wp_adopt_identity wp_establish once judged)
qed

lemma inv_fresh:
  assumes "inv (m, es)"
  shows "inv (m\<lparr>sm_connect_pending := False, sm_terminal_error := None, sm_transitions := 0\<rparr>, es)"
  using inv_bounds [OF assms]
  by (intro inv_minor [OF assms]) (auto simp: similar_def bounds_ok_def lifecycle_ok_def in_flight_count_def)

lemma wp_connected:
  assumes "inv (m, es)" "\<And>m' es'. inv (m', es') \<Longrightarrow> Q () (m', es')"
  shows "wp (connected generation gid cred) Q (m, es)"
  using inv_fresh [OF assms(1)] assms inv_push [OF assms(1)] by (intro wp_connected_fresh) simp_all

lemma wp_connected_initially:
  assumes "inv (m, es)" "\<And>m' es'. inv (m', es') \<Longrightarrow> Q () (m', es')"
  shows "wp (connected (sm_generation m) gid cred) Q (m\<lparr>sm_connect_pending := True\<rparr>, es)"
  using inv_fresh [OF assms(1)] assms(2) by (intro wp_connected_fresh) simp_all

lemma wp_complete_renewal:
  assumes "inv (m, es)" "live m" "\<And>m' es'. inv (m', es') \<Longrightarrow> Q False (m', es')"
    "\<And>m' es'. inv (m', es') \<Longrightarrow> live m' \<Longrightarrow> Q True (m', es')"
  shows "wp complete_renewal Q (m, es)"
proof -
  let ?r = "\<lambda>r. m\<lparr>sm_credential_identity := sm_candidate_credential_identity m,
         sm_candidate_credential_identity := None, sm_renewal := r, sm_credential_change := Cred_Unknown\<rparr>"
  have "inv (?r r, es)" for r by (rule inv_frame [OF assms(1)]) (simp_all add: similar_def)
  then have renewed: "inv (?r r, es @ [Eff_Event Ev_CredentialRenewalCompleted])" for r
    by (rule inv_push) simp
  let ?p = "\<lambda>r. m\<lparr>sm_credential_identity := sm_candidate_credential_identity m,
         sm_candidate_credential_identity := None, sm_renewal_pending := False, sm_renewal := r,
         sm_credential_change := Cred_Unknown\<rparr>"
  have "inv (?p r, es)" for r by (rule inv_frame [OF assms(1)]) (simp_all add: similar_def)
  then have "inv (?p r, (es @ [Eff_Event Ev_CredentialRenewal]) @ [Eff_Event Ev_CredentialRenewalCompleted])" for r
    by (intro inv_push) simp_all
  then show ?thesis using assms renewed
    by (auto simp: complete_renewal_def live_def intro!: wp_fault)
qed

lemma wp_reset:
  assumes "inv (m, es)" "live m" "\<And>m' es'. inv (m', es') \<Longrightarrow> Q () (m', es')"
  shows "wp (reset full) Q (m, es)"
proof -
  let ?z = "\<lambda>m. m\<lparr>sm_server_cookie := 0, sm_server_flags := 0, sm_connect_sequence := 0, sm_last_inbound := 0\<rparr>"
  have z: "inv (?z m', es' @ [Eff_Event (Ev_SessionReset full)])" if "inv (m', es')" for m' es'
    by (rule inv_push, rule inv_frame [OF that]) (simp_all add: similar_def)
  have live_z: "live (?z m') = live m'" for m' by (simp add: live_def)
  have full: "wp (fail_all Ses_Disconnected) (\<lambda>_. wp (set_conn_state Connecting) (\<lambda>_. wp queue_client_ident Q))
      (m'\<lparr>sm_next_outbound := Some 1, sm_next_transaction_id := Some 1\<rparr>, es')" if "inv (m', es')" "live m'" for m' es'
  proof -
    let ?m = "m'\<lparr>sm_next_outbound := Some 1, sm_next_transaction_id := Some 1\<rparr>"
    have "inv (cleared ?m, es' @ failures Ses_Disconnected m')" by (rule inv_cleared [OF that(1)]) simp_all
    moreover have "live (cleared ?m)" using that(2) by (simp add: live_def cleared_def)
    ultimately show ?thesis using assms(3)
      by (auto simp: failures_same [of ?m m'] intro!: wp_set_conn_state wp_queue_client_ident)
  qed
  show ?thesis using assms z live_z full
    by (auto simp: reset_def simp del: wp_fail_all intro!: wp_invalidate_controls wp_refresh_cookie wp_prepare_replay
        wp_set_conn_state wp_queue_client_ident)
qed

lemma wp_become_ready:
  assumes "inv (m, es)" "live m" "\<And>es'. inv (m\<lparr>sm_reconnect_attempts := 0, sm_state := Ready\<rparr>, es') \<Longrightarrow>
      Q () (m\<lparr>sm_reconnect_attempts := 0, sm_state := Ready\<rparr>, es')"
  shows "wp (set_conn_state Ready) Q (m\<lparr>sm_reconnect_attempts := 0\<rparr>, es)"
proof -
  have "inv (m\<lparr>sm_reconnect_attempts := 0\<rparr>, es)"
    using inv_bounds [OF assms(1)]
    by (intro inv_minor [OF assms(1)]) (auto simp: similar_def bounds_ok_def lifecycle_ok_def in_flight_count_def)
  then show ?thesis using assms(2, 3) by (intro wp_set_conn_state) (auto simp: live_def)
qed

lemma wp_server_ident_received:
  assumes "inv (m, es)" "\<And>m' es'. inv (m', es') \<Longrightarrow> Q () (m', es')"
  shows "wp (server_ident_received ident) Q (m, es)"
proof -
  let ?t = "\<lambda>n. m\<lparr>sm_transitions := n\<rparr>"
  let ?i = "\<lambda>n. m\<lparr>sm_transitions := n, sm_server_cookie := si_cookie ident, sm_server_global_id := si_global_id ident,
           sm_server_addresses := si_addresses ident, sm_server_features := si_supported_features ident,
           sm_server_flags := si_flags ident\<rparr>"
  have "inv (?t n, es)" "inv (?i n, es)" for n by (rule inv_frame [OF assms(1)]; simp add: similar_def)+
  moreover have "live (?i n)" if "sm_state m = Connecting" for n
    using live_state [OF assms(1)] that by (simp add: live_def)
  ultimately show ?thesis using assms
    by (auto simp: server_ident_received_def intro!: wp_fault wp_fail_terminal wp_fail_sent_unknown wp_complete_renewal
        wp_become_ready)
qed

lemma wp_deliver_incoming:
  assumes "inv (m, es)" "\<And>m' es'. inv (m', es') \<Longrightarrow> Q () (m', es')"
  shows "wp (deliver_incoming msg) Q (m, es)"
proof -
  have "inv (m\<lparr>sm_incoming_count := sm_incoming_count m + 1\<rparr>, es @ [Eff_Incoming msg])"
    if "sm_incoming_count m < cf_max_queued_messages (sm_config m)"
    using inv_bounds [OF assms(1)] that
    by (intro inv_push inv_minor [OF assms(1)])
      (auto simp: similar_def bounds_ok_def lifecycle_ok_def in_flight_count_def)
  then show ?thesis using assms by (auto simp: deliver_incoming_def not_le intro!: wp_fail_terminal)
qed

lemma wp_resolve_found:
  assumes "inv (m, es)" "find_pending m r = Some p" "\<And>m' es'. inv (m', es') \<Longrightarrow> Q () (m', es')"
    "resolves e = Some r"
    "\<And>error. e = Eff_Failed r error \<Longrightarrow> error \<noteq> Ses_OutcomeUnknown \<Longrightarrow> \<not> p_may_have_executed p"
    "\<And>reply. e = Eff_Completed r (Some reply) \<Longrightarrow> p_may_have_executed p"
  shows "wp (remove_pending r) (\<lambda>_. wp (push e) Q) (m, es)"
  using inv_resolve [OF assms(1, 2, 4-6)] assms(3) by (simp add: remove_pending_def)

lemma wp_match_reply:
  assumes "inv (m, es)" "\<And>m' es'. inv (m', es') \<Longrightarrow> Q () (m', es')"
  shows "wp (case Option.bind x (find_pending m) of
      None \<Rightarrow> deliver_incoming msg
    | Some p \<Rightarrow> if p_may_have_executed p \<and> \<not> p_one_way p then do {
          remove_pending (p_request_id p);
          push (Eff_Completed (p_request_id p) (Some msg))
        } else deliver_incoming msg) Q (m, es)"
proof (cases "Option.bind x (find_pending m)")
  case None
  then show ?thesis using assms by (simp add: wp_deliver_incoming)
next
  case (Some p)
  then obtain r where "find_pending m r = Some p" by (auto simp: bind_eq_Some_conv)
  moreover from this have "p_request_id p = r" by (rule find_pending_split) simp
  ultimately have p: "find_pending m (p_request_id p) = Some p" by simp
  show ?thesis
  proof (cases "p_may_have_executed p \<and> \<not> p_one_way p")
    case True
    then have "wp (remove_pending (p_request_id p)) (\<lambda>_. wp (push (Eff_Completed (p_request_id p) (Some msg))) Q) (m, es)"
      by (intro wp_resolve_found [OF assms(1) p]) (simp_all add: assms(2))
    then show ?thesis using Some True by simp
  next
    case False
    then show ?thesis using assms Some by (auto intro!: wp_deliver_incoming)
  qed
qed

lemma wp_message_received:
  assumes "inv (m, es)" "\<And>m' es'. inv (m', es') \<Longrightarrow> Q () (m', es')"
  shows "wp (message_received msg) Q (m, es)"
proof -
  let ?l = "m\<lparr>sm_last_inbound := mh_sequence (m_header msg)\<rparr>"
  have l: "inv (?l, es)" by (rule inv_frame [OF assms(1)]) (simp_all add: similar_def)
  have "wp (trim_replay a) (\<lambda>_. wp (queue_control c) (\<lambda>_. wp machine (\<lambda>m. wp (
      case Option.bind (sm_by_transaction m t) (find_pending m) of
      None \<Rightarrow> deliver_incoming msg
    | Some p \<Rightarrow> if p_may_have_executed p \<and> \<not> p_one_way p then do {
          remove_pending (p_request_id p);
          push (Eff_Completed (p_request_id p) (Some msg))
        } else deliver_incoming msg) Q))) (?l, es')" if "inv (?l, es')" for a c t es'
    using that assms(2) by (auto intro!: wp_trim_replay wp_queue_control wp_match_reply)
  moreover have "inv (?l, es @ [Eff_Event e])" "inv (m, es @ [Eff_Event e])" for e
    by (rule inv_push [OF l] inv_push [OF assms(1)]; simp)+
  ultimately show ?thesis using assms l
    by (auto simp: message_received_def intro!: wp_fault wp_accept_acknowledgment)
qed

lemma wp_session_reconnect_ok:
  assumes "inv (m, es)" "\<And>m' es'. inv (m', es') \<Longrightarrow> Q () (m', es')"
  shows "wp (session_reconnect_ok n) Q (m, es)"
proof -
  have event: "Q () (m', es' @ [Eff_Event e])" if "inv (m', es')" for m' es' e
    using that inv_push assms(2) by simp
  show ?thesis using assms
    by (auto simp: session_reconnect_ok_def intro!: wp_transition_allowed wp_accept_acknowledgment wp_trim_replay
        wp_prepare_replay wp_complete_renewal wp_become_ready event)
qed

lemma wp_session_retry:
  assumes "inv (m, es)" "\<And>m' es'. inv (m', es') \<Longrightarrow> Q () (m', es')"
  shows "wp (session_retry n) Q (m, es)"
proof -
  have "inv (m'\<lparr>sm_connect_sequence := k\<rparr>, es' @ [Eff_Event (Ev_Retry k)])" if "inv (m', es')" for m' es' k
    by (rule inv_push, rule inv_frame [OF that]) (simp_all add: similar_def)
  then show ?thesis using assms
    by (auto simp: session_retry_def intro!: wp_transition_allowed wp_fail_terminal wp_queue_reconnect split: option.splits)
qed

lemma wp_session_retry_global:
  assumes "inv (m, es)" "\<And>m' es'. inv (m', es') \<Longrightarrow> Q () (m', es')"
  shows "wp (session_retry_global n) Q (m, es)"
proof -
  have "inv (m'\<lparr>sm_global_sequence := k\<rparr>, es' @ [Eff_Event (Ev_RetryGlobal k)])" if "inv (m', es')" for m' es' k
    by (rule inv_push, rule inv_frame [OF that]) (simp_all add: similar_def)
  then show ?thesis using assms
    by (auto simp: session_retry_global_def intro!: wp_transition_allowed wp_fail_terminal wp_queue_reconnect
        split: option.splits)
qed

lemma wp_wait_received:
  assumes "inv (m, es)" "\<And>m' es'. inv (m', es') \<Longrightarrow> Q () (m', es')"
  shows "wp wait_received Q (m, es)"
proof -
  have t: "inv (m\<lparr>sm_transitions := n\<rparr>, es)" for n by (rule inv_frame [OF assms(1)]) (simp_all add: similar_def)
  have "live (m\<lparr>sm_transitions := n\<rparr>)" if "sm_state m \<in> {Connecting, Reconnecting}" for n
    using live_state [OF assms(1)] that by (auto simp: live_def)
  then have "wp (set_conn_state Waiting) (\<lambda>_. wp (push (Eff_Event Ev_Wait)) (\<lambda>_. wp (fault Ses_Disconnected) Q))
      (m\<lparr>sm_transitions := n\<rparr>, es)" if "sm_state m \<in> {Connecting, Reconnecting}" for n
    using that t [of n] assms(2) by (auto intro!: wp_set_conn_state wp_fault inv_push)
  then show ?thesis using assms by (auto simp: wait_received_def simp del: wp_simps(5) intro!: wp_fault)
qed

lemma wp_control_received:
  assumes "inv (m, es)" "\<And>m' es'. inv (m', es') \<Longrightarrow> Q () (m', es')"
  shows "wp (control_received c) Q (m, es)"
proof -
  have event: "Q () (m', es' @ [Eff_Event e])" if "inv (m', es')" for m' es' e
    using that inv_push assms(2) by simp
  show ?thesis using assms
    by (cases c)
      (auto intro!: wp_fault wp_fail_terminal wp_require_ready wp_accept_acknowledgment wp_trim_replay event
        wp_queue_control wp_transition_allowed wp_reset wp_session_retry wp_session_retry_global wp_wait_received
        wp_session_reconnect_ok wp_server_ident_received)
qed

lemma wp_renewal_due:
  assumes "inv (m, es)" "\<And>m' es'. inv (m', es') \<Longrightarrow> Q () (m', es')"
  shows "wp (renewal_due g) Q (m, es)"
proof -
  have "inv (m'\<lparr>sm_renewal := r\<rparr>, es' @ [Eff_Event e])" if "inv (m', es')" for m' es' r e
    by (rule inv_push, rule inv_frame [OF that]) (simp_all add: similar_def)
  moreover have "inv (m\<lparr>sm_renewal_pending := True\<rparr>, es)"
    by (rule inv_frame [OF assms(1)]) (simp_all add: similar_def)
  ultimately show ?thesis using assms by (auto simp: renewal_due_def intro!: wp_invalidate_controls)
qed

lemma wp_write_complete:
  assumes "inv (m, es)" "\<And>m' es'. inv (m', es') \<Longrightarrow> Q () (m', es')"
  shows "wp (write_complete r result) Q (m, es)"
proof -
  let ?m = "m\<lparr>sm_write_busy := False\<rparr>"
  have w: "inv (?m, es)" by (rule inv_frame [OF assms(1)]) (simp_all add: similar_def)
  have "wp (remove_pending (p_request_id p)) (\<lambda>_. wp (push (Eff_Completed (p_request_id p) None)) Q) (?m, es)"
    if found: "Option.bind r (find_pending ?m) = Some p" for p
  proof -
    obtain r' where r': "find_pending ?m r' = Some p" using found by (auto simp: bind_eq_Some_conv)
    moreover from this have "p_request_id p = r'" by (rule find_pending_split) simp
    ultimately have "find_pending ?m (p_request_id p) = Some p" by simp
    then show ?thesis by (intro wp_resolve_found [OF w]) (simp_all add: assms(2))
  qed
  then show ?thesis using assms(2) w
    by (auto simp: write_complete_def simp del: wp_simps(5) intro!: wp_fault split: sum.splits option.splits)
qed

lemma wp_cancel:
  assumes "inv (m, es)" "\<And>m' es'. inv (m', es') \<Longrightarrow> Q () (m', es')"
  shows "wp (cancel r) Q (m, es)"
proof (cases "find_pending m r")
  case (Some p)
  have "wp (remove_pending r) (\<lambda>_. wp (push (Eff_Failed r
      (if p_may_have_executed p then Ses_OutcomeUnknown else Ses_Cancelled))) Q) (m, es)"
    by (intro wp_resolve_found [OF assms(1) Some]) (simp_all add: assms(2) split: if_splits)
  then show ?thesis using Some by (simp add: cancel_def del: wp_simps(5))
qed (simp add: cancel_def assms)

lemma wp_dispatch:
  assumes "inv (m, es)" "\<And>m' es'. inv (m', es') \<Longrightarrow> Q () (m', es')"
  shows "wp dispatch Q (m, es)"
proof -
  have c: "inv (m\<lparr>sm_controls := cs, sm_write_busy := True\<rparr>, es @ [Eff_SendControl g c])" if "sm_controls m = c # cs" for c cs g
    using inv_bounds [OF assms(1)] that
    by (intro inv_push inv_minor [OF assms(1)])
      (auto simp: similar_def bounds_ok_def lifecycle_ok_def in_flight_count_def)
  have r: "inv (m\<lparr>sm_renewal := Renewal_Reconnecting\<rparr>, es)"
    by (rule inv_frame [OF assms(1)]) (simp_all add: similar_def)
  have send: "wp (assign_sequence i) (\<lambda>ok. wp (if ok then send_pending i else ret ()) Q) (m, es)"
    if "sm_state m = Ready" "next_index m = Some i" for i
  proof (cases "sequenced i m")
    case None
    then show ?thesis using assms by (auto simp: wp_assign_sequence intro!: wp_fail_terminal)
  next
    case (Some m')
    have "wp (send_pending i) Q (m', es)"
      by (rule wp_mono [OF inv_send [OF assms(1) that Some]]) (simp add: assms(2))
    then show ?thesis using Some by (simp add: wp_assign_sequence)
  qed
  show ?thesis using assms c r send
    by (auto simp: dispatch_def intro!: wp_fault split: list.splits option.splits)
qed

theorem react_keeps:
  assumes "submits i = []" "inv (m, es)"
  shows "wp (react crc i) (\<lambda>_. inv) (m, es)"
proof -
  have identity: "inv (m\<lparr>sm_credential_identity := c\<rparr>, es)"
    "inv (m\<lparr>sm_authenticated_global_id := g, sm_credential_identity := c\<rparr>, es)" for g c
    by (rule inv_frame [OF assms(2)]; simp add: similar_def)+
  have consumed: "inv (m\<lparr>sm_incoming_count := sm_incoming_count m - 1\<rparr>, es)"
    using inv_bounds [OF assms(2)]
    by (intro inv_minor [OF assms(2)]) (auto simp: similar_def bounds_ok_def lifecycle_ok_def in_flight_count_def)
  have failed: "inv (m\<lparr>sm_connect_pending := False\<rparr>, es @ [Eff_Event (Ev_TransportFault Ses_Disconnected)])"
    if "sm_connect_pending m"
    using inv_bounds [OF assms(2)] that
    by (intro inv_push inv_minor [OF assms(2)])
      (auto simp: similar_def bounds_ok_def lifecycle_ok_def in_flight_count_def)
  have waiting: "sm_state m = Disconnected" "sm_terminal_error m = None" if "sm_connect_pending m"
    using inv_bounds(2) [OF assms(2)] that by (auto simp: lifecycle_ok_def)
  show ?thesis using assms identity consumed failed waiting
    by (cases i) (auto intro!: wp_start wp_connected wp_connected_initially wp_cancel wp_dispatch wp_write_complete
        wp_begin_reconnect wp_control_received wp_message_received wp_fault wp_renewal_due wp_stop split: option.splits)
qed

end

section \<open>The session keeps its invariant\<close>

lemma neutral_list:
  "list_all neutral ns \<Longrightarrow> resolved ns = [] \<and> sent_ids ns = {} \<and> (\<forall>r e. Eff_Failed r e \<notin> set ns) \<and>
     (\<forall>r e. Eff_Completed r e \<notin> set ns)"
proof (induction ns)
  case (Cons n ns)
  have "sent_ids (n # ns) = sent_ids [n] \<union> sent_ids ns" using sent_ids_simps(2) [of "[n]" ns] by simp
  then show ?case using Cons by (cases n) (auto simp: neutral_def)
qed simp

lemma failures_facts:
  "resolved (failures error m) = request_ids m" "sent_ids (failures error m) = {}"
  "Eff_Completed r reply \<notin> set (failures error m)"
  "Eff_Failed r e \<in> set (failures error m) \<Longrightarrow> e \<noteq> Ses_OutcomeUnknown \<Longrightarrow>
     \<exists>p \<in> set (sm_pending m). p_request_id p = r \<and> \<not> p_may_have_executed p"
proof -
  show "resolved (failures error m) = request_ids m"
    by (simp add: failures_def resolved_def List.map_filter_def o_def)
  show "sent_ids (failures error m) = {}" "Eff_Completed r reply \<notin> set (failures error m)"
    by (auto simp: failures_def sent_ids_def)
  show "Eff_Failed r e \<in> set (failures error m) \<Longrightarrow> e \<noteq> Ses_OutcomeUnknown \<Longrightarrow>
     \<exists>p \<in> set (sm_pending m). p_request_id p = r \<and> \<not> p_may_have_executed p"
    by (auto simp: failures_def split: if_splits)
qed

lemma good_clear:
  assumes g: "good S m0 h (m, es)" and pend: "sm_pending m' = sm_pending m" and gen: "sm_generation m \<le> sm_generation m'"
    and core: "config_core (sm_config m') = config_core (sm_config m)" and ns: "list_all neutral ns"
    and ok: "bounds_ok (cleared m')" "lifecycle_ok (cleared m')"
  shows "good S m0 h (cleared m', es @ ns @ failures error m)"
proof -
  have "session_ok (cleared m')"
    using ok by (simp add: session_ok_def requests_ok_def accounts_ok_def sequences_ok_def cleared_def)
  moreover have "ledger_ok S (cleared m') (h @ es @ ns @ failures error m)"
    using g neutral_list [OF ns] by (simp add: good_def ledger_ok_def cleared_def failures_facts add.assoc)
  moreover have "honest S (cleared m') (h @ es @ ns @ failures error m)"
    using g neutral_list [OF ns]
    by (auto simp: good_def honest_def cleared_def failures_facts(2, 3) dest: failures_facts(4))
  ultimately show ?thesis using g core order.trans [OF _ gen] by (simp add: good_def cleared_def)
qed

lemma good_trim:
  assumes "good S m0 h (m, es)"
  shows "good S m0 h (m\<lparr>sm_replay := filter P (sm_replay m)\<rparr>, es)"
  using assms
  by (auto simp: good_def session_ok_def requests_ok_def accounts_ok_def bounds_ok_def sequences_ok_def
      lifecycle_ok_def ledger_ok_def honest_def in_flight_count_def)

text \<open>Requests taken back for replay differ from the pending ones only in being unsent.\<close>

definition unsent :: "pending list \<Rightarrow> pending list \<Rightarrow> bool" where
  "unsent ps qs \<longleftrightarrow> list_all2 (\<lambda>p q. q = p \<or> q = p\<lparr>p_sent := False\<rparr>) ps qs"

lemma unsent_unsend: "unsent ps (unsend r ps)"
  by (induction r ps rule: unsend.induct) (auto simp: unsent_def list_all2_refl)

lemma unsent_trans: "unsent ps qs \<Longrightarrow> unsent qs rs \<Longrightarrow> unsent ps rs"
  unfolding unsent_def
  by (rule list_all2_trans [where ?P1.0 = "\<lambda>p q. q = p \<or> q = p\<lparr>p_sent := False\<rparr>" and ?P2.0 = "\<lambda>p q. q = p \<or> q = p\<lparr>p_sent := False\<rparr>"])
    auto

lemma unsent_fold: "unsent ps (fold unsend rs ps)"
proof (induction rs arbitrary: ps)
  case Nil
  then show ?case by (simp add: unsent_def list_all2_refl)
next
  case (Cons r rs)
  have "unsent ps (fold unsend rs (unsend r ps))" by (rule unsent_trans [OF unsent_unsend Cons])
  then show ?case by simp
qed

lemma unsent_facts:
  assumes "unsent ps qs"
  shows "map p_request_id qs = map p_request_id ps" "map p_transaction_id qs = map p_transaction_id ps"
    "map p_sequence qs = map p_sequence ps"
    "length (filter is_control qs) = length (filter is_control ps)"
    "length (filter (\<lambda>p. \<not> is_control p) qs) = length (filter (\<lambda>p. \<not> is_control p) ps)"
    "total_bytes (filter is_control qs) = total_bytes (filter is_control ps)"
    "total_bytes (filter (\<lambda>p. \<not> is_control p) qs) = total_bytes (filter (\<lambda>p. \<not> is_control p) ps)"
    "length (filter (\<lambda>p. p_sent p \<and> p_control p = None) qs) \<le> length (filter (\<lambda>p. p_sent p \<and> p_control p = None) ps)"
    "map p_may_have_executed qs = map p_may_have_executed ps"
    "list_all (numbered n) ps \<Longrightarrow> list_all (numbered n) qs"
  using assms unfolding unsent_def
  by (induction rule: list_all2_induct) (auto simp: is_control_def p_transaction_id_def numbered_def split: option.splits)

lemma map_pairs: "map f ps = map f qs \<Longrightarrow> map g ps = map g qs \<Longrightarrow> map (\<lambda>p. (f p, g p)) ps = map (\<lambda>p. (f p, g p)) qs"
  by (simp add: list_eq_iff_nth_eq)

lemma set_by_fields:
  assumes "map f qs = map f ps" "map g qs = map g ps"
  shows "(\<forall>q \<in> set qs. P (f q) (g q)) \<longleftrightarrow> (\<forall>p \<in> set ps. P (f p) (g p))"
    and "(\<exists>q \<in> set qs. P (f q) (g q)) \<longleftrightarrow> (\<exists>p \<in> set ps. P (f p) (g p))"
proof -
  have same: "(\<lambda>p. (f p, g p)) ` set qs = (\<lambda>p. (f p, g p)) ` set ps"
    using map_pairs [OF assms] by (metis list.set_map)
  have e: "(\<forall>q \<in> set xs. P (f q) (g q)) \<longleftrightarrow> (\<forall>x \<in> (\<lambda>p. (f p, g p)) ` set xs. P (fst x) (snd x))"
    "(\<exists>q \<in> set xs. P (f q) (g q)) \<longleftrightarrow> (\<exists>x \<in> (\<lambda>p. (f p, g p)) ` set xs. P (fst x) (snd x))" for xs by simp_all
  show "(\<forall>q \<in> set qs. P (f q) (g q)) \<longleftrightarrow> (\<forall>p \<in> set ps. P (f p) (g p))"
    unfolding e(1) [of qs] e(1) [of ps] same ..
  show "(\<exists>q \<in> set qs. P (f q) (g q)) \<longleftrightarrow> (\<exists>p \<in> set ps. P (f p) (g p))"
    unfolding e(2) [of qs] e(2) [of ps] same ..
qed

lemma good_unsent:
  assumes g: "good S m0 h (m, es)" and u: "unsent (sm_pending m) qs"
  shows "good S m0 h (m\<lparr>sm_pending := qs\<rparr>, es)"
proof -
  note f = unsent_facts [OF u]
  have ok: "session_ok m" using g by (simp add: good_def)
  have "requests_ok (m\<lparr>sm_pending := qs\<rparr>)"
    using ok f(1, 2) map_pairs [OF f(2) f(1)] by (simp add: session_ok_def requests_ok_def)
  moreover have "accounts_ok (m\<lparr>sm_pending := qs\<rparr>)" "bounds_ok (m\<lparr>sm_pending := qs\<rparr>)"
    using ok f(4-8) by (auto simp: session_ok_def accounts_ok_def bounds_ok_def in_flight_count_def)
  moreover have "sequences_ok (m\<lparr>sm_pending := qs\<rparr>)"
    using ok f(3, 10) set_by_fields(2) [OF f(1) f(9), of "\<lambda>r x. r = c \<and> x" for c]
    by (simp add: session_ok_def sequences_ok_def list_all_iff)
  moreover have "lifecycle_ok (m\<lparr>sm_pending := qs\<rparr>)"
    using ok u by (auto simp: session_ok_def lifecycle_ok_def unsent_def)
  moreover have "ledger_ok S (m\<lparr>sm_pending := qs\<rparr>) (h @ es)" using g f(1) by (simp add: good_def ledger_ok_def del: mset_map)
  moreover have "honest S (m\<lparr>sm_pending := qs\<rparr>) (h @ es)"
    using g set_by_fields(1) [OF f(1) f(9), of "\<lambda>r x. x \<longleftrightarrow> r \<in> sent_ids (h @ es)"]
    by (simp add: good_def honest_def)
  ultimately show ?thesis using g by (simp add: good_def session_ok_def)
qed

text \<open>Sending: request \<open>p\<close> becomes \<open>q\<close>, sent under its sequence number.\<close>

definition sends :: "machine \<Rightarrow> pending list \<Rightarrow> pending \<Rightarrow> pending list \<Rightarrow> pending \<Rightarrow> u64 option \<Rightarrow> bool" where
  "sends m xs p ys q next \<longleftrightarrow>
     sm_pending m = xs @ p # ys \<and> \<not> p_sent p \<and>
     (is_control p \<or> in_flight_count m < cf_max_in_flight_transactions (sm_config m)) \<and>
     p_request_id q = p_request_id p \<and> p_transaction_id q = p_transaction_id p \<and> p_bytes q = p_bytes p \<and>
     p_control q = p_control p \<and> p_sent q \<and> p_may_have_executed q \<and>
     mh_sequence (m_header (p_message q)) = p_sequence q \<and>
     (if p_sequence p \<noteq> 0 then p_sequence q = p_sequence p \<and> next = sm_next_outbound m
      else \<exists>n. sm_next_outbound m = Some n \<and> p_sequence q = max n 1 \<and>
        next = (if max n 1 = U64_MAX then None else Some (max n 1 + 1)))"

lemma sends_sequences:
  assumes ok: "session_ok m" and s: "sends m xs p ys q next"
  shows "\<forall>x \<in> set (xs @ q # ys). numbered next x"
    and "distinct (filter (\<lambda>n. n \<noteq> 0) (map p_sequence (xs @ q # ys)))"
proof -
  have all: "\<forall>x \<in> set (xs @ p # ys). numbered (sm_next_outbound m) x"
    and dist: "distinct (filter (\<lambda>n. n \<noteq> 0) (map p_sequence (xs @ p # ys)))"
    using ok s by (auto simp: session_ok_def sequences_ok_def sends_def)
  show "\<forall>x \<in> set (xs @ q # ys). numbered next x"
  proof (cases "p_sequence p = 0")
    case False
    then show ?thesis using all s by (auto simp: sends_def numbered_def split: option.splits)
  next
    case True
    then obtain n where n: "sm_next_outbound m = Some n" "p_sequence q = max n 1"
      "next = (if max n 1 = U64_MAX then None else Some (max n 1 + 1))" using s by (auto simp: sends_def)
    have "max n 1 < max n 1 + 1" if "max n 1 \<noteq> U64_MAX"
      using unat_Suc_less [of "max n 1"] that word_order.not_eq_extremum [of "max n 1"] by (simp add: word_less_nat_alt)
    moreover have "n \<le> max n 1" "max n 1 \<noteq> (0 :: u64)" by (auto simp: max_def word_le_nat_alt)
    ultimately show ?thesis using all s n
      by (auto simp: sends_def numbered_def intro: order.strict_trans2 order.strict_trans)
  qed
  show "distinct (filter (\<lambda>n. n \<noteq> 0) (map p_sequence (xs @ q # ys)))"
  proof (cases "p_sequence p = 0")
    case False
    then show ?thesis using dist s by (simp add: sends_def)
  next
    case True
    then obtain n where n: "sm_next_outbound m = Some n" "p_sequence q = max n 1" using s by (auto simp: sends_def)
    have "p_sequence x \<noteq> max n 1" if "x \<in> set (xs @ ys)" for x
    proof
      assume eq: "p_sequence x = max n 1"
      have "max n 1 \<noteq> (0 :: u64)" by (auto simp: max_def)
      moreover have "numbered (Some n) x" using all n(1) that by auto
      ultimately have "p_sequence x < n" unfolding numbered_def using eq by (metis option.simps(5))
      then show False using eq by (simp add: max_def split: if_splits)
    qed
    then have "max n 1 \<notin> p_sequence ` set xs" "max n 1 \<notin> p_sequence ` set ys" by force+
    then show ?thesis using dist True n by auto
  qed
qed

lemma sends_counts:
  assumes "sends m xs p ys q next"
  shows "filter is_control (xs @ q # ys) = filter is_control xs @ (if is_control p then [q] else []) @ filter is_control ys"
    "length (filter is_control (xs @ q # ys)) = length (filter is_control (sm_pending m))"
    "length (filter (\<lambda>p. \<not> is_control p) (xs @ q # ys)) = length (filter (\<lambda>p. \<not> is_control p) (sm_pending m))"
    "total_bytes (filter is_control (xs @ q # ys)) = total_bytes (filter is_control (sm_pending m))"
    "total_bytes (filter (\<lambda>p. \<not> is_control p) (xs @ q # ys)) = total_bytes (filter (\<lambda>p. \<not> is_control p) (sm_pending m))"
    "length (filter (\<lambda>p. p_sent p \<and> p_control p = None) (xs @ q # ys)) =
      in_flight_count m + (if is_control p then 0 else 1)"
  using assms by (simp_all add: sends_def is_control_def in_flight_count_def)

lemma pending_unresolved:
  assumes g: "good S m0 h (m, es)" and p: "p \<in> set (sm_pending m)" and uniq: "\<forall>r. count S r \<le> 1"
  shows "Eff_Failed (p_request_id p) e \<notin> set (h @ es)"
proof
  assume "Eff_Failed (p_request_id p) e \<in> set (h @ es)"
  then have "p_request_id p \<in> set (resolved (h @ es))" by (force simp: resolved_def List.map_filter_def)
  then have "count (mset (resolved (h @ es))) (p_request_id p) \<ge> 1" by (simp add: Suc_le_eq count_greater_zero_iff)
  moreover have "p_request_id p \<in># mset (request_ids m)" using p by simp
  then have "count (mset (request_ids m)) (p_request_id p) \<ge> 1" by (simp only: Suc_le_eq One_nat_def count_greater_zero_iff)
  moreover have "count S (p_request_id p) =
      count (mset (resolved (h @ es)) + mset (request_ids m)) (p_request_id p)"
    using g by (simp add: good_def ledger_ok_def)
  ultimately have "count S (p_request_id p) \<ge> 2" unfolding count_union by linarith
  then show False using uniq [rule_format, of "p_request_id p"] by simp
qed

lemma honest_sends:
  assumes g: "good S m0 h (m, es)" and pend: "sm_pending m = xs @ p # ys"
    and q: "p_request_id q = p_request_id p" "p_may_have_executed q" and m': "sm_pending m' = xs @ q # ys"
  shows "honest S m' (h @ es @ [Eff_SendMessage gen (p_request_id p) msg])"
  unfolding honest_def
proof (intro impI conjI ballI allI)
  assume uniq: "\<forall>r. count S r \<le> 1"
  have sent: "sent_ids (h @ es @ [Eff_SendMessage gen (p_request_id p) msg]) = insert (p_request_id p) (sent_ids (h @ es))"
    by auto
  have honest: "honest S m (h @ es)" using g by (simp add: good_def)
  have h: "\<And>x. x \<in> set (sm_pending m) \<Longrightarrow> p_may_have_executed x \<longleftrightarrow> p_request_id x \<in> sent_ids (h @ es)"
    "\<And>r e. Eff_Failed r e \<in> set (h @ es) \<Longrightarrow> e \<noteq> Ses_OutcomeUnknown \<Longrightarrow> r \<notin> sent_ids (h @ es)"
    "\<And>r x. Eff_Completed r (Some x) \<in> set (h @ es) \<Longrightarrow> r \<in> sent_ids (h @ es)"
    "sent_ids (h @ es) \<subseteq> set_mset S"
    using mp [OF honest [unfolded honest_def] uniq] by blast+
  have "distinct (request_ids m)" using g by (simp add: good_def session_ok_def requests_ok_def)
  then have "p_request_id p \<notin> p_request_id ` (set xs \<union> set ys)" using pend by auto
  then have other: "p_request_id x \<noteq> p_request_id p" if "x \<in> set xs \<union> set ys" for x
    using that by (metis imageI)
  show "p_may_have_executed x \<longleftrightarrow>
      p_request_id x \<in> sent_ids (h @ es @ [Eff_SendMessage gen (p_request_id p) msg])" if "x \<in> set (sm_pending m')" for x
  proof (cases "x = q")
    case True
    then show ?thesis using q by (simp add: sent)
  next
    case False
    then have x: "x \<in> set xs \<union> set ys" using that m' by auto
    then have "x \<in> set (sm_pending m)" using pend by auto
    then show ?thesis unfolding sent using h(1) other [OF x] by simp
  qed
  show "r \<notin> sent_ids (h @ es @ [Eff_SendMessage gen (p_request_id p) msg])"
    if "Eff_Failed r e \<in> set (h @ es @ [Eff_SendMessage gen (p_request_id p) msg])" "e \<noteq> Ses_OutcomeUnknown" for r e
  proof -
    have failed: "Eff_Failed r e \<in> set (h @ es)" using that(1) by simp
    then have "r \<noteq> p_request_id p" using pending_unresolved [OF g _ uniq, of p e] pend by auto
    then show ?thesis unfolding sent using h(2) [OF failed that(2)] by simp
  qed
  show "r \<in> sent_ids (h @ es @ [Eff_SendMessage gen (p_request_id p) msg])"
    if "Eff_Completed r (Some x) \<in> set (h @ es @ [Eff_SendMessage gen (p_request_id p) msg])" for r x
    unfolding sent using h(3) [of r x] that by simp
  have "p_request_id p \<in># S" using g pend by (auto simp: good_def ledger_ok_def)
  then show "sent_ids (h @ es @ [Eff_SendMessage gen (p_request_id p) msg]) \<subseteq> set_mset S"
    unfolding sent using h(4) by simp
qed

lemma good_sends:
  assumes g: "good S m0 h (m, es)" and st: "sm_state m = Ready" and s: "sends m xs p ys q next"
    and replay: "set replay = insert (p_request_id p) (set (sm_replay m))" "distinct replay"
  shows "good S m0 h (m\<lparr>sm_next_outbound := next, sm_pending := xs @ q # ys, sm_replay := replay, sm_write_busy := True\<rparr>,
      es @ [Eff_SendMessage gen (p_request_id p) msg])"
proof -
  let ?m = "m\<lparr>sm_next_outbound := next, sm_pending := xs @ q # ys, sm_replay := replay, sm_write_busy := True\<rparr>"
  have ok: "session_ok m" using g by (simp add: good_def)
  have pend: "sm_pending m = xs @ p # ys" and same: "p_request_id q = p_request_id p"
    "p_transaction_id q = p_transaction_id p" "p_may_have_executed q" using s by (simp_all add: sends_def)
  note c = sends_counts [OF s]
  have "requests_ok ?m" using ok pend same by (simp add: session_ok_def requests_ok_def)
  moreover have "accounts_ok ?m" using ok c(2-5) by (simp add: session_ok_def accounts_ok_def del: filter_append)
  moreover have "bounds_ok ?m"
    using ok c(3, 6) s
    by (auto simp: session_ok_def bounds_ok_def in_flight_count_def [of ?m] sends_def simp del: filter_append split: if_splits)
  moreover have "sequences_ok ?m"
    using ok pend same replay sends_sequences [OF ok s]
    by (auto simp: session_ok_def sequences_ok_def simp del: filter_append map_append)
  moreover have "lifecycle_ok ?m" using ok st by (auto simp: session_ok_def lifecycle_ok_def)
  moreover have "ledger_ok S ?m (h @ es @ [Eff_SendMessage gen (p_request_id p) msg])"
    using g pend same by (simp add: good_def ledger_ok_def)
  moreover have "honest S ?m (h @ es @ [Eff_SendMessage gen (p_request_id p) msg])"
    using honest_sends [OF g pend same(1, 3)] by simp
  ultimately show ?thesis using g by (simp add: good_def session_ok_def)
qed

lemma min_by_key_in: "min_by_key key xs = Some x \<Longrightarrow> x \<in> set xs"
proof (cases xs)
  case (Cons a ys)
  have "foldl (\<lambda>best y. if key_less (key y) (key best) then y else best) a ys \<in> insert a (set ys)" for a ys
  proof (induction ys arbitrary: a)
    case (Cons y ys)
    then show ?case using Cons.IH [of y] Cons.IH [of a] by auto
  qed simp
  then show "min_by_key key xs = Some x \<Longrightarrow> x \<in> set xs" using Cons by fastforce
qed simp

lemma next_index_unsent:
  assumes "next_index m = Some i"
  shows "i < length (sm_pending m)" "\<not> p_sent (sm_pending m ! i)"
    "is_control (sm_pending m ! i) \<or> in_flight_count m < cf_max_in_flight_transactions (sm_config m)"
  using min_by_key_in [OF assms [unfolded next_index_def]] by (auto simp: Let_def is_control_def)

lemma good_send:
  assumes g: "good S m0 h (m, es)" and st: "sm_state m = Ready" and i: "next_index m = Some i"
    and m': "sequenced i m = Some m'"
  shows "wp (send_pending i) (\<lambda>_. good S m0 h) (m', es)"
proof -
  note idx = next_index_unsent [OF i]
  let ?p = "sm_pending m ! i"
  let ?xs = "take i (sm_pending m)" and ?ys = "drop (Suc i) (sm_pending m)"
  have pend: "sm_pending m = ?xs @ ?p # ?ys" using idx(1) by (rule id_take_nth_drop)
  have upd: "(sm_pending m)[i := x] = ?xs @ x # ?ys" for x using idx(1) by (rule upd_conv_take_nth_drop)
  define q where "q = (sm_pending m' ! i)\<lparr>p_sent := True, p_may_have_executed := True\<rparr>"
  have ok: "numbered (sm_next_outbound m) ?p"
    using g idx(1) by (simp add: good_def session_ok_def sequences_ok_def)
  have s: "sends m ?xs ?p ?ys q (sm_next_outbound m') \<and>
      m' = m\<lparr>sm_next_outbound := sm_next_outbound m', sm_pending := ?xs @ (sm_pending m' ! i) # ?ys\<rparr>"
  proof (cases "p_sequence ?p = 0")
    case True
    then obtain n where n: "sm_next_outbound m = Some n" and m'_eq: "m' = update_pending i (\<lambda>p. p\<lparr>p_sequence := max n 1,
        p_message := (p_message p)\<lparr>m_header := (m_header (p_message p))\<lparr>mh_sequence := max n 1\<rparr>\<rparr>\<rparr>)
        (m\<lparr>sm_next_outbound := if max n 1 = U64_MAX then None else Some (max n 1 + 1)\<rparr>)"
      using m' by (auto simp: sequenced_def allocate_sequence_def Let_def split: option.splits)
    then show ?thesis using True idx pend
      by (simp add: sends_def q_def update_pending_def upd p_transaction_id_def is_control_def nth_append)
  next
    case False
    then have "m' = m" using m' by (simp add: sequenced_def)
    then show ?thesis using False idx pend ok
      by (simp add: sends_def q_def p_transaction_id_def numbered_def is_control_def)
  qed
  let ?replay = "if p_request_id q \<in> set (sm_replay m) then sm_replay m else sm_replay m @ [p_request_id q]"
  let ?final = "m\<lparr>sm_next_outbound := sm_next_outbound m', sm_pending := ?xs @ q # ?ys, sm_replay := ?replay,
    sm_write_busy := True\<rparr>"
  have idq: "p_request_id q = p_request_id ?p" using s by (simp add: sends_def)
  have "good S m0 h (?final, es @ [Eff_SendMessage (sm_generation m) (p_request_id ?p) (p_message q)])"
    using g idq
    by (intro good_sends [OF g st s [THEN conjunct1]]) (auto simp: good_def session_ok_def sequences_ok_def)
  moreover have len: "length ?xs = i" using idx(1) by simp
  obtain r where "sm_pending m' = ?xs @ r # ?ys" using arg_cong [OF s [THEN conjunct2], of sm_pending] by auto
  then have "(sm_pending m')[i := x] = ?xs @ x # ?ys" "(?xs @ x # ?ys) ! i = x" for x
    using list_update_length [of ?xs r ?ys x] nth_append_length [of ?xs x ?ys] unfolding len by simp_all
  moreover have "m'\<lparr>sm_pending := ps, sm_replay := r, sm_write_busy := b\<rparr> =
      m\<lparr>sm_next_outbound := sm_next_outbound m', sm_pending := ps, sm_replay := r, sm_write_busy := b\<rparr>" for ps r b
    by (subst s [THEN conjunct2]) simp
  moreover have "sm_generation m' = sm_generation m" "sm_replay m' = sm_replay m"
    by (subst s [THEN conjunct2], simp)+
  ultimately show ?thesis using idq
    by (cases "p_request_id ?p \<in> set (sm_replay m)")
      (simp_all add: send_pending_def update_pending_def q_def [symmetric])
qed

text \<open>The invariant fits the contract, so every operation of the session keeps it.\<close>

interpretation session: session_contract "good S m0 h" for S m0 h
proof
  fix m m' :: machine and es ns :: "effect list" and e :: effect and r :: u64 and p :: pending and P and i and error
  show "good S m0 h (m, es) \<Longrightarrow> session_ok m" by (simp add: good_def)
  show "good S m0 h (m, es) \<Longrightarrow> neutral e \<Longrightarrow> good S m0 h (m, es @ [e])" by (rule good_neutral)
  show "good S m0 h (m, es) \<Longrightarrow> similar m m' \<Longrightarrow> sm_generation m \<le> sm_generation m' \<Longrightarrow> bounds_ok m' \<Longrightarrow> lifecycle_ok m' \<Longrightarrow> good S m0 h (m', es)"
    by (rule good_similar)
  show "good S m0 h (m\<lparr>sm_replay := filter P (sm_replay m)\<rparr>, es)" if "good S m0 h (m, es)"
    using that by (rule good_trim)
  show "good S m0 h (m\<lparr>sm_pending := fold unsend (sm_replay m) (sm_pending m)\<rparr>, es)" if "good S m0 h (m, es)"
    using that unsent_fold by (rule good_unsent)
  show "good S m0 h (m, es) \<Longrightarrow> sm_state m = Ready \<Longrightarrow> next_index m = Some i \<Longrightarrow> sequenced i m = Some m' \<Longrightarrow>
      wp (send_pending i) (\<lambda>_. good S m0 h) (m', es)" by (rule good_send)
qed (blast intro: good_resolve good_clear)+

section \<open>Admission\<close>

lemma unique_add:
  assumes "\<forall>x. count (S + {#r#}) x \<le> 1"
  shows "\<forall>x. count S x \<le> 1" "r \<notin># S"
proof -
  show "\<forall>x. count S x \<le> 1"
  proof
    fix x
    have "count S x \<le> count (S + {#r#}) x" by simp
    then show "count S x \<le> 1" using assms [rule_format, of x] by linarith
  qed
  show "r \<notin># S" using assms [rule_format, of r] by (simp add: not_in_iff)
qed

text \<open>One more request submitted: nothing was sent under its identifier yet.\<close>

lemma honest_submit:
  assumes honest: "honest S m es" and neu: "\<And>r e. Eff_Failed r e \<in> set ns \<Longrightarrow> r = s" "sent_ids ns = {}"
      "\<And>r e. Eff_Completed r e \<notin> set ns"
    and pend: "sm_pending m' = sm_pending m @ ps" "\<And>p. p \<in> set ps \<Longrightarrow> p_request_id p = s \<and> \<not> p_may_have_executed p"
  shows "honest (S + {#s#}) m' (es @ ns)"
  unfolding honest_def
proof (rule impI)
  assume uniq: "\<forall>x. count (S + {#s#}) x \<le> 1"
  note h = mp [OF honest [unfolded honest_def] unique_add(1) [OF uniq]]
  have fresh: "s \<notin> sent_ids es" using h unique_add(2) [OF uniq] by blast
  have sent: "sent_ids (es @ ns) = sent_ids es" using neu(2) by simp
  show "(\<forall>p \<in> set (sm_pending m'). p_may_have_executed p \<longleftrightarrow> p_request_id p \<in> sent_ids (es @ ns)) \<and>
     (\<forall>r error. Eff_Failed r error \<in> set (es @ ns) \<longrightarrow> error \<noteq> Ses_OutcomeUnknown \<longrightarrow> r \<notin> sent_ids (es @ ns)) \<and>
     (\<forall>r reply. Eff_Completed r (Some reply) \<in> set (es @ ns) \<longrightarrow> r \<in> sent_ids (es @ ns)) \<and>
     sent_ids (es @ ns) \<subseteq> set_mset (S + {#s#})"
    unfolding sent pend(1) using h fresh neu(1, 3) pend(2) by (auto dest: neu(1))
qed

lemma good_reject:
  assumes g: "good S m0 h (m, es)"
  shows "good (S + {#r#}) m0 h (m, es @ [Eff_Failed r error])"
proof -
  have "honest (S + {#r#}) m ((h @ es) @ [Eff_Failed r error])"
    using g by (intro honest_submit [where ps = "[]"]) (auto simp: good_def sent_ids_def)
  then show ?thesis using g by (simp add: good_def ledger_ok_def)
qed

lemma find_transaction_id_fresh: "find_transaction_id used n = (Some t, n') \<Longrightarrow> used t = None"
  by (induction used n rule: find_transaction_id.induct) (auto simp: Let_def split: if_splits)

definition admitted :: "machine \<Rightarrow> pending \<Rightarrow> machine" where
  "admitted m p = (let m = m\<lparr>sm_pending := sm_pending m @ [p],
      sm_by_transaction := (sm_by_transaction m)(p_transaction_id p \<mapsto> p_request_id p)\<rparr> in
     if is_control p then m\<lparr>sm_control_messages := sm_control_messages m + 1, sm_control_bytes := sm_control_bytes m + p_bytes p\<rparr>
     else m\<lparr>sm_retained_bytes := sm_retained_bytes m + p_bytes p\<rparr>)"

lemma admitted_fields:
  "sm_pending (admitted m p) = sm_pending m @ [p]"
  "sm_by_transaction (admitted m p) = (sm_by_transaction m)(p_transaction_id p \<mapsto> p_request_id p)"
  "sm_replay (admitted m p) = sm_replay m" "sm_next_outbound (admitted m p) = sm_next_outbound m"
  "sm_config (admitted m p) = sm_config m" "sm_state (admitted m p) = sm_state m"
  "sm_controls (admitted m p) = sm_controls m" "sm_incoming_count (admitted m p) = sm_incoming_count m"
  "sm_reconnect_attempts (admitted m p) = sm_reconnect_attempts m" "sm_generation (admitted m p) = sm_generation m"
  "sm_connect_pending (admitted m p) = sm_connect_pending m" "sm_terminal_error (admitted m p) = sm_terminal_error m"
  "sm_control_messages (admitted m p) = sm_control_messages m + (if is_control p then 1 else 0)"
  "sm_control_bytes (admitted m p) = sm_control_bytes m + (if is_control p then p_bytes p else 0)"
  "sm_retained_bytes (admitted m p) = sm_retained_bytes m + (if is_control p then 0 else p_bytes p)"
  by (simp_all add: admitted_def Let_def)

text \<open>What admission has checked of a request.\<close>

definition admissible :: "machine \<Rightarrow> pending \<Rightarrow> bool" where
  "admissible m p \<longleftrightarrow>
     sm_terminal_error m = None \<and> sm_state m \<noteq> Stopped \<and> p_request_id p \<notin> set (request_ids m) \<and>
     sm_by_transaction m (p_transaction_id p) = None \<and>
     p_sequence p = 0 \<and> \<not> p_sent p \<and> \<not> p_may_have_executed p \<and>
     (if is_control p
      then sm_control_messages m < MAX_CONTROL_MESSAGES \<and>
           unat (p_bytes p) \<le> unat MAX_CONTROL_BYTES - unat (sm_control_bytes m)
      else length (sm_pending m) - sm_control_messages m < cf_max_queued_messages (sm_config m) \<and>
           unat (p_bytes p) \<le> unat (cf_max_retained_bytes (sm_config m)) - unat (sm_retained_bytes m))"

lemma unat_add_within:
  assumes "a \<le> (c :: u64)" "unat b \<le> unat c - unat a"
  shows "unat (a + b) = unat a + unat b" "a + b \<le> c"
proof -
  have "unat a + unat b \<le> unat c" using assms by (simp add: word_le_nat_alt)
  moreover have "unat c < 2 ^ LENGTH(64)" by (rule unsigned_less)
  ultimately have "unat a + unat b < 2 ^ LENGTH(64)" by linarith
  then show "unat (a + b) = unat a + unat b" by (rule unat_add_lem [THEN iffD1])
  then show "a + b \<le> c" using \<open>unat a + unat b \<le> unat c\<close> by (simp add: word_le_nat_alt)
qed

lemma session_ok_admitted:
  assumes ok: "session_ok m" and a: "admissible m p"
  shows "session_ok (admitted m p)"
proof -
  have bounds: "sm_control_bytes m \<le> MAX_CONTROL_BYTES" "sm_retained_bytes m \<le> cf_max_retained_bytes (sm_config m)"
    using ok by (simp_all add: session_ok_def bounds_ok_def)
  have acc: "accounts_ok m" and req: "requests_ok m" using ok by (simp_all add: session_ok_def)
  have split: "length (sm_pending m) - sm_control_messages m = length (filter (\<lambda>p. \<not> is_control p) (sm_pending m))"
    using acc sum_length_filter_compl [of is_control "sm_pending m"] by (simp add: accounts_ok_def)
  have new: "p_transaction_id p \<notin> p_transaction_id ` set (sm_pending m)"
    using a req by (force simp: admissible_def requests_ok_def map_of_eq_None_iff o_def)
  have "requests_ok (admitted m p)"
    using req a new unfolding requests_ok_def admissible_def admitted_fields
    by (auto simp: map_add_upd_left dom_map_of_conv_image_fst image_image)
  moreover have "accounts_ok (admitted m p)"
    using acc a unat_add_within(1) [OF bounds(1)] unat_add_within(1) [OF bounds(2)]
    by (simp add: accounts_ok_def admissible_def admitted_fields split: if_splits)
  moreover have "bounds_ok (admitted m p)"
    using ok a unat_add_within(2) [OF bounds(1)] unat_add_within(2) [OF bounds(2)] split
    by (auto simp: session_ok_def bounds_ok_def admissible_def admitted_fields in_flight_count_def split: if_splits)
  moreover have "sequences_ok (admitted m p)"
    using ok a by (auto simp: session_ok_def sequences_ok_def admissible_def admitted_fields numbered_def)
  moreover have "lifecycle_ok (admitted m p)"
    using ok a by (auto simp: session_ok_def lifecycle_ok_def admissible_def admitted_fields)
  ultimately show ?thesis by (simp add: session_ok_def)
qed

lemma good_admitted:
  assumes g: "good S m0 h (m, es)" and a: "admissible m p"
  shows "good (S + {#p_request_id p#}) m0 h (admitted m p, es @ [Eff_Admitted (p_request_id p) t])"
proof (rule good_neutral)
  have "session_ok (admitted m p)" using g a by (simp add: good_def session_ok_admitted)
  moreover have "ledger_ok (S + {#p_request_id p#}) (admitted m p) (h @ es)"
    using g by (simp add: good_def ledger_ok_def admitted_fields)
  moreover have "honest (S + {#p_request_id p#}) (admitted m p) ((h @ es) @ [])"
  proof (rule honest_submit)
    show "honest S m (h @ es)" using g by (simp add: good_def)
    show "sm_pending (admitted m p) = sm_pending m @ [p]" by (rule admitted_fields)
    show "x \<in> set [p] \<Longrightarrow> p_request_id x = p_request_id p \<and> \<not> p_may_have_executed x" for x
      using a by (simp add: admissible_def)
  qed simp_all
  ultimately show "good (S + {#p_request_id p#}) m0 h (admitted m p, es)"
    using g by (simp add: good_def admitted_fields)
qed simp

definition new_pending :: "machine \<Rightarrow> u64 \<Rightarrow> message \<Rightarrow> u64 \<Rightarrow> bool \<Rightarrow> bool \<Rightarrow> u64 \<Rightarrow> pending" where
  "new_pending m r msg n one_way as_control t =
     \<lparr>p_request_id = r, p_message = msg\<lparr>m_header := (m_header msg)\<lparr>mh_transaction_id := t\<rparr>\<rparr>,
      p_bytes = n, p_sequence = 0, p_sent = False, p_may_have_executed = False, p_one_way = one_way,
      p_control = (if as_control then Some (sm_control_generation m) else None)\<rparr>"

lemma new_pending_simps [simp]:
  "p_request_id (new_pending m r msg n ow c t) = r" "p_transaction_id (new_pending m r msg n ow c t) = t"
  "p_bytes (new_pending m r msg n ow c t) = n" "is_control (new_pending m r msg n ow c t) = c"
  "p_sequence (new_pending m r msg n ow c t) = 0" "\<not> p_sent (new_pending m r msg n ow c t)"
  "\<not> p_may_have_executed (new_pending m r msg n ow c t)"
  by (simp_all add: new_pending_def p_transaction_id_def is_control_def)

lemma wp_enqueue:
  assumes g: "good S m0 h (m, es)" and a: "admissible m (new_pending m r msg n ow c t)"
  shows "wp (enqueue r msg n ow c t) (\<lambda>_. good (S + {#r#}) m0 h) (m, es)"
proof -
  have "good (S + {#r#}) m0 h (admitted m (new_pending m r msg n ow c t), es @ [Eff_Admitted r t])"
    using good_admitted [OF g a, of t] by simp
  then show ?thesis unfolding admitted_def Let_def new_pending_simps enqueue_def
    by (cases c) (simp_all add: new_pending_def)
qed

lemma wp_assign_transaction_id:
  assumes g: "good S m0 h (m, es)"
    and fail: "\<And>m' es' e. good S m0 h (m', es') \<Longrightarrow> Q (Inl e) (m', es')"
    and found: "\<And>t n. sm_by_transaction m t = None \<Longrightarrow> good S m0 h (m\<lparr>sm_next_transaction_id := n\<rparr>, es) \<Longrightarrow>
      Q (Inr t) (m\<lparr>sm_next_transaction_id := n\<rparr>, es)"
  shows "wp (assign_transaction_id msg) Q (m, es)"
proof -
  obtain x k where x: "find_transaction_id (sm_by_transaction m) (sm_next_transaction_id m) = (x, k)" by fastforce
  have moved: "good S m0 h (m\<lparr>sm_next_transaction_id := n\<rparr>, es)" for n
    using g by (rule session.inv_frame) (simp_all add: similar_def)
  have unchanged: "m\<lparr>sm_next_transaction_id := sm_next_transaction_id m\<rparr> = m" by simp
  show ?thesis
  proof (cases x)
    case None
    then show ?thesis using x g fail moved found [of "mh_transaction_id (m_header msg)" "sm_next_transaction_id m"]
      by (auto simp: assign_transaction_id_def take_transaction_id_def unchanged intro!: session.wp_fail_terminal [OF moved])
  next
    case (Some t)
    then show ?thesis
      using x g fail moved found [of t k] find_transaction_id_fresh [of _ _ t k]
        found [of "mh_transaction_id (m_header msg)" "sm_next_transaction_id m"]
      by (auto simp: assign_transaction_id_def take_transaction_id_def unchanged)
  qed
qed

lemma admit_good:
  assumes g: "good S m0 h (m, es)"
  shows "wp (admit crc r msg ow c) (\<lambda>_. good (S + {#r#}) m0 h) (m, es)"
proof -
  have reject: "good (S + {#r#}) m0 h (m', es' @ [Eff_Failed r e])" if "good S m0 h (m', es')" for m' es' e
    using that by (rule good_reject)
  have go: "wp (assign_transaction_id msg) (\<lambda>taken. wp (case taken of Inl error \<Rightarrow> push (Eff_Failed r error)
      | Inr t \<Rightarrow> enqueue r msg n ow c t) (\<lambda>_. good (S + {#r#}) m0 h)) (m, es)"
    if "\<And>t. sm_by_transaction m t = None \<Longrightarrow> admissible m (new_pending m r msg n ow c t)" for n
  proof (rule wp_assign_transaction_id [OF g])
    fix t k
    assume "sm_by_transaction m t = None" and moved: "good S m0 h (m\<lparr>sm_next_transaction_id := k\<rparr>, es)"
    then have "admissible (m\<lparr>sm_next_transaction_id := k\<rparr>) (new_pending (m\<lparr>sm_next_transaction_id := k\<rparr>) r msg n ow c t)"
      using that [of t] by (simp add: admissible_def split: if_splits)
    from wp_enqueue [OF moved this]
    show "wp (case Inr t of Inl error \<Rightarrow> push (Eff_Failed r error) | Inr t \<Rightarrow> enqueue r msg n ow c t)
       (\<lambda>_. good (S + {#r#}) m0 h) (m\<lparr>sm_next_transaction_id := k\<rparr>, es)" by simp
  qed (use reject in simp)
  have "admissible m (new_pending m r msg n ow c t)"
    if "sm_terminal_error m = None" "sm_state m \<noteq> Stopped" "sm_by_transaction m t = None" "find_pending m r = None"
      "\<not> (if c then sm_control_messages m \<ge> MAX_CONTROL_MESSAGES \<or>
              unat n > unat MAX_CONTROL_BYTES - unat (sm_control_bytes m)
         else length (sm_pending m) - sm_control_messages m \<ge> cf_max_queued_messages (sm_config m) \<or>
              unat n > unat (cf_max_retained_bytes (sm_config m)) - unat (sm_retained_bytes m))" for n t
    using that find_pending_None [of m r] by (auto simp: admissible_def split: if_splits)
  then show ?thesis using reject [OF g] go
    by (simp add: admit_def split: option.splits sum.splits del: if_split_asm)
qed

text \<open>
  Whatever the input, the session keeps its invariant; the requests the input submits join the
  ledger.
\<close>

lemma react_good:
  assumes "good S m0 h (m, es)"
  shows "wp (react crc i) (\<lambda>_. good (S + mset (submits i)) m0 h) (m, es)"
proof -
  have reject: "good (S + {#r#}) m0 h (m, es @ [Eff_Failed r e])" for r e using assms by (rule good_reject)
  show ?thesis
  proof (cases "submits i")
    case Nil
    then show ?thesis using session.react_keeps [OF _ assms] by simp
  next
    case (Cons r rs)
    then show ?thesis using assms reject admit_good [OF assms]
      by (cases i) (auto simp: admit_control_def)
  qed
qed

end
