(* ===== verification/Msgr_Session_Trace.thy ===== *)
theory Msgr_Session_Trace
  imports Msgr_Session_Inv
begin

text \<open>
  The runs of a session: what holds in every state that \<open>Machine::step\<close> can reach from
  \<open>Machine::new\<close>, whatever the inputs, and how a session that is ready makes progress.
\<close>

section \<open>Reachable sessions\<close>

text \<open>
  \<open>session_trace crc config ins h m\<close>: fed the inputs \<open>ins\<close>, a new session has emitted the effects \<open>h\<close>
  and is in state \<open>m\<close>.
\<close>

inductive session_trace :: "(u32 \<Rightarrow> bytes \<Rightarrow> u32) \<Rightarrow> session_config \<Rightarrow> session_input list \<Rightarrow> effect list \<Rightarrow> machine \<Rightarrow> bool"
  for crc config where
  trace_new: "machine_new config = Inr m \<Longrightarrow> session_trace crc config [] [] m"
| trace_step: "session_trace crc config ins h m \<Longrightarrow> session_step crc m i = (m', es) \<Longrightarrow>
    session_trace crc config (ins @ [i]) (h @ es) m'"

fun session_run :: "(u32 \<Rightarrow> bytes \<Rightarrow> u32) \<Rightarrow> machine \<Rightarrow> session_input list \<Rightarrow> machine \<times> effect list" where
  "session_run crc m [] = (m, [])"
| "session_run crc m (i # is) =
     (let (m1, es1) = session_step crc m i; (m2, es2) = session_run crc m1 is in (m2, es1 @ es2))"

lemma trace_run:
  "session_trace crc config ins h m \<Longrightarrow> session_run crc m is = (m', es) \<Longrightarrow>
   session_trace crc config (ins @ is) (h @ es) m'"
proof (induction "is" arbitrary: ins h m m' es)
  case (Cons i "is")
  obtain m1 es1 where s: "session_step crc m i = (m1, es1)" by fastforce
  obtain m2 es2 where r: "session_run crc m1 is = (m2, es2)" by fastforce
  have "session_trace crc config ((ins @ [i]) @ is) ((h @ es1) @ es2) m2"
    by (rule Cons.IH [OF trace_step [OF Cons.prems(1) s] r])
  then show ?case using Cons.prems(2) s r by simp
qed simp

lemma session_step_good:
  assumes "good S m0 h (m, [])" "session_step crc m i = (m', es)"
  shows "good (S + mset (submits i)) m0 (h @ es) (m', [])"
proof -
  obtain u where "run_state (react crc i) (m, []) = (u, (m', es))"
    using assms(2) by (cases "run_state (react crc i) (m, [])") (simp add: session_step_def)
  from wp_run [OF react_good [OF assms(1)] this] show ?thesis by (simp add: good_def)
qed

lemma machine_new_good:
  assumes "machine_new config = Inr m"
  shows "good {#} m [] (m, [])"
  using assms by (auto simp: machine_new_def good_def session_ok_def requests_ok_def accounts_ok_def bounds_ok_def
      sequences_ok_def lifecycle_ok_def in_flight_count_def ledger_ok_def honest_def MAX_CONTROL_MESSAGES_def
      split: if_splits)

abbreviation submitted :: "session_input list \<Rightarrow> u64 list" where
  "submitted ins \<equiv> concat (map submits ins)"

lemma trace_good:
  "session_trace crc config ins h m \<Longrightarrow> \<exists>m0. machine_new config = Inr m0 \<and> good (mset (submitted ins)) m0 h (m, [])"
proof (induction rule: session_trace.induct)
  case (trace_new m)
  then show ?case using machine_new_good by auto
next
  case (trace_step ins h m i m' es)
  then show ?case using session_step_good [OF _ trace_step.hyps(2)] by fastforce
qed

lemma machine_new_config: "machine_new config = Inr m \<Longrightarrow> sm_config m = config"
  by (auto simp: machine_new_def split: if_splits)

lemma config_core_eqD:
  assumes "config_core a = config_core b"
  shows "cf_max_queued_messages a = cf_max_queued_messages b" "cf_max_retained_bytes a = cf_max_retained_bytes b"
    "cf_max_in_flight_transactions a = cf_max_in_flight_transactions b"
    "cf_max_reconnect_attempts a = cf_max_reconnect_attempts b"
  using arg_cong [OF assms, of cf_max_queued_messages] arg_cong [OF assms, of cf_max_retained_bytes]
    arg_cong [OF assms, of cf_max_in_flight_transactions] arg_cong [OF assms, of cf_max_reconnect_attempts]
  by (simp_all add: config_core_def)

lemma trace_facts:
  assumes "session_trace crc config ins h m"
  shows trace_ok: "session_ok m"
    and trace_ledger: "ledger_ok (mset (submitted ins)) m h"
    and trace_honest: "honest (mset (submitted ins)) m h"
    and trace_config: "config_core (sm_config m) = config_core config"
  using trace_good [OF assms] machine_new_config by (auto simp: good_def)

section \<open>A sample run\<close>

text \<open>A session that starts on an established transport, admits one request and sends it.\<close>

definition sample_client_ident :: client_ident where
  "sample_client_ident = \<lparr>ci_addresses = [], ci_target_address = \<lparr>address_type = 0, addr_nonce = 0, family = 0,
       socket_data = [], legacy_encoding = False\<rparr>, ci_global_id = 7, ci_global_sequence = 0,
     ci_supported_features = 0, ci_required_features = 0, ci_flags = 0, ci_cookie = 3\<rparr>"

definition sample_session_config :: session_config where
  "sample_session_config = \<lparr>cf_limits = sample_frame_limits, cf_max_queued_messages = 4,
     cf_max_retained_bytes = 1000, cf_max_in_flight_transactions = 2, cf_max_reconnect_attempts = 1,
     cf_max_handshake_transitions = 4, cf_reconnect_policy = ReplayPending, cf_client_ident = sample_client_ident,
     cf_client_cookie = 3, cf_server_cookie = 0, cf_global_sequence = 0, cf_connect_sequence = 0,
     cf_replacement_cookies = []\<rparr>"

definition no_crc :: "u32 \<Rightarrow> bytes \<Rightarrow> u32" where
  "no_crc seed bs = seed"

definition sample_new :: machine where
  "sample_new = projr (machine_new sample_session_config)"

definition sample_ready :: machine where
  "sample_ready = fst (session_run no_crc sample_new [In_Start True, In_Admit 5 sample_message False])"

lemma sample_new: "machine_new sample_session_config = Inr sample_new"
  by (simp add: sample_new_def machine_new_def sample_session_config_def sample_client_ident_def sample_frame_limits_def)

lemma sample_admission:
  assumes "cf_limits (sm_config m) = sample_frame_limits"
  shows "admission_bytes no_crc m (sample_message\<lparr>m_header := (m_header sample_message)\<lparr>mh_transaction_id := t\<rparr>\<rparr>) = Inr 43"
proof -
  have "no_crc = (\<lambda>seed _. seed)" by (simp add: no_crc_def fun_eq_iff)
  then show ?thesis using assms
    by (simp add: admission_bytes_def is_ok_def prepared_new_def validate_frame_size_def MESSAGE_HEADER_SIZE_def
      message_encode_def sample_message_def sample_frame_limits_def checked_length_def Let_def
      validate_segments_def MESSAGE_ALIGNMENTS_def crc_encode_def normalized_segments_def MAX_SEGMENTS_def
      trim_empty_four descriptors_and_crc_size_def crc_size_from_descriptors_def PREAMBLE_SIZE_def
      validate_descriptors_def secure_size_def padded_length_def INLINE_SIZE_def SECURE_PREAMBLE_SIZE_def TAG_SIZE_def BLOCK_SIZE_def
      valid_alignment_def is_power_of_two_def upt_rec DEFAULT_ALIGNMENT_def PAGE_ALIGNMENT_def)
qed

lemmas sample_session_defs = sample_new_def machine_new_def sample_session_config_def sample_client_ident_def

definition sample_started :: machine where
  "sample_started = sample_new\<lparr>sm_connected_once := True, sm_generation := 1, sm_state := Ready\<rparr>"

definition sample_admitted :: machine where
  "sample_admitted = admitted sample_started (new_pending sample_started 5 sample_message 43 False False 2)"

lemmas sample_states = sample_admitted_def sample_started_def sample_session_defs sample_frame_limits_def
  admitted_def new_pending_def p_transaction_id_def is_control_def

lemma sample_start:
  "session_step no_crc sample_new (In_Start True) = (sample_started, [Eff_Event (Ev_StateChanged Ready)])"
  by (simp add: session_step_def start_def start_transport_def set_conn_state_def checked_succ_def sample_states)

lemma sample_started_fields:
  "cf_limits (sm_config sample_started) = sample_frame_limits" "sm_terminal_error sample_started = None"
  "sm_state sample_started = Ready" "sm_pending sample_started = []" "sm_control_messages sample_started = 0"
  "cf_max_queued_messages (sm_config sample_started) = 4" "cf_max_retained_bytes (sm_config sample_started) = 1000"
  "sm_retained_bytes sample_started = 0" "sm_by_transaction sample_started = Map.empty"
  by (simp_all add: sample_states)

lemma sample_admit:
  "session_step no_crc sample_started (In_Admit 5 sample_message False) = (sample_admitted, [Eff_Admitted 5 2])"
proof -
  have same: "sample_message\<lparr>m_header := (m_header sample_message)\<lparr>mh_transaction_id := 2\<rparr>\<rparr> = sample_message"
    by (simp add: sample_message_def)
  have "mh_transaction_id (m_header sample_message) = 2" by (simp add: sample_message_def)
  then show ?thesis using sample_admission [OF sample_started_fields(1), of 2, unfolded same]
    by (simp add: session_step_def admit_def assign_transaction_id_def enqueue_def find_pending_def
        sample_started_fields sample_admitted_def admitted_def new_pending_def p_transaction_id_def is_control_def)
qed

lemma sample_trace:
  "session_trace no_crc sample_session_config [In_Start True, In_Admit 5 sample_message False]
     [Eff_Event (Ev_StateChanged Ready), Eff_Admitted 5 2] sample_admitted"
  using trace_run [OF trace_new [OF sample_new], of no_crc "[In_Start True, In_Admit 5 sample_message False]"]
  by (simp add: sample_start sample_admit)

section \<open>What holds in every run\<close>

text \<open>C12: In every reachable state the byte and message accounts are exact sums over the pending
  requests and stay within the configured limits, as do the in-flight transactions, the queued
  controls, the undelivered messages and the reconnect attempts.\<close>

theorem session_accounts:
  assumes "session_trace crc config ins h m"
  shows "unat (sm_retained_bytes m) = total_bytes (filter (\<lambda>p. \<not> is_control p) (sm_pending m)) \<and>
    unat (sm_control_bytes m) = total_bytes (filter is_control (sm_pending m)) \<and>
    sm_control_messages m = length (filter is_control (sm_pending m)) \<and>
    sm_retained_bytes m \<le> cf_max_retained_bytes config \<and> sm_control_bytes m \<le> MAX_CONTROL_BYTES \<and>
    sm_control_messages m \<le> MAX_CONTROL_MESSAGES \<and>
    length (filter (\<lambda>p. \<not> is_control p) (sm_pending m)) \<le> cf_max_queued_messages config \<and>
    in_flight_count m \<le> cf_max_in_flight_transactions config \<and>
    length (sm_controls m) \<le> cf_max_queued_messages config \<and>
    sm_incoming_count m \<le> cf_max_queued_messages config \<and>
    sm_reconnect_attempts m \<le> cf_max_reconnect_attempts config"
  using trace_ok [OF assms] config_core_eqD [OF trace_config [OF assms]]
  by (simp add: session_ok_def accounts_ok_def bounds_ok_def)

theorem session_accounts_witness:
  "unat (sm_retained_bytes sample_admitted) = total_bytes (filter (\<lambda>p. \<not> is_control p) (sm_pending sample_admitted))"
  using session_accounts [OF sample_trace] by (rule conjunct1)

text \<open>C9: Every submitted request is resolved exactly once or is still pending: the requests completed
  or failed by the emitted effects, together with the pending ones, are the submitted requests,
  counted with multiplicity.\<close>

theorem session_resolves_once:
  assumes "session_trace crc config ins h m"
  shows "mset (resolved h) + mset (request_ids m) = mset (submitted ins)"
  using trace_ledger [OF assms] by (simp add: ledger_ok_def)

theorem session_resolves_once_witness:
  "mset (resolved [Eff_Event (Ev_StateChanged Ready), Eff_Admitted 5 2]) + mset (request_ids sample_admitted) = {#5#}"
  using session_resolves_once [OF sample_trace] by simp

lemma distinct_count: "distinct xs \<Longrightarrow> \<forall>r. count (mset xs) r \<le> 1"
  by (simp add: distinct_count_atmost_1)

text \<open>C10: A request that may have been executed is never reported as if it had not been: when the
  submitted identifiers are distinct, a request that fails with any error but \<open>OutcomeUnknown\<close> was
  never handed to a transport.\<close>

theorem session_failures_honest:
  assumes "session_trace crc config ins h m" "distinct (submitted ins)"
    "Eff_Failed r error \<in> set h" "error \<noteq> Ses_OutcomeUnknown"
  shows "\<forall>g msg. Eff_SendMessage g r msg \<notin> set h"
  using mp [OF trace_honest [OF assms(1), unfolded honest_def] distinct_count [OF assms(2)]] assms(3, 4)
  by (fastforce simp: sent_ids_def)

lemma sample_cancel:
  "session_run no_crc sample_admitted [In_Cancel 5] =
     (drop_pending 5 sample_admitted, [Eff_Failed 5 Ses_Cancelled])"
  by (simp add: session_step_def cancel_def remove_pending_def find_pending_def sample_admitted_def admitted_def
      sample_started_fields new_pending_def is_control_def)

theorem session_failures_honest_witness:
  "\<forall>g msg. Eff_SendMessage g 5 msg \<notin>
     set [Eff_Event (Ev_StateChanged Ready), Eff_Admitted 5 2, Eff_Failed 5 Ses_Cancelled]"
  using session_failures_honest [OF trace_run [OF sample_trace sample_cancel], of 5 Ses_Cancelled] by simp

text \<open>C11: A request completed by a reply was sent before, when the submitted identifiers are distinct.\<close>

theorem session_replies_to_sent:
  assumes "session_trace crc config ins h m" "distinct (submitted ins)" "Eff_Completed r (Some reply) \<in> set h"
  shows "\<exists>g msg. Eff_SendMessage g r msg \<in> set h"
  using mp [OF trace_honest [OF assms(1), unfolded honest_def] distinct_count [OF assms(2)]] assms(3)
  by (fastforce simp: sent_ids_def)

definition sample_reply :: message where
  "sample_reply = sample_message\<lparr>m_header := (m_header sample_message)\<lparr>mh_ack_sequence := 1\<rparr>\<rparr>"

lemma sample_replied:
  "\<exists>m' msg. session_run no_crc sample_admitted [In_Dispatch, In_Message 1 sample_reply] =
     (m', [Eff_SendMessage 1 5 msg, Eff_Completed 5 (Some sample_reply)])"
  by (simp add: session_step_def dispatch_def next_index_def upt_rec in_flight_count_def assign_sequence_def
      allocate_sequence_def send_pending_def update_pending_def message_received_def accept_acknowledgment_def
      trim_replay_def queue_control_def find_pending_def remove_pending_def sample_reply_def sample_message_def
      sample_states Let_def word_le_nat_alt)

theorem session_replies_to_sent_witness:
  "\<exists>msg g msg'. Eff_SendMessage g 5 msg' \<in> set [Eff_Event (Ev_StateChanged Ready), Eff_Admitted 5 2,
     Eff_SendMessage 1 5 msg, Eff_Completed 5 (Some sample_reply)]"
proof -
  obtain m' msg where r: "session_run no_crc sample_admitted [In_Dispatch, In_Message 1 sample_reply] =
     (m', [Eff_SendMessage 1 5 msg, Eff_Completed 5 (Some sample_reply)])" using sample_replied by blast
  from session_replies_to_sent [OF trace_run [OF sample_trace r], of 5 sample_reply] show ?thesis by auto
qed

text \<open>C14: In every reachable state the pending requests have distinct identifiers, distinct transaction
  identifiers, and distinct sequence numbers once they have one, and the reply index is exactly the
  inverse: it leads from a transaction identifier to a request if and only if a pending request has
  both.\<close>

theorem session_identifiers:
  assumes "session_trace crc config ins h m"
  shows "distinct (request_ids m) \<and> distinct (map p_transaction_id (sm_pending m)) \<and>
    distinct (filter (\<lambda>n. n \<noteq> 0) (map p_sequence (sm_pending m))) \<and>
    (\<forall>t r. sm_by_transaction m t = Some r \<longleftrightarrow>
       (\<exists>p \<in> set (sm_pending m). p_transaction_id p = t \<and> p_request_id p = r))"
proof -
  have req: "requests_ok m" and seq: "sequences_ok m" using trace_ok [OF assms] by (simp_all add: session_ok_def)
  have "distinct (map fst (map (\<lambda>p. (p_transaction_id p, p_request_id p)) (sm_pending m)))"
    using req by (simp add: requests_ok_def o_def)
  from map_of_eq_Some_iff [OF this] have "sm_by_transaction m t = Some r \<longleftrightarrow>
      (\<exists>p \<in> set (sm_pending m). p_transaction_id p = t \<and> p_request_id p = r)" for t r
    using req by (auto simp: requests_ok_def)
  then show ?thesis using req seq by (simp add: requests_ok_def sequences_ok_def)
qed

definition sample_two :: machine where
  "sample_two = admitted sample_admitted (new_pending sample_admitted 6
     (sample_message\<lparr>m_header := (m_header sample_message)\<lparr>mh_transaction_id := 3\<rparr>\<rparr>) 43 True False 3)"

lemma sample_admit_two:
  "session_run no_crc sample_admitted
     [In_Admit 6 (sample_message\<lparr>m_header := (m_header sample_message)\<lparr>mh_transaction_id := 3\<rparr>\<rparr>) True] =
   (sample_two, [Eff_Admitted 6 3])"
proof -
  have "cf_limits (sm_config sample_admitted) = sample_frame_limits" "sm_terminal_error sample_admitted = None"
    "sm_state sample_admitted = Ready" "sm_control_messages sample_admitted = 0"
    "cf_max_queued_messages (sm_config sample_admitted) = 4" "cf_max_retained_bytes (sm_config sample_admitted) = 1000"
    "sm_retained_bytes sample_admitted = 43" "sm_by_transaction sample_admitted = [2 \<mapsto> 5]"
    "map p_request_id (sm_pending sample_admitted) = [5]"
    by (simp_all add: sample_states)
  moreover have "find_pending sample_admitted 6 = None" by (simp add: find_pending_def sample_states)
  ultimately show ?thesis using sample_admission [of sample_admitted 3]
    by (simp add: session_step_def admit_def assign_transaction_id_def enqueue_def
        sample_two_def admitted_def new_pending_def p_transaction_id_def is_control_def
        arg_cong [OF \<open>map p_request_id (sm_pending sample_admitted) = [5]\<close>, of length, simplified])
qed

theorem session_identifiers_witness:
  "sm_by_transaction sample_two 3 = Some 6 \<and> distinct (request_ids sample_two)"
proof -
  have "\<exists>p \<in> set (sm_pending sample_two). p_transaction_id p = 3 \<and> p_request_id p = 6"
    by (simp add: sample_two_def sample_states)
  then show ?thesis using session_identifiers [OF trace_run [OF sample_trace sample_admit_two]] by blast
qed

text \<open>C18: The snapshot of a reachable session accounts for every pending request exactly once: queued,
  in flight or control.\<close>

theorem session_snapshot_partition:
  assumes "session_trace crc config ins h m"
  shows "sn_queued (machine_snapshot m) + sn_in_flight (machine_snapshot m) + sn_control_messages (machine_snapshot m) =
    length (sm_pending m)"
proof -
  have "length (filter (\<lambda>p. \<not> p_sent p \<and> p_control p = None) ps) + length (filter (\<lambda>p. p_sent p \<and> p_control p = None) ps) +
      length (filter is_control ps) = length ps" for ps
    by (induction ps) (auto simp: is_control_def)
  then show ?thesis using trace_ok [OF assms]
    by (simp add: machine_snapshot_def in_flight_count_def session_ok_def accounts_ok_def)
qed

theorem session_snapshot_partition_witness:
  "sn_queued (machine_snapshot sample_admitted) + sn_in_flight (machine_snapshot sample_admitted) +
     sn_control_messages (machine_snapshot sample_admitted) = 1"
  using session_snapshot_partition [OF sample_trace] by (simp add: sample_states)

section \<open>Generations\<close>

lemma good_now: "good S m0 h (m, []) \<Longrightarrow> good S m h (m, [])"
  by (simp add: good_def)

lemma run_generation:
  "session_trace crc config ins h m \<Longrightarrow> session_run crc m js = (m', es) \<Longrightarrow> sm_generation m \<le> sm_generation m'"
proof (induction js arbitrary: ins h m es)
  case (Cons j js)
  obtain m1 es1 where s: "session_step crc m j = (m1, es1)" by fastforce
  obtain m2 es2 where r: "session_run crc m1 js = (m2, es2)" by fastforce
  obtain m0 where "good (mset (submitted ins)) m0 h (m, [])" using trace_good [OF Cons.prems(1)] by blast
  from session_step_good [OF good_now [OF this] s] have "sm_generation m \<le> sm_generation m1"
    by (simp add: good_def)
  moreover have "sm_generation m1 \<le> sm_generation m2"
    using Cons.IH [OF trace_step [OF Cons.prems(1) s]] r Cons.prems(2) s by simp
  ultimately show ?case using Cons.prems(2) s r by simp
qed simp

text \<open>The generation of the transport that an input comes from.\<close>

fun input_generation :: "session_input \<Rightarrow> u64 option" where
  "input_generation (In_InitialIdentity g i c) = Some g"
| "input_generation (In_WriteComplete g r result) = Some g"
| "input_generation (In_Connected g i c) = Some g"
| "input_generation (In_ConnectFailed g) = Some g"
| "input_generation (In_Control g c) = Some g"
| "input_generation (In_Message g msg) = Some g"
| "input_generation (In_Fault g e) = Some g"
| "input_generation (In_RenewalDue g) = Some g"
| "input_generation _ = None"

lemma stale_step:
  "input_generation i = Some g \<Longrightarrow> g \<noteq> sm_generation m \<Longrightarrow>
   session_step crc m i = (m, []) \<or> session_step crc m i = (m, [Eff_CloseTransport g])"
  by (cases i) (auto simp: session_step_def connected_def renewal_due_def)

text \<open>C15: Once the session has moved past a transport generation, nothing that arrives from a transport
  of that generation changes the session ever again; at most that transport is told to close.\<close>

theorem session_superseded_transport:
  assumes "session_trace crc config ins h m" "session_run crc m js = (m', es)"
    "input_generation i = Some g" "g < sm_generation m"
  shows "session_step crc m' i \<in> {(m', []), (m', [Eff_CloseTransport g])}"
proof -
  have "g < sm_generation m'" using assms(4) run_generation [OF assms(1, 2)] by (rule order.strict_trans2)
  then have "g \<noteq> sm_generation m'" by simp
  from stale_step [OF assms(3) this, of crc] show ?thesis by simp
qed

theorem session_superseded_transport_witness:
  "session_step no_crc (drop_pending 5 sample_admitted) (In_Fault 0 Ses_Malformed) \<in>
     {(drop_pending 5 sample_admitted, []), (drop_pending 5 sample_admitted, [Eff_CloseTransport 0])}"
proof (rule session_superseded_transport [OF sample_trace sample_cancel])
  show "0 < sm_generation sample_admitted" by (simp add: sample_states)
qed simp

section \<open>Stopping\<close>

text \<open>C17: Stopping a reachable session fails every pending request, in order and once, with \<open>Closed\<close> if
  the request was never handed to a transport and with \<open>OutcomeUnknown\<close> if it was, when the submitted
  identifiers are distinct.  It completes none, ends in \<open>Stopped\<close>, and leaves no request, replay entry,
  index entry, byte or message account and no connection attempt behind.\<close>

theorem session_stop_resolves_all:
  assumes "session_trace crc config ins h m" "distinct (submitted ins)" "session_step crc m In_Stop = (m', es)"
  shows "filter (\<lambda>e. resolves e \<noteq> None) es =
      map (\<lambda>r. Eff_Failed r (if r \<in> sent_ids h then Ses_OutcomeUnknown else Ses_Closed)) (request_ids m) \<and>
    sm_state m' = Stopped \<and> sm_pending m' = [] \<and> sm_replay m' = [] \<and> sm_by_transaction m' = Map.empty \<and>
    sm_retained_bytes m' = 0 \<and> sm_control_bytes m' = 0 \<and> sm_control_messages m' = 0 \<and> \<not> sm_connect_pending m'"
proof (cases "sm_state m = Stopped")
  case True
  note ok = trace_ok [OF assms(1), unfolded session_ok_def]
  have "sm_pending m = []" "\<not> sm_connect_pending m" using True ok by (auto simp: lifecycle_ok_def)
  then have "sm_replay m = []" "sm_by_transaction m = Map.empty" "sm_control_messages m = 0"
    "unat (sm_retained_bytes m) = 0" "unat (sm_control_bytes m) = 0"
    using ok by (auto simp: sequences_ok_def requests_ok_def accounts_ok_def total_bytes_def)
  then show ?thesis using True \<open>sm_pending m = []\<close> \<open>\<not> sm_connect_pending m\<close> assms(3)
    by (auto simp: session_step_def stop_def unat_eq_zero)
next
  case False
  have "p_may_have_executed p \<longleftrightarrow> p_request_id p \<in> sent_ids h" if "p \<in> set (sm_pending m)" for p
    using mp [OF trace_honest [OF assms(1), unfolded honest_def] distinct_count [OF assms(2)]] that by blast
  then have "failures Ses_Closed (m\<lparr>sm_state := Stopped\<rparr>) =
      map (\<lambda>r. Eff_Failed r (if r \<in> sent_ids h then Ses_OutcomeUnknown else Ses_Closed)) (request_ids m)"
    by (auto simp: failures_def)
  moreover have "filter (\<lambda>e. resolves e \<noteq> None) (failures Ses_Closed n) = failures Ses_Closed n" for n
    by (rule filter_True) (auto simp: failures_def)
  moreover have "m' = (cleared (m\<lparr>sm_state := Stopped\<rparr>))\<lparr>sm_connect_pending := False\<rparr>"
    "es = Eff_Event (Ev_StateChanged Stopped) # failures Ses_Closed (m\<lparr>sm_state := Stopped\<rparr>) @
       [Eff_CloseTransport (sm_generation m)]"
    using False assms(3) by (auto simp: session_step_def stop_def set_conn_state_def run_fail_all)
  ultimately show ?thesis by (simp add: cleared_def del: not_None_eq)
qed

theorem session_stop_resolves_all_witness:
  "filter (\<lambda>e. resolves e \<noteq> None) (snd (session_step no_crc sample_admitted In_Stop)) = [Eff_Failed 5 Ses_Closed]"
proof -
  obtain m' es where s: "session_step no_crc sample_admitted In_Stop = (m', es)" by fastforce
  have "sent_ids [Eff_Event (Ev_StateChanged Ready), Eff_Admitted 5 2] = {}" by (simp add: sent_ids_def)
  moreover have "request_ids sample_admitted = [5]" by (simp add: sample_states)
  ultimately show ?thesis using session_stop_resolves_all [OF sample_trace _ s] s by simp
qed

section \<open>Progress\<close>

text \<open>
  A ready session whose writer is idle and whose window is wide enough for its requests, with
  sequence numbers left for them.
\<close>

abbreviation unsent_requests :: "machine \<Rightarrow> pending list" where
  "unsent_requests m \<equiv> filter (\<lambda>p. \<not> p_sent p) (sm_pending m)"

definition can_send :: "machine \<Rightarrow> bool" where
  "can_send m \<longleftrightarrow> sm_state m = Ready \<and> \<not> sm_write_busy m \<and> sm_controls m = [] \<and> sm_renewal m = Renewal_Idle \<and>
     length (sm_pending m) \<le> cf_max_in_flight_transactions (sm_config m) \<and> distinct (request_ids m) \<and>
     (case sm_next_outbound m of None \<Rightarrow> False | Some n \<Rightarrow> unat (max n 1) + length (unsent_requests m) < 2 ^ 64)"

text \<open>What a driver does with an idle writer: dispatch, write the message, report the write.\<close>

fun written_request :: "effect list \<Rightarrow> u64 option" where
  "written_request [Eff_SendMessage g r msg] = Some r"
| "written_request es = None"

definition send_round :: "(u32 \<Rightarrow> bytes \<Rightarrow> u32) \<Rightarrow> machine \<Rightarrow> machine \<times> effect list" where
  "send_round crc m =
     (let (m1, es1) = session_step crc m In_Dispatch;
          (m2, es2) = session_step crc m1 (In_WriteComplete (sm_generation m1) (written_request es1) (Inr ())) in
      (m2, es1 @ es2))"

fun send_rounds :: "(u32 \<Rightarrow> bytes \<Rightarrow> u32) \<Rightarrow> nat \<Rightarrow> machine \<Rightarrow> machine \<times> effect list" where
  "send_rounds crc 0 m = (m, [])"
| "send_rounds crc (Suc n) m =
     (let (m1, es1) = send_round crc m; (m2, es2) = send_rounds crc n m1 in (m2, es1 @ es2))"

lemma min_by_key_Some: "xs \<noteq> [] \<Longrightarrow> \<exists>x. min_by_key key xs = Some x"
  by (cases xs) simp_all

lemma can_send_index:
  assumes "can_send m" "unsent_requests m \<noteq> []"
  obtains i where "next_index m = Some i"
proof -
  obtain i where i: "i < length (sm_pending m)" "\<not> p_sent (sm_pending m ! i)"
    using assms(2) by (auto simp: filter_empty_conv in_set_conv_nth)
  then have "length (filter (\<lambda>p. p_sent p \<and> p_control p = None) (sm_pending m)) < length (sm_pending m)"
    by (intro length_filter_less [of "sm_pending m ! i"]) simp_all
  then have "in_flight_count m < cf_max_in_flight_transactions (sm_config m)"
    using assms(1) by (simp add: in_flight_count_def can_send_def)
  then have "i \<in> set (filter (\<lambda>i. let p = sm_pending m ! i in
      \<not> p_sent p \<and> (p_control p \<noteq> None \<or> (sm_renewal m \<noteq> Renewal_Draining \<and>
        in_flight_count m < cf_max_in_flight_transactions (sm_config m)))) [0..<length (sm_pending m)])"
    using i assms(1) by (simp add: Let_def can_send_def)
  then have "filter (\<lambda>i. let p = sm_pending m ! i in
      \<not> p_sent p \<and> (p_control p \<noteq> None \<or> (sm_renewal m \<noteq> Renewal_Draining \<and>
        in_flight_count m < cf_max_in_flight_transactions (sm_config m)))) [0..<length (sm_pending m)] \<noteq> []"
    by (metis emptyE empty_set)
  from min_by_key_Some [OF this] that show thesis by (auto simp: next_index_def)
qed

lemma run_assign_sequence:
  "sequenced i m = Some m1 \<Longrightarrow> run_state (assign_sequence i) (m, es) = (True, (m1, es))"
  by (auto simp: assign_sequence_def sequenced_def split: sum.splits if_splits)

lemma dispatch_step:
  assumes "can_send m" "next_index m = Some i" "sequenced i m = Some m1" "sm_pending m1 = xs @ p # ys" "length xs = i"
  defines "q \<equiv> p\<lparr>p_sent := True, p_may_have_executed := True\<rparr>"
  shows "\<exists>replay. session_step crc m In_Dispatch =
    (m1\<lparr>sm_pending := xs @ q # ys, sm_replay := replay, sm_write_busy := True\<rparr>,
     [Eff_SendMessage (sm_generation m1) (p_request_id q) (p_message q)])"
  using assms(1-3) unfolding q_def assms(5) [symmetric]
  by (intro exI [of _ "if p_request_id p \<in> set (sm_replay m1) then sm_replay m1 else sm_replay m1 @ [p_request_id p]"])
    (simp add: session_step_def dispatch_def can_send_def run_assign_sequence send_pending_def update_pending_def assms(4)
      list_update_append nth_append del: if_split)

lemma remove_first_split:
  "\<forall>x \<in> set xs. \<not> P x \<Longrightarrow> P q \<Longrightarrow> remove_first P (xs @ q # ys) = xs @ ys"
  by (induction xs) simp_all

lemma find_split: "\<forall>x \<in> set xs. \<not> P x \<Longrightarrow> P q \<Longrightarrow> find P (xs @ q # ys) = Some q"
  by (induction xs) simp_all

lemma write_step:
  assumes "sm_pending m = xs @ q # ys" "p_request_id q = r" "distinct (request_ids m)"
  shows "\<exists>m' es. session_step crc m (In_WriteComplete (sm_generation m) (Some r) (Inr ())) = (m', es) \<and>
    sm_pending m' = xs @ (if p_one_way q then [] else [q]) @ ys \<and> sent_ids es = {} \<and> \<not> sm_write_busy m' \<and>
    sm_state m' = sm_state m \<and> sm_controls m' = sm_controls m \<and> sm_renewal m' = sm_renewal m \<and>
    sm_config m' = sm_config m \<and> sm_next_outbound m' = sm_next_outbound m"
proof -
  have "r \<notin> p_request_id ` set xs" using assms by simp
  then have "\<forall>x \<in> set xs. p_request_id x \<noteq> r" by (auto simp: image_iff)
  then have "find (\<lambda>p. p_request_id p = r) (sm_pending m) = Some q"
    "remove_first (\<lambda>p. p_request_id p = r) (sm_pending m) = xs @ ys"
    using assms(2) by (simp_all add: assms(1) find_split remove_first_split)
  then show ?thesis using assms(1, 2)
    by (auto simp: session_step_def write_complete_def find_pending_def remove_pending_def drop_pending_def Let_def
        sent_ids_def)
qed

lemma sequenced_shape:
  assumes "can_send m" "sm_pending m = xs @ p # ys" "length xs = i" "\<not> p_sent p"
  shows "\<exists>p1 n1. sequenced i m = Some (m\<lparr>sm_next_outbound := Some n1, sm_pending := xs @ p1 # ys\<rparr>) \<and>
    p_request_id p1 = p_request_id p \<and> p_one_way p1 = p_one_way p \<and>
    unat (max n1 1) + length (unsent_requests m) \<le> 2 ^ 64"
proof -
  obtain n where n: "sm_next_outbound m = Some n" "unat (max n 1) + length (unsent_requests m) < 2 ^ 64"
    using assms(1) by (auto simp: can_send_def split: option.splits)
  show ?thesis
  proof (cases "p_sequence p = 0")
    case True
    have "length (unsent_requests m) \<ge> 1" using assms(2, 4) by simp
    then have "unat (max n 1) < 2 ^ 64 - 1" using n(2) by simp
    moreover have "unat U64_MAX = 2 ^ 64 - 1" by (simp add: unsigned_minus_1_eq_mask mask_eq_exp_minus_1)
    ultimately have "max n 1 \<noteq> U64_MAX" by (metis less_irrefl)
    then have "max n 1 < U64_MAX" by (metis word_order.not_eq_extremum)
    then have "unat (max n 1 + 1) = Suc (unat (max n 1))" by (rule unat_Suc_less)
    moreover have "max (max n 1 + 1) 1 = max n 1 + 1"
      using calculation by (simp add: max_def word_le_nat_alt)
    ultimately show ?thesis using True n assms(2-4) \<open>max n 1 \<noteq> U64_MAX\<close>
      by (intro exI [of _ "p\<lparr>p_sequence := max n 1,
             p_message := (p_message p)\<lparr>m_header := (m_header (p_message p))\<lparr>mh_sequence := max n 1\<rparr>\<rparr>\<rparr>"]
          exI [of _ "max n 1 + 1"])
        (simp add: sequenced_def allocate_sequence_def update_pending_def list_update_append nth_append Let_def)
  next
    case False
    then show ?thesis using n assms(2, 3)
      by (intro exI [of _ p] exI [of _ n]) (simp add: sequenced_def nth_append)
  qed
qed

lemma send_round_progress:
  assumes c: "can_send m" and u: "unsent_requests m \<noteq> []"
  shows "\<exists>m' es us vs r. send_round crc m = (m', es) \<and> can_send m' \<and> r \<in> sent_ids es \<and>
    map p_request_id (unsent_requests m) = us @ r # vs \<and> map p_request_id (unsent_requests m') = us @ vs"
proof -
  obtain i where i: "next_index m = Some i" using can_send_index [OF c u] .
  let ?p = "sm_pending m ! i" and ?xs = "take i (sm_pending m)" and ?ys = "drop (Suc i) (sm_pending m)"
  note idx = next_index_unsent [OF i]
  have pend: "sm_pending m = ?xs @ ?p # ?ys" using idx(1) by (rule id_take_nth_drop)
  have len: "length ?xs = i" using idx(1) by simp
  obtain p1 n1 where p1: "sequenced i m = Some (m\<lparr>sm_next_outbound := Some n1, sm_pending := ?xs @ p1 # ?ys\<rparr>)"
      "p_request_id p1 = p_request_id ?p" "p_one_way p1 = p_one_way ?p"
      "unat (max n1 1) + length (unsent_requests m) \<le> 2 ^ 64"
    using sequenced_shape [OF c pend len idx(2)] by blast
  define q where "q = p1\<lparr>p_sent := True, p_may_have_executed := True\<rparr>"
  obtain replay where d: "session_step crc m In_Dispatch =
      (m\<lparr>sm_next_outbound := Some n1, sm_pending := ?xs @ q # ?ys, sm_replay := replay, sm_write_busy := True\<rparr>,
       [Eff_SendMessage (sm_generation m) (p_request_id ?p) (p_message q)])" (is "_ = (?m1, ?es1)")
    using dispatch_step [OF c i p1(1) _ len, of p1 ?ys crc] p1(2) by (auto simp: q_def)
  have "distinct (map p_request_id (?xs @ ?p # ?ys))" using c pend by (simp add: can_send_def)
  then have dist: "distinct (map p_request_id (?xs @ q # ?ys))" using p1(2) by (simp add: q_def)
  obtain m' es2 where w: "session_step crc ?m1 (In_WriteComplete (sm_generation ?m1) (Some (p_request_id ?p)) (Inr ())) = (m', es2)"
      "sm_pending m' = ?xs @ (if p_one_way q then [] else [q]) @ ?ys" "sent_ids es2 = {}" "\<not> sm_write_busy m'"
      "sm_state m' = sm_state m" "sm_controls m' = sm_controls m" "sm_renewal m' = sm_renewal m"
      "sm_config m' = sm_config m" "sm_next_outbound m' = Some n1"
    using write_step [of ?m1 ?xs q ?ys "p_request_id ?p" crc] dist p1(2) by (auto simp: q_def)
  let ?us = "map p_request_id (filter (\<lambda>p. \<not> p_sent p) ?xs)" and ?vs = "map p_request_id (filter (\<lambda>p. \<not> p_sent p) ?ys)"
  have ids: "map p_request_id (unsent_requests m) = ?us @ p_request_id ?p # ?vs"
    "map p_request_id (unsent_requests m') = ?us @ ?vs"
    using idx(2) by (subst pend, simp) (simp add: w(2) q_def)
  have fewer: "length (unsent_requests m) = Suc (length (unsent_requests m'))"
    using arg_cong [OF ids(1), of length] arg_cong [OF ids(2), of length] by simp
  have "length (sm_pending m') \<le> length (sm_pending m)" using arg_cong [OF pend, of length] w(2) by simp
  moreover have "distinct (request_ids m')" using dist w(2) by simp
  ultimately have "can_send m'" using c w(4-9) p1(4) fewer by (simp add: can_send_def)
  moreover have "send_round crc m = (m', ?es1 @ es2)" using d w(1) by (simp add: send_round_def)
  ultimately show ?thesis using ids w(3)
    by (intro exI [of _ m'] exI [of _ "?es1 @ es2"] exI [of _ ?us] exI [of _ ?vs] exI [of _ "p_request_id ?p"])
      (auto simp: sent_ids_def)
qed

lemma send_rounds_all:
  "can_send m \<Longrightarrow> length (unsent_requests m) = n \<Longrightarrow> send_rounds crc n m = (m', es) \<Longrightarrow>
   unsent_requests m' = [] \<and> p_request_id ` set (unsent_requests m) \<subseteq> sent_ids es"
proof (induction n arbitrary: m m' es)
  case (Suc n)
  then have "unsent_requests m \<noteq> []" by auto
  then obtain m1 es1 us vs r where r: "send_round crc m = (m1, es1)" "can_send m1" "r \<in> sent_ids es1"
      "map p_request_id (unsent_requests m) = us @ r # vs" "map p_request_id (unsent_requests m1) = us @ vs"
    using send_round_progress [OF Suc.prems(1), of crc] by metis
  obtain m2 es2 where s: "send_rounds crc n m1 = (m2, es2)" by fastforce
  have "length (unsent_requests m1) = n"
    using Suc.prems(2) arg_cong [OF r(4), of length] arg_cong [OF r(5), of length] by simp
  from Suc.IH [OF r(2) this s] have "unsent_requests m2 = []" "set (us @ vs) \<subseteq> sent_ids es2"
    using arg_cong [OF r(5), of set] by simp_all
  moreover have "p_request_id ` set (unsent_requests m) = insert r (set (us @ vs))"
    using arg_cong [OF r(4), of set] by simp
  ultimately show ?case using Suc.prems(3) r(1, 3) s by auto
qed simp

text \<open>C13: A ready session whose writer is idle, that has no control payload queued and no credential
  renewal under way (a draining session holds its requests back), whose window is wide enough for its
  pending requests and that has sequence numbers left for them sends every one of them: after as many
  dispatch-and-write rounds as there are unsent requests, each of them was sent and none is left
  unsent.\<close>

theorem session_drains:
  assumes "session_trace crc config ins h m"
    "sm_state m = Ready" "\<not> sm_write_busy m" "sm_controls m = []" "sm_renewal m = Renewal_Idle"
    "length (sm_pending m) \<le> cf_max_in_flight_transactions config"
    "sm_next_outbound m = Some n" "unat (max n 1) + length (unsent_requests m) < 2 ^ 64"
    "send_rounds crc (length (unsent_requests m)) m = (m', es)"
  shows "unsent_requests m' = [] \<and> p_request_id ` set (unsent_requests m) \<subseteq> sent_ids es"
proof (rule send_rounds_all [OF _ refl assms(9)])
  show "can_send m"
    using assms(2-8) trace_ok [OF assms(1)] config_core_eqD [OF trace_config [OF assms(1)]]
    by (simp add: can_send_def session_ok_def requests_ok_def)
qed

lemma sample_admitted_fields:
  "sm_state sample_admitted = Ready" "\<not> sm_write_busy sample_admitted" "sm_controls sample_admitted = []"
  "sm_renewal sample_admitted = Renewal_Idle" "sm_next_outbound sample_admitted = Some 1"
  "sm_pending sample_admitted = [new_pending sample_started 5 sample_message 43 False False 2]"
  by (simp_all add: sample_states)

theorem session_drains_witness:
  "5 \<in> sent_ids (snd (send_rounds no_crc 1 sample_admitted))"
  using session_drains [OF sample_trace sample_admitted_fields(1-4) _ sample_admitted_fields(5)]
  by (cases "send_rounds no_crc 1 sample_admitted") (simp add: sample_admitted_fields(6) sample_session_config_def)

section \<open>The order of dispatch\<close>

lemma min_by_key_least:
  assumes "min_by_key key xs = Some x" "y \<in> set xs"
  shows "\<not> key_less (key y) (key x)"
proof -
  have "\<not> key_less (key y) (key (foldl (\<lambda>best y. if key_less (key y) (key best) then y else best) a ys))"
    if "y = a \<or> y \<in> set ys" for a ys
    using that
  proof (induction ys arbitrary: a y)
    case Nil
    then show ?case by (simp add: key_less_def)
  next
    case (Cons z zs)
    let ?b = "if key_less (key z) (key a) then z else a"
    have "\<not> key_less (key a) (key ?b)" "\<not> key_less (key z) (key ?b)" by (auto simp: key_less_def)
    moreover have "\<not> key_less (key ?b) (key (foldl (\<lambda>best y. if key_less (key y) (key best) then y else best) ?b zs))"
      by (rule Cons.IH) simp
    moreover have "y \<in> set zs \<Longrightarrow> \<not> key_less (key y) (key (foldl (\<lambda>best y. if key_less (key y) (key best) then y else best) ?b zs))"
      by (rule Cons.IH) simp
    ultimately show ?case using Cons.prems by (auto simp: key_less_def)
  qed
  then show ?thesis using assms by (cases xs) auto
qed

text \<open>C16: Messages to be replayed go out before any new one and in the order of their sequence numbers:
  a request the session dispatches precedes every eligible unsent request that has a number.\<close>

theorem session_replay_order:
  assumes "distinct (request_ids m)" "session_step crc m In_Dispatch = (m', es)"
    "sm_renewal m \<noteq> Renewal_Draining" "Eff_SendMessage g (p_request_id p) msg \<in> set es"
    "p \<in> set (sm_pending m)" "q \<in> set (sm_pending m)" "\<not> p_sent q" "p_sequence q \<noteq> 0"
    "in_flight_count m < cf_max_in_flight_transactions (sm_config m)"
  shows "p_sequence p \<noteq> 0 \<and> p_sequence p \<le> p_sequence q"
proof -
  obtain i where i: "next_index m = Some i" and r: "p_request_id p = p_request_id (sm_pending m ! i)"
    using assms(2-4) next_index_unsent(1)
    by (auto simp: session_step_def dispatch_def assign_sequence_def allocate_sequence_def send_pending_def update_pending_def
        fail_terminal_def run_fail_all failures_def set_conn_state_def Let_def
        split: if_splits list.splits option.splits)
  have "sm_pending m ! i = p"
    using next_index_unsent(1) [OF i] r assms(1, 5) by (auto simp: distinct_map dest: inj_onD)
  moreover obtain j where j: "j < length (sm_pending m)" "sm_pending m ! j = q" using assms(6) by (auto simp: in_set_conv_nth)
  then have "\<not> key_less (dispatch_key q) (dispatch_key (sm_pending m ! i))"
    using min_by_key_least [OF i [unfolded next_index_def], of j] assms(3, 7, 9) by (simp add: Let_def)
  ultimately show ?thesis using assms(8) by (auto simp: key_less_def dispatch_key_def split: if_splits)
qed

definition sample_replaying :: machine where
  "sample_replaying = sample_admitted\<lparr>sm_pending := map (\<lambda>(r, n). (new_pending sample_started r sample_message 43 False False r)
     \<lparr>p_sequence := n\<rparr>) [(5, 0), (6, 4), (7, 3)], sm_next_outbound := Some 5\<rparr>"

lemma sample_replaying_dispatch:
  "\<exists>m' msg. session_step no_crc sample_replaying In_Dispatch = (m', [Eff_SendMessage 1 7 msg])"
  by (simp add: sample_replaying_def session_step_def dispatch_def next_index_def upt_rec in_flight_count_def key_less_def
      dispatch_key_def assign_sequence_def send_pending_def update_pending_def sample_states nth_Cons')

theorem session_replay_order_witness:
  "p_sequence (sm_pending sample_replaying ! 2) \<noteq> 0 \<and>
   p_sequence (sm_pending sample_replaying ! 2) \<le> p_sequence (sm_pending sample_replaying ! 1)"
proof -
  obtain m' msg where d: "session_step no_crc sample_replaying In_Dispatch = (m', [Eff_SendMessage 1 7 msg])"
    using sample_replaying_dispatch by blast
  let ?p = "\<lambda>r n. (new_pending sample_started r sample_message 43 False False r)\<lparr>p_sequence := n\<rparr>"
  have "p_sequence (?p 7 3) \<noteq> 0 \<and> p_sequence (?p 7 3) \<le> p_sequence (?p 6 4)"
    by (rule session_replay_order [OF _ d])
      (simp_all add: sample_replaying_def sample_admitted_fields in_flight_count_def,
       simp_all add: new_pending_def sample_states)
  then show ?thesis by (simp add: sample_replaying_def)
qed

end
