(* ===== verification/Maps_Pool.thy ===== *)
theory Maps_Pool
  imports Protocol "HOL-Library.Multiset"
begin

text \<open>
  \<open>src/maps/mod.rs\<close> and \<open>src/maps/pool.rs\<close>: what the cluster-map decoders share, and the decoder
  of a pool.  A \<open>HashMap\<close> is an association list, as in \<open>Rados_Prelude\<close>; the snapshots of a pool
  are a \<open>BTreeMap\<close>.  A floating-point pool option is kept as its bit pattern.
\<close>

section \<open>Shared pieces\<close>

datatype map_error =
    MapE_Wire wire_error
  | MapE_Malformed string
  | MapE_UnsupportedPlacement string
  | MapE_InvalidSequence
  | MapE_FsidMismatch
  | MapE_LockPoisoned

record map_limits =
  ml_max_bytes :: u32
  ml_max_monitors :: u32
  ml_max_addresses :: u32
  ml_max_locations :: u32
  ml_max_pools :: u32
  ml_max_osds :: u32
  ml_max_pg_mappings :: u32
  ml_max_collection_entries :: u32

type_synonym fsid = bytes

definition hex_digit :: "nat \<Rightarrow> char" where
  "hex_digit n = (if n < 10 then char_of (48 + n) else char_of (87 + n))"

definition hex_byte :: "u8 \<Rightarrow> string" where
  "hex_byte b = [hex_digit (unat b div 16), hex_digit (unat b mod 16)]"

definition fsid_display :: "fsid \<Rightarrow> string" where
  "fsid_display bs =
     (let hex = (\<lambda>i j. concat (map hex_byte (take (j - i) (drop i bs)))) in
      hex 0 4 @ ''-'' @ hex 4 6 @ ''-'' @ hex 6 8 @ ''-'' @ hex 8 10 @ ''-'' @ hex 10 16)"

record utime =
  ut_seconds :: u32
  ut_nanoseconds :: u32

definition utime_default :: utime where
  "utime_default = \<lparr>ut_seconds = 0, ut_nanoseconds = 0\<rparr>"

definition decode_utime :: "decoder \<Rightarrow> utime \<times> decoder" where
  "decode_utime d = (let (s, d) = dec_u32 d; (n, d) = dec_u32 d in (\<lparr>ut_seconds = s, ut_nanoseconds = n\<rparr>, d))"

abbreviation check :: "decoder \<Rightarrow> map_error + unit" where
  "check d \<equiv> map_err MapE_Wire (dec_finish d)"

definition bounded_count :: "decoder \<Rightarrow> u32 \<Rightarrow> usize \<Rightarrow> map_error + (usize \<times> decoder)" where
  "bounded_count d maximum minimum_bytes =
     (let (count, d) = dec_u32 d in
      rbind (check d) (\<lambda>_.
      if count > maximum then Inl (MapE_Wire WE_LimitExceeded)
      else if minimum_bytes \<noteq> 0 \<and> unat count > dec_remaining d div minimum_bytes
      then Inl (MapE_Wire WE_Malformed)
      else Inr (unat count, d)))"

text \<open>Sequences of reads of one kind, checked once at the end.\<close>

definition decode_list :: "(decoder \<Rightarrow> 'a \<times> decoder) \<Rightarrow> usize \<Rightarrow> decoder \<Rightarrow> u32 \<Rightarrow> map_error + ('a list \<times> decoder)" where
  "decode_list get minimum_bytes d maximum =
     rbind (bounded_count d maximum minimum_bytes) (\<lambda>(count, d).
     let (vs, d) = dec_times get count d in rbind (check d) (\<lambda>_. Inr (vs, d)))"

definition decode_strings :: "decoder \<Rightarrow> u32 \<Rightarrow> map_error + (rust_string list \<times> decoder)" where
  "decode_strings d maximum = decode_list dec_string 4 d maximum"

definition decode_u32s :: "decoder \<Rightarrow> u32 \<Rightarrow> map_error + (u32 list \<times> decoder)" where
  "decode_u32s d maximum = decode_list dec_u32 4 d maximum"

definition require_timestamp :: "utime \<Rightarrow> map_error + utime" where
  "require_timestamp v =
     (if ut_nanoseconds v \<ge> 1000000000 then Inl (MapE_Malformed ''invalid timestamp'') else Inr v)"

text \<open>
  A loop that runs a fallible body a given number of times over an accumulator and a decoder, and
  the insertion into a hash map that refuses a key it already holds.
\<close>

fun repeat_dec :: "nat \<Rightarrow> ('s \<Rightarrow> decoder \<Rightarrow> 'e + ('s \<times> decoder)) \<Rightarrow> 's \<Rightarrow> decoder \<Rightarrow> 'e + ('s \<times> decoder)" where
  "repeat_dec 0 f s d = Inr (s, d)"
| "repeat_dec (Suc n) f s d = rbind (f s d) (\<lambda>(s, d). repeat_dec n f s d)"

definition insert_new :: "string \<Rightarrow> 'k \<Rightarrow> 'v \<Rightarrow> ('k \<times> 'v) list \<Rightarrow> map_error + ('k \<times> 'v) list" where
  "insert_new reason k v m =
     (if map_of m k \<noteq> None then Inl (MapE_Malformed reason) else Inr (AList.update k v m))"

text \<open>A counted hash map whose entries one body reads.\<close>

definition decode_map :: "string \<Rightarrow> (decoder \<Rightarrow> map_error + (('k \<times> 'v) \<times> decoder)) \<Rightarrow> usize \<Rightarrow> decoder \<Rightarrow> u32 \<Rightarrow>
    map_error + (('k \<times> 'v) list \<times> decoder)" where
  "decode_map reason entry minimum_bytes d maximum =
     rbind (bounded_count d maximum minimum_bytes) (\<lambda>(count, d).
     rbind (repeat_dec count (\<lambda>m d. rbind (entry d) (\<lambda>((k, v), d).
       rbind (insert_new reason k v m) (\<lambda>m. Inr (m, d)))) [] d) (\<lambda>(m, d).
     rbind (check d) (\<lambda>_. Inr (m, d))))"

lemma repeat_dec_inv:
  assumes "repeat_dec n f s d = Inr (s', d')" "P s" "\<And>s d s' d'. P s \<Longrightarrow> f s d = Inr (s', d') \<Longrightarrow> P s'"
  shows "P s'"
  using assms(1, 2)
proof (induction n arbitrary: s d)
  case (Suc n)
  then show ?case using assms(3) by fastforce
qed simp

lemma insert_new_Inr:
  assumes "insert_new reason k v m = Inr m'"
  shows "map_of m k = None" "m' = AList.update k v m"
  using assms by (auto simp: insert_new_def split: if_splits)

lemma insert_new_inv: "insert_new reason k v m = Inr m' \<Longrightarrow> alist_inv m \<Longrightarrow> alist_inv m'"
  using insert_new_Inr alist.inv_ins by metis

lemma decode_map_inv:
  assumes "decode_map reason entry minimum_bytes d maximum = Inr (m, d')"
  shows "alist_inv m"
proof -
  obtain count d1 d2 where "repeat_dec count (\<lambda>m d. rbind (entry d) (\<lambda>((k, v), d).
       rbind (insert_new reason k v m) (\<lambda>m. Inr (m, d)))) [] d1 = Inr (m, d2)"
    using assms by (fastforce simp: decode_map_def)
  then show ?thesis
    by (rule repeat_dec_inv) (auto simp: alist_inv_def dest: insert_new_inv [unfolded alist_inv_def])
qed

lemma length_decode_list: "decode_list get b d maximum = Inr (vs, d') \<Longrightarrow> length vs \<le> unat maximum"
  by (auto simp: decode_list_def bounded_count_def Let_def word_le_nat_alt linorder_not_less
      dest!: length_dec_times split: prod.splits if_splits)

section \<open>Pools\<close>

definition POOL_TYPE_ERASURE :: u8 where "POOL_TYPE_ERASURE = 3"
definition POOL_FLAG_EC_OVERWRITES :: u64 where "POOL_FLAG_EC_OVERWRITES = push_bit 2 1"
definition POOL_FLAG_SELF_MANAGED_SNAPSHOTS :: u64 where "POOL_FLAG_SELF_MANAGED_SNAPSHOTS = push_bit 13 1"
definition POOL_FLAG_POOL_SNAPSHOTS :: u64 where "POOL_FLAG_POOL_SNAPSHOTS = push_bit 14 1"

datatype pool_option_type = OptType_String | OptType_Integer | OptType_Double

datatype pool_option = Opt_String rust_string | Opt_Integer i64 | Opt_Double u64

fun option_type :: "pool_option \<Rightarrow> pool_option_type" where
  "option_type (Opt_String s) = OptType_String"
| "option_type (Opt_Integer i) = OptType_Integer"
| "option_type (Opt_Double b) = OptType_Double"

record pool_snapshot =
  ps_id :: u64
  ps_name :: rust_string
  ps_timestamp :: utime

record interval =
  iv_start :: u64
  iv_length :: u64

type_synonym string_map = "(rust_string \<times> rust_string) list"

record pool =
  pool_id :: i64
  pool_name :: rust_string
  pool_type :: u8
  pool_size :: u8
  minimum_size :: u8
  pool_crush_rule :: u8
  object_hash_kind :: u8
  pg_count :: u32
  placement_pg_count :: u32
  stripe_width :: u32
  pool_flags :: u64
  snapshot_sequence :: u64
  pool_snapshots :: "(u64 \<times> pool_snapshot) list"
  erasure_code_profile :: rust_string
  application_metadata :: "(rust_string \<times> string_map) list"
  pool_options :: "(i32 \<times> pool_option) list"

definition uses_pool_snapshots :: "pool \<Rightarrow> bool" where
  "uses_pool_snapshots p \<longleftrightarrow> pool_flags p AND POOL_FLAG_POOL_SNAPSHOTS \<noteq> 0"

definition uses_self_managed_snapshots :: "pool \<Rightarrow> bool" where
  "uses_self_managed_snapshots p \<longleftrightarrow> pool_flags p AND POOL_FLAG_SELF_MANAGED_SNAPSHOTS \<noteq> 0"

definition is_erasure_coded :: "pool \<Rightarrow> bool" where
  "is_erasure_coded p \<longleftrightarrow> pool_type p = POOL_TYPE_ERASURE"

definition allows_ec_overwrites :: "pool \<Rightarrow> bool" where
  "allows_ec_overwrites p \<longleftrightarrow> pool_flags p AND POOL_FLAG_EC_OVERWRITES \<noteq> 0"

definition requires_alignment :: "pool \<Rightarrow> bool" where
  "requires_alignment p \<longleftrightarrow> is_erasure_coded p \<and> \<not> allows_ec_overwrites p"

definition decode_intervals :: "decoder \<Rightarrow> u32 \<Rightarrow> map_error + (interval list \<times> decoder)" where
  "decode_intervals d maximum = decode_list (\<lambda>d. let (s, d) = dec_u64 d; (n, d) = dec_u64 d in
     (\<lparr>iv_start = s, iv_length = n\<rparr>, d)) 16 d maximum"

definition consume_u64_set :: "decoder \<Rightarrow> u32 \<Rightarrow> map_error + decoder" where
  "consume_u64_set d maximum = rbind (decode_list dec_u64 8 d maximum) (\<lambda>(_, d). Inr d)"

definition decode_string_map :: "decoder \<Rightarrow> u32 \<Rightarrow> map_error + (string_map \<times> decoder)" where
  "decode_string_map d maximum =
     decode_map ''duplicate string key''
       (\<lambda>d. let (key, d) = dec_string d; (v, d) = dec_string d in Inr ((key, v), d)) 8 d maximum"

definition decode_nested_string_map :: "decoder \<Rightarrow> u32 \<Rightarrow> map_error + ((rust_string \<times> string_map) list \<times> decoder)" where
  "decode_nested_string_map d maximum =
     decode_map ''duplicate nested string key''
       (\<lambda>d. let (key, d) = dec_string d in
          rbind (decode_string_map d maximum) (\<lambda>(v, d). Inr ((key, v), d))) 8 d maximum"

definition skip_versioned :: "decoder \<Rightarrow> u8 \<Rightarrow> map_error + decoder" where
  "skip_versioned d local =
     (let ((_, payload), d) = dec_versioned local d in
      rbind (check d) (\<lambda>_. rbind (check payload) (\<lambda>_. Inr d)))"

fun consume_varint_from :: "nat \<Rightarrow> nat \<Rightarrow> decoder \<Rightarrow> map_error + decoder" where
  "consume_varint_from 0 index d = Inl (MapE_Wire WE_Malformed)"
| "consume_varint_from (Suc n) index d =
     (let (v, d) = dec_u8 d in
      rbind (check d) (\<lambda>_.
      if v AND 0x80 = 0 then (if index = 9 \<and> v > 1 then Inl (MapE_Wire WE_Malformed) else Inr d)
      else consume_varint_from n (Suc index) d))"

definition consume_unsigned_varint :: "decoder \<Rightarrow> map_error + decoder" where
  "consume_unsigned_varint d = consume_varint_from 10 0 d"

definition decode_pool_option :: "u8 \<Rightarrow> decoder \<Rightarrow> map_error + ((i32 \<times> pool_option) \<times> decoder)" where
  "decode_pool_option version d =
     (let (key, d) = dec_i32 d; (kind, d) = dec_i32 d in
      if kind = 0 then (let (s, d) = dec_string d in Inr ((key, Opt_String s), d))
      else if kind = 1 then
        (if version \<ge> 2 then (let (i, d) = dec_i64 d in Inr ((key, Opt_Integer i), d))
         else (let (i, d) = dec_i32 d in Inr ((key, Opt_Integer i), d)))
      else if kind = 2 then (let (b, d) = dec_u64 d in Inr ((key, Opt_Double b), d))
      else Inl (MapE_Malformed ''unsupported pool option type''))"

definition decode_pool_options :: "decoder \<Rightarrow> map_limits \<Rightarrow> map_error + ((i32 \<times> pool_option) list \<times> decoder)" where
  "decode_pool_options d limits =
     (let ((version, payload), d) = dec_versioned 2 d in
      rbind (check d) (\<lambda>_.
      if version < 1 then Inl (MapE_Wire (WE_UnsupportedVersion 2 1))
      else rbind (decode_map ''duplicate pool option'' (decode_pool_option version) 8 payload
          (ml_max_collection_entries limits)) (\<lambda>(m, _). Inr (m, d))))"

definition decode_pool_snapshot :: "(u64 \<times> pool_snapshot) list \<Rightarrow> decoder \<Rightarrow>
    map_error + ((u64 \<times> pool_snapshot) list \<times> decoder)" where
  "decode_pool_snapshot snapshots d =
     (let (key, d) = dec_u64 d; ((version, payload), d) = dec_versioned 2 d in
      rbind (check d) (\<lambda>_.
      if version < 2 then Inl (MapE_Wire (WE_UnsupportedVersion 2 2))
      else
        let (sid, payload) = dec_u64 payload; (ts, payload) = decode_utime payload; (nm, payload) = dec_string payload in
        rbind (check payload) (\<lambda>_.
        if key \<noteq> sid \<or> map_of snapshots key \<noteq> None \<or> nm \<in> ps_name ` snd ` set snapshots
        then Inl (MapE_Malformed ''duplicate or mismatched pool snapshot'')
        else Inr (btree_insert key \<lparr>ps_id = sid, ps_name = nm, ps_timestamp = ts\<rparr> snapshots, d))))"

definition decode_pool_snapshots :: "decoder \<Rightarrow> map_limits \<Rightarrow> map_error + ((u64 \<times> pool_snapshot) list \<times> decoder)" where
  "decode_pool_snapshots d limits =
     rbind (bounded_count d (ml_max_collection_entries limits) 14) (\<lambda>(count, d).
     rbind (repeat_dec count decode_pool_snapshot [] d) (\<lambda>(m, d).
     rbind (check d) (\<lambda>_. Inr (m, d))))"

text \<open>Reads of fields that only some versions have, and that the client does not keep.\<close>

definition skip_if :: "bool \<Rightarrow> (decoder \<Rightarrow> decoder) \<Rightarrow> decoder \<Rightarrow> decoder" where
  "skip_if c f d = (if c then f d else d)"

definition consume_if :: "bool \<Rightarrow> (decoder \<Rightarrow> map_error + decoder) \<Rightarrow> decoder \<Rightarrow> map_error + decoder" where
  "consume_if c f d = (if c then f d else Inr d)"

abbreviation skip_u8 :: "decoder \<Rightarrow> decoder" where "skip_u8 d \<equiv> snd (dec_u8 d)"
abbreviation skip_u32 :: "decoder \<Rightarrow> decoder" where "skip_u32 d \<equiv> snd (dec_u32 d)"
abbreviation skip_u64 :: "decoder \<Rightarrow> decoder" where "skip_u64 d \<equiv> snd (dec_u64 d)"
abbreviation skip_bool :: "decoder \<Rightarrow> decoder" where "skip_bool d \<equiv> snd (dec_bool d)"
abbreviation skip_i32 :: "decoder \<Rightarrow> decoder" where "skip_i32 d \<equiv> snd (dec_i32 d)"
abbreviation skip_i64 :: "decoder \<Rightarrow> decoder" where "skip_i64 d \<equiv> snd (dec_i64 d)"

text \<open>Versions 8 to 11: tiers, properties and hit sets.\<close>

definition consume_pool_tiers :: "u8 \<Rightarrow> map_limits \<Rightarrow> decoder \<Rightarrow> map_error + decoder" where
  "consume_pool_tiers version limits d =
     (let d = skip_if (version \<ge> 8) (skip_u64 \<circ> skip_u64) d in
      rbind (consume_if (version \<ge> 9) (\<lambda>d.
        rbind (consume_u64_set d (ml_max_collection_entries limits)) (\<lambda>d.
        Inr (skip_i64 (skip_i64 (skip_u8 (skip_i64 d)))))) d) (\<lambda>d.
      rbind (consume_if (version \<ge> 10) (\<lambda>d.
        rbind (decode_string_map d (ml_max_collection_entries limits)) (\<lambda>(_, d). Inr d)) d) (\<lambda>d.
      consume_if (version \<ge> 11) (\<lambda>d.
        rbind (skip_versioned d 1) (\<lambda>d. Inr (skip_u32 (skip_u32 d)))) d)))"

text \<open>Versions 15 to 23: scalar settings.\<close>

definition skip_pool_settings :: "u8 \<Rightarrow> decoder \<Rightarrow> decoder" where
  "skip_pool_settings version d =
     (let d = skip_if (version \<ge> 15) skip_u32 d;
          d = skip_if (version \<ge> 16) skip_u32 d;
          d = skip_if (version \<ge> 17) skip_u64 d;
          d = skip_if (version \<ge> 19) skip_u32 d;
          d = skip_if (version \<ge> 20) skip_u32 d;
          d = skip_if (version \<ge> 21) skip_bool d;
          d = skip_if (version \<ge> 22) skip_bool d in
      skip_if (version \<ge> 23) (skip_u32 \<circ> skip_u32) d)"

text \<open>Versions 27 and later, up to the end of the payload.\<close>

definition consume_pool_tail :: "u8 \<Rightarrow> decoder \<Rightarrow> map_error + decoder" where
  "consume_pool_tail version d =
     (let d = skip_if (version \<ge> 27) (\<lambda>d. snd (decode_utime d)) d;
          d = skip_if (version \<ge> 28) (\<lambda>d. skip_u8 ((skip_u32 ^^ 6) d)) d in
      rbind (consume_if (version \<ge> 29) (\<lambda>d. skip_versioned d 1) d) (\<lambda>d.
      let d = skip_if (version = 30) (\<lambda>d. skip_i32 ((skip_u32 ^^ 3) d)) d;
          d = skip_if (version \<ge> 31) (\<lambda>d. let (b, d) = dec_bool d in if b then (skip_u32 ^^ 4) d else d) d in
      consume_if (version \<ge> 32) (\<lambda>d. rbind (consume_unsigned_varint d) consume_unsigned_varint) d))"

definition decode_pool :: "decoder \<Rightarrow> map_limits \<Rightarrow> map_error + (pool \<times> decoder)" where
  "decode_pool d limits =
     (let ((version, p), d) = dec_versioned 32 d in
      rbind (check d) (\<lambda>_.
      if version < 5 then Inl (MapE_Wire (WE_UnsupportedVersion 32 5))
      else
        let (kind, p) = dec_u8 p; (sz, p) = dec_u8 p; (rl, p) = dec_u8 p; (oh, p) = dec_u8 p;
            (pgs, p) = dec_u32 p; (ppgs, p) = dec_u32 p;
            p = skip_u32 (skip_u32 (skip_u32 p)); (sseq, p) = dec_u64 p; p = skip_u32 p in
        rbind (decode_pool_snapshots p limits) (\<lambda>(snaps, p).
        rbind (decode_intervals p (ml_max_collection_entries limits)) (\<lambda>(_, p).
        let p = skip_u64 p;
            (fl, p) = (if version \<ge> 4 then (let (fl, p) = dec_u64 p in (fl, skip_u32 p)) else (0, p));
            (minsz, p) = (if version \<ge> 7 then dec_u8 p else (sz - sz div 2, p)) in
        rbind (consume_pool_tiers version limits p) (\<lambda>p.
        let (stripe, p) = (if version \<ge> 12 then dec_u32 p else (0, p));
            p = skip_if (version \<ge> 13) (\<lambda>p. (skip_u32 ^^ 4) (skip_u64 (skip_u64 p))) p;
            (profile, p) = (if version \<ge> 14 then dec_string p else ([], p));
            p = skip_pool_settings version p in
        rbind (if version \<ge> 24 then decode_pool_options p limits else Inr ([], p)) (\<lambda>(opts, p).
        let p = skip_if (version \<ge> 25) skip_u32 p in
        rbind (if version \<ge> 26 then decode_nested_string_map p (ml_max_collection_entries limits) else Inr ([], p))
          (\<lambda>(meta, p).
        rbind (consume_pool_tail version p) (\<lambda>p.
        rbind (check p) (\<lambda>_.
        Inr (\<lparr>pool_id = 0, pool_name = [], pool_type = kind, pool_size = sz, minimum_size = minsz,
              pool_crush_rule = rl, object_hash_kind = oh, pg_count = pgs, placement_pg_count = ppgs,
              stripe_width = stripe, pool_flags = fl, snapshot_sequence = sseq, pool_snapshots = snaps,
              erasure_code_profile = profile, application_metadata = meta, pool_options = opts\<rparr>, d))))))))))"

section \<open>What a decoded pool satisfies\<close>

definition snapshots_wf :: "(u64 \<times> pool_snapshot) list \<Rightarrow> bool" where
  "snapshots_wf m \<longleftrightarrow> btree_inv m \<and> (\<forall>(k, s) \<in> set m. ps_id s = k) \<and> distinct (map (ps_name \<circ> snd) m)"

definition pool_wf :: "pool \<Rightarrow> bool" where
  "pool_wf p \<longleftrightarrow> snapshots_wf (pool_snapshots p) \<and> alist_inv (pool_options p) \<and> alist_inv (application_metadata p)"

lemma names_btree_insert:
  "k \<notin> fst ` set m \<Longrightarrow> mset (map (f \<circ> snd) (btree_insert k v m)) = add_mset (f v) (mset (map (f \<circ> snd) m))"
  by (induction k v m rule: btree_insert.induct) auto

lemma snapshots_wf_insert:
  assumes "snapshots_wf m" "map_of m k = None" "ps_name s \<notin> ps_name ` snd ` set m" "ps_id s = k"
  shows "snapshots_wf (btree_insert k s m)"
proof -
  have k: "k \<notin> fst ` set m" using assms(2) by (simp add: map_of_eq_None_iff)
  have "distinct (map (ps_name \<circ> snd) (btree_insert k s m)) \<longleftrightarrow> distinct (ps_name s # map (ps_name \<circ> snd) m)"
    by (rule mset_eq_imp_distinct_iff) (use names_btree_insert [OF k, of ps_name s] in simp)
  then have "distinct (map (ps_name \<circ> snd) (btree_insert k s m))"
    using assms(1, 3) by (simp add: snapshots_wf_def image_comp)
  moreover have "btree_inv (btree_insert k s m)" using assms(1) by (simp add: snapshots_wf_def btree.inv_ins)
  moreover have "\<forall>(k', s') \<in> set (btree_insert k s m). ps_id s' = k'"
    using assms(1, 4) by (auto simp: snapshots_wf_def btree.set_ins)
  ultimately show ?thesis by (simp add: snapshots_wf_def)
qed

lemma decode_pool_snapshots_wf:
  assumes "decode_pool_snapshots d limits = Inr (m, d')"
  shows "snapshots_wf m"
proof -
  obtain count d1 d2 where "repeat_dec count decode_pool_snapshot [] d1 = Inr (m, d2)"
    using assms by (fastforce simp: decode_pool_snapshots_def)
  then show ?thesis
  proof (rule repeat_dec_inv)
    show "snapshots_wf []" by (simp add: snapshots_wf_def btree_inv_def)
    show "snapshots_wf s'" if "snapshots_wf s" "decode_pool_snapshot s d = Inr (s', d')" for s d s' d'
      using that
      by (auto simp: decode_pool_snapshot_def Let_def split: prod.splits if_splits intro!: snapshots_wf_insert)
        (metis image_eqI snd_conv)
  qed
qed

lemma decode_pool_wf:
  assumes "decode_pool d limits = Inr (p, d')"
  shows "pool_wf p" "pool_id p = 0" "pool_name p = []"
proof -
  have "alist_inv (pool_options p)" "alist_inv (application_metadata p)" "snapshots_wf (pool_snapshots p)"
    "pool_id p = 0" "pool_name p = []"
    using assms
    by (auto simp: decode_pool_def Let_def decode_nested_string_map_def decode_pool_options_def alist_inv_def
        split: prod.splits if_splits dest!: decode_pool_snapshots_wf decode_map_inv)
  then show "pool_wf p" "pool_id p = 0" "pool_name p = []" by (simp_all add: pool_wf_def)
qed

end
