(* ===== verification/Maps_Osd.thy ===== *)
theory Maps_Osd
  imports Maps_Pool
begin

text \<open>
  \<open>src/maps/osdmap.rs\<close>: the OSD map and its decoder.  \<open>CrushData\<close> pairs the CRUSH payload with a
  memoised decode of it; the decode is a function of the payload, so the payload alone is kept and
  \<open>replace\<close> is an assignment.  The CRC32C routine is a parameter, as in \<open>Wire\<close>.
\<close>

section \<open>The map\<close>

definition OSDMAP_FLAG_SORT_BITWISE :: u32 where "OSDMAP_FLAG_SORT_BITWISE = push_bit 15 1"

record pg =
  pg_pool :: u64
  pg_seed :: u32
  pg_preferred :: i32

record osd_remap =
  remap_from :: i32
  remap_to :: i32

record osd_map =
  om_fsid :: fsid
  om_epoch :: u32
  om_created :: utime
  om_modified :: utime
  om_pools :: "(i64 \<times> pool) list"
  om_name_to_id :: "(rust_string \<times> i64) list"
  om_pool_max :: i64
  om_flags :: u32
  om_max_osd :: i32
  om_osd_state :: "u32 list"
  om_osd_weight :: "u32 list"
  om_client_addresses :: "entity_addr_vec list"
  om_pg_temp :: "(pg \<times> i32 list) list"
  om_primary_temp :: "(pg \<times> i32) list"
  om_primary_affinity :: "u32 list"
  om_crush_data :: bytes
  om_erasure_code_profiles :: "(rust_string \<times> string_map) list"
  om_pg_upmap :: "(pg \<times> i32 list) list"
  om_pg_upmap_items :: "(pg \<times> osd_remap list) list"
  om_crush_version :: u32
  om_new_removed_snapshots :: "(i64 \<times> interval list) list"
  om_new_purged_snapshots :: "(i64 \<times> interval list) list"
  om_last_up_change :: utime
  om_last_in_change :: utime
  om_pg_upmap_primaries :: "(pg \<times> i32) list"
  om_crc :: u32
  om_crc_verified :: bool
  om_applied_incremental :: bool

definition pool_by_id :: "osd_map \<Rightarrow> i64 \<Rightarrow> pool option" where
  "pool_by_id m i = map_of (om_pools m) i"

definition pool_by_name :: "osd_map \<Rightarrow> rust_string \<Rightarrow> pool option" where
  "pool_by_name m name = Option.bind (map_of (om_name_to_id m) name) (map_of (om_pools m))"

definition osd_client_addresses :: "osd_map \<Rightarrow> i32 \<Rightarrow> entity_addr_vec option" where
  "osd_client_addresses m i =
     (if i < 0 then None
      else case list_get (om_client_addresses m) (nat i) of
        None \<Rightarrow> None
      | Some a \<Rightarrow> if a = [] then None else Some a)"

definition sort_bitwise :: "osd_map \<Rightarrow> bool" where
  "sort_bitwise m \<longleftrightarrow> om_flags m AND OSDMAP_FLAG_SORT_BITWISE \<noteq> 0"

section \<open>Decoding\<close>

definition validate_limits :: "map_limits \<Rightarrow> map_error + unit" where
  "validate_limits limits =
     (if ml_max_bytes limits = 0 \<or> ml_max_pools limits = 0 \<or> ml_max_osds limits = 0 \<or>
         ml_max_addresses limits = 0 \<or> ml_max_pg_mappings limits = 0 \<or> ml_max_collection_entries limits = 0
      then Inl (MapE_Wire WE_LimitExceeded) else Inr ())"

definition decode_fsid :: "decoder \<Rightarrow> map_error + (fsid \<times> decoder)" where
  "decode_fsid d =
     (let (bs, d) = dec_raw 16 d in if length bs = 16 then Inr (bs, d) else Inl (MapE_Wire WE_Malformed))"

definition decode_u32_vector :: "decoder \<Rightarrow> u32 \<Rightarrow> map_error + (u32 list \<times> decoder)" where
  "decode_u32_vector d maximum = decode_u32s d maximum"

definition decode_address_vector :: "decoder \<Rightarrow> map_limits \<Rightarrow> map_error + (entity_addr_vec list \<times> decoder)" where
  "decode_address_vector d limits =
     rbind (bounded_count d (ml_max_osds limits) 5) (\<lambda>(count, d).
     rbind (repeat_dec count (\<lambda>vs d. rbind (map_err MapE_Wire (addrvec_decode d (ml_max_addresses limits)))
       (\<lambda>(v, d). Inr (vs @ [v], d))) [] d) (\<lambda>(vs, d).
     rbind (check d) (\<lambda>_. Inr (vs, d))))"

definition decode_pg :: "decoder \<Rightarrow> map_error + (pg \<times> decoder)" where
  "decode_pg d =
     (let (v, d) = dec_u8 d in
      if v \<noteq> 1 then Inl (MapE_Wire (WE_UnsupportedVersion 1 1))
      else
        let (p, d) = dec_u64 d; (s, d) = dec_u32 d; (f, d) = dec_i32 d in
        rbind (check d) (\<lambda>_. Inr (\<lparr>pg_pool = p, pg_seed = s, pg_preferred = f\<rparr>, d)))"

definition decode_pg_vector_map :: "decoder \<Rightarrow> map_limits \<Rightarrow> map_error + ((pg \<times> i32 list) list \<times> decoder)" where
  "decode_pg_vector_map d limits =
     decode_map ''duplicate PG mapping'' (\<lambda>d.
       rbind (decode_pg d) (\<lambda>(p, d).
       rbind (bounded_count d (ml_max_osds limits) 4) (\<lambda>(inner, d).
       let (vs, d) = dec_times dec_i32 inner d in Inr ((p, vs), d)))) 21 d (ml_max_pg_mappings limits)"

definition decode_pg_int_map :: "decoder \<Rightarrow> map_limits \<Rightarrow> map_error + ((pg \<times> i32) list \<times> decoder)" where
  "decode_pg_int_map d limits =
     decode_map ''duplicate PG mapping'' (\<lambda>d.
       rbind (decode_pg d) (\<lambda>(p, d). let (v, d) = dec_i32 d in Inr ((p, v), d))) 21 d (ml_max_pg_mappings limits)"

definition decode_pg_remap_items :: "decoder \<Rightarrow> map_limits \<Rightarrow> map_error + ((pg \<times> osd_remap list) list \<times> decoder)" where
  "decode_pg_remap_items d limits =
     decode_map ''duplicate PG remap'' (\<lambda>d.
       rbind (decode_pg d) (\<lambda>(p, d).
       rbind (bounded_count d (ml_max_osds limits) 8) (\<lambda>(inner, d).
       let (vs, d) = dec_times (\<lambda>d. let (f, d) = dec_i32 d; (t, d) = dec_i32 d in
             (\<lparr>remap_from = f, remap_to = t\<rparr>, d)) inner d in
       Inr ((p, vs), d)))) 21 d (ml_max_pg_mappings limits)"

definition decode_pool_interval_map :: "decoder \<Rightarrow> map_limits \<Rightarrow> map_error + ((i64 \<times> interval list) list \<times> decoder)" where
  "decode_pool_interval_map d limits =
     decode_map ''duplicate pool interval set'' (\<lambda>d.
       let (i, d) = dec_i64 d in
       rbind (decode_intervals d (ml_max_collection_entries limits)) (\<lambda>(vs, d). Inr ((i, vs), d)))
       12 d (ml_max_pools limits)"

text \<open>The counted pools, each stored under the identifier that precedes it.\<close>

definition decode_pools :: "string \<Rightarrow> decoder \<Rightarrow> map_limits \<Rightarrow> map_error + ((i64 \<times> pool) list \<times> decoder)" where
  "decode_pools reason d limits =
     rbind (bounded_count d (ml_max_pools limits) 14) (\<lambda>(count, d).
     repeat_dec count (\<lambda>m d.
       let (i, d) = dec_i64 d in
       rbind (decode_pool d limits) (\<lambda>(p, d).
       rbind (insert_new reason i (p\<lparr>pool_id := i\<rparr>) m) (\<lambda>m. Inr (m, d)))) [] d)"

text \<open>The names: every name belongs to a known pool and none is used twice.\<close>

definition decode_pool_name :: "(i64 \<times> pool) list \<times> (rust_string \<times> i64) list \<Rightarrow> decoder \<Rightarrow>
    map_error + (((i64 \<times> pool) list \<times> (rust_string \<times> i64) list) \<times> decoder)" where
  "decode_pool_name = (\<lambda>(pools, names) d.
     let (i, d) = dec_i64 d; (name, d) = dec_string d in
     case map_of pools i of
       None \<Rightarrow> Inl (MapE_Malformed ''name for unknown pool'')
     | Some p \<Rightarrow>
         rbind (insert_new ''duplicate pool name'' name i names) (\<lambda>names.
         Inr ((AList.update i (p\<lparr>pool_name := name\<rparr>) pools, names), d)))"

definition decode_pool_names :: "(i64 \<times> pool) list \<Rightarrow> decoder \<Rightarrow> map_limits \<Rightarrow>
    map_error + (((i64 \<times> pool) list \<times> (rust_string \<times> i64) list) \<times> decoder)" where
  "decode_pool_names pools d limits =
     rbind (bounded_count d (ml_max_pools limits) 12) (\<lambda>(count, d).
     rbind (repeat_dec count decode_pool_name (pools, []) d) (\<lambda>((pools, names), d).
     if length names \<noteq> length pools then Inl (MapE_Malformed ''missing pool names'')
     else Inr ((pools, names), d)))"

definition decode_osd_client :: "decoder \<Rightarrow> map_limits \<Rightarrow> map_error + (osd_map \<times> decoder)" where
  "decode_osd_client d limits =
     rbind (decode_fsid d) (\<lambda>(uuid, d).
     let (epoch, d) = dec_u32 d; (created, d) = decode_utime d; (modified, d) = decode_utime d in
     rbind (decode_pools ''duplicate pool id'' d limits) (\<lambda>(pools, d).
     rbind (decode_pool_names pools d limits) (\<lambda>((pools, names), d).
     let (pool_max, d) = dec_i32 d; (flags, d) = dec_u32 d; (max_osd, d) = dec_i32 d in
     rbind (decode_u32_vector d (ml_max_osds limits)) (\<lambda>(states, d).
     rbind (decode_u32_vector d (ml_max_osds limits)) (\<lambda>(weights, d).
     rbind (decode_address_vector d limits) (\<lambda>(addresses, d).
     rbind (decode_pg_vector_map d limits) (\<lambda>(temps, d).
     rbind (decode_pg_int_map d limits) (\<lambda>(ptemps, d).
     rbind (decode_u32_vector d (ml_max_osds limits)) (\<lambda>(affinity, d).
     if max_osd < 0 then Inl (MapE_Malformed ''inconsistent OSD vectors'')
     else if max_osd > uint (ml_max_osds limits) \<or> length states \<noteq> nat max_osd \<or> length weights \<noteq> nat max_osd \<or>
       length addresses \<noteq> nat max_osd \<or> (affinity \<noteq> [] \<and> length affinity \<noteq> nat max_osd)
     then Inl (MapE_Malformed ''inconsistent OSD vectors'')
     else
       let (crush, d) = dec_lbytes d in
       rbind (check d) (\<lambda>_.
       rbind (decode_nested_string_map d (ml_max_collection_entries limits)) (\<lambda>(profiles, d).
       rbind (decode_pg_vector_map d limits) (\<lambda>(upmap, d).
       rbind (decode_pg_remap_items d limits) (\<lambda>(items, d).
       let (crush_version, d) = dec_u32 d in
       rbind (decode_pool_interval_map d limits) (\<lambda>(removed, d).
       rbind (decode_pool_interval_map d limits) (\<lambda>(purged, d).
       let (last_up, d) = decode_utime d; (last_in, d) = decode_utime d in
       rbind (decode_pg_int_map d limits) (\<lambda>(primaries, d).
       rbind (check d) (\<lambda>_.
       Inr (\<lparr>om_fsid = uuid, om_epoch = epoch, om_created = created, om_modified = modified, om_pools = pools,
         om_name_to_id = names, om_pool_max = pool_max, om_flags = flags, om_max_osd = max_osd,
         om_osd_state = states, om_osd_weight = weights, om_client_addresses = addresses, om_pg_temp = temps,
         om_primary_temp = ptemps, om_primary_affinity = affinity, om_crush_data = crush,
         om_erasure_code_profiles = profiles, om_pg_upmap = upmap, om_pg_upmap_items = items,
         om_crush_version = crush_version, om_new_removed_snapshots = removed, om_new_purged_snapshots = purged,
         om_last_up_change = last_up, om_last_in_change = last_in, om_pg_upmap_primaries = primaries,
         om_crc = 0, om_crc_verified = False, om_applied_incremental = False\<rparr>, d))))))))))))))))))"

text \<open>
  The slice \<open>data[..len - 4]\<close> cannot panic: the length was checked just before.
\<close>

definition decode_osdmap :: "(u32 \<Rightarrow> bytes \<Rightarrow> u32) \<Rightarrow> bytes \<Rightarrow> map_limits \<Rightarrow> map_error + osd_map" where
  "decode_osdmap crc32c_append data limits =
     rbind (validate_limits limits) (\<lambda>_.
     let ((wrapper_version, wrapper), d) = dec_versioned 8 (dec_new data (unat (ml_max_bytes limits))) in
     rbind (check d) (\<lambda>_.
     if wrapper_version < 8 then Inl (MapE_Wire (WE_UnsupportedVersion 8 8))
     else
       let ((client_version, client), wrapper) = dec_versioned 10 wrapper in
       rbind (check wrapper) (\<lambda>_.
       if client_version < 10 then Inl (MapE_Wire (WE_UnsupportedVersion 10 10))
       else
         rbind (decode_osd_client client limits) (\<lambda>(result, client).
         rbind (check client) (\<lambda>_.
         let ((_, extended), wrapper) = dec_versioned 12 wrapper in
         rbind (check wrapper) (\<lambda>_.
         rbind (check extended) (\<lambda>_.
         let (crc, wrapper) = dec_u32 wrapper in
         rbind (check wrapper) (\<lambda>_.
         rbind (check d) (\<lambda>_.
         if dec_remaining d \<noteq> 0 then Inl (MapE_Malformed ''trailing osdmap bytes'')
         else if length data < 10 then Inl (MapE_Wire WE_Malformed)
         else if crc32c crc32c_append U32_MAX (take (length data - 4) data) \<noteq> crc
         then Inl (MapE_Malformed ''osdmap CRC mismatch'')
         else Inr (result\<lparr>om_crc := crc, om_crc_verified := True\<rparr>))))))))))"

section \<open>What a decoded map satisfies\<close>

definition vectors_ok :: "osd_map \<Rightarrow> bool" where
  "vectors_ok m \<longleftrightarrow>
     length (om_osd_weight m) = length (om_osd_state m) \<and>
     length (om_client_addresses m) = length (om_osd_state m) \<and>
     (om_primary_affinity m = [] \<or> length (om_primary_affinity m) = length (om_osd_state m)) \<and>
     0 \<le> om_max_osd m \<and> length (om_osd_state m) = nat (om_max_osd m)"

definition pools_ok :: "osd_map \<Rightarrow> bool" where
  "pools_ok m \<longleftrightarrow> alist_inv (om_pools m) \<and> alist_inv (om_name_to_id m) \<and>
     (\<forall>i p. map_of (om_pools m) i = Some p \<longrightarrow> pool_id p = i \<and> pool_wf p) \<and>
     (\<forall>n i. map_of (om_name_to_id m) n = Some i \<longrightarrow> map_of (om_pools m) i \<noteq> None)"

definition osdmap_wf :: "osd_map \<Rightarrow> bool" where
  "osdmap_wf m \<longleftrightarrow> length (om_fsid m) = 16 \<and> vectors_ok m \<and> pools_ok m"

lemma decode_pools_ok:
  assumes "decode_pools reason d limits = Inr (pools, d')"
  shows "alist_inv pools \<and> (\<forall>i p. map_of pools i = Some p \<longrightarrow> pool_id p = i \<and> pool_wf p \<and> pool_name p = [])"
proof -
  obtain count d1 where "repeat_dec count (\<lambda>m d. let (i, d) = dec_i64 d in
       rbind (decode_pool d limits) (\<lambda>(p, d).
       rbind (insert_new reason i (p\<lparr>pool_id := i\<rparr>) m) (\<lambda>m. Inr (m, d)))) [] d1 = Inr (pools, d')"
    using assms by (fastforce simp: decode_pools_def)
  then show ?thesis
  proof (rule repeat_dec_inv, goal_cases)
    case 1
    then show ?case by (simp add: alist_inv_def)
  next
    case (2 m e m' e')
    then obtain i p k k' where p: "decode_pool k limits = Inr (p, k')"
        and m': "insert_new reason i (p\<lparr>pool_id := i\<rparr>) m = Inr m'"
      by (auto simp: Let_def split: prod.splits)
    have "pool_wf (p\<lparr>pool_id := i\<rparr>)" using decode_pool_wf(1) [OF p] by (simp add: pool_wf_def)
    then show ?case using 2(1) insert_new_inv [OF m'] insert_new_Inr(2) [OF m'] decode_pool_wf(3) [OF p]
      by (simp add: alist.map_of_ins)
  qed
qed

text \<open>Between two names: every pool is unnamed or found under its name.\<close>

definition naming :: "(i64 \<times> pool) list \<times> (rust_string \<times> i64) list \<Rightarrow> bool" where
  "naming = (\<lambda>(pools, names). alist_inv pools \<and> alist_inv names \<and>
     (\<forall>i p. map_of pools i = Some p \<longrightarrow> pool_id p = i \<and> pool_wf p \<and>
        (pool_name p = [] \<or> map_of names (pool_name p) = Some i)) \<and>
     (\<forall>n i. map_of names n = Some i \<longrightarrow> map_of pools i \<noteq> None))"

lemma naming_step:
  assumes "naming (pools, names)" "map_of pools i = Some p" "map_of names n = None"
  shows "naming (AList.update i (p\<lparr>pool_name := n\<rparr>) pools, AList.update n i names)"
proof -
  have "pool_wf (p\<lparr>pool_name := n\<rparr>)" using assms(1, 2) by (auto simp: naming_def pool_wf_def)
  moreover have "pool_name q \<noteq> n" if "map_of pools j = Some q" "pool_name q \<noteq> []" for j q
    using assms(1, 3) that by (fastforce simp: naming_def)
  ultimately show ?thesis using assms
    by (auto simp: naming_def alist.map_of_ins alist.inv_ins)
qed

lemma decode_pool_names_naming:
  assumes "decode_pool_names pools d limits = Inr ((pools', names), d')" "naming (pools, [])"
  shows "naming (pools', names) \<and> length names = length pools'"
proof -
  obtain count d1 where "repeat_dec count decode_pool_name (pools, []) d1 = Inr ((pools', names), d')"
      and len: "length names = length pools'"
    using assms(1) by (auto simp: decode_pool_names_def split: if_splits prod.splits)
  then have "naming (pools', names)"
  proof (elim repeat_dec_inv)
    show "naming s'" if "naming s" "decode_pool_name s e = Inr (s', e')" for s e s' e'
      using that by (auto simp: decode_pool_name_def insert_new_def split: prod.splits option.splits if_splits
          intro!: naming_step)
  qed (rule assms(2))
  then show ?thesis using len by simp
qed

lemma decode_fsid_length: "decode_fsid d = Inr (uuid, d') \<Longrightarrow> length uuid = 16"
  by (auto simp: decode_fsid_def split: prod.splits if_splits)

lemma naming_pools_ok:
  "naming (om_pools m, om_name_to_id m) \<Longrightarrow> pools_ok m"
  by (auto simp: naming_def pools_ok_def)

lemma decode_osd_client_parts:
  assumes "decode_osd_client d limits = Inr (m, d')"
  shows "length (om_fsid m) = 16 \<and> vectors_ok m \<and> naming (om_pools m, om_name_to_id m) \<and>
    length (om_name_to_id m) = length (om_pools m)"
proof -
  have names: "naming (ps', ns) \<and> length ns = length ps'"
    if "decode_pools r d1 limits = Inr (ps, d2)" "decode_pool_names ps d2 limits = Inr ((ps', ns), d3)" for r d1 d2 d3 ps ps' ns
  proof (rule decode_pool_names_naming [OF that(2)])
    show "naming (ps, [])" using decode_pools_ok [OF that(1)] by (simp add: naming_def alist_inv_def)
  qed
  show ?thesis using assms
    by (auto simp: decode_osd_client_def Let_def vectors_ok_def decode_fsid_length
        split: prod.splits if_splits) (use names in blast)+
qed

text \<open>The name index and the names of the pools agree.\<close>

definition names_ok :: "osd_map \<Rightarrow> bool" where
  "names_ok m \<longleftrightarrow> (\<forall>n i. map_of (om_name_to_id m) n = Some i \<longleftrightarrow>
     (\<exists>p. map_of (om_pools m) i = Some p \<and> pool_name p = n))"

lemma card_keys: "alist_inv m \<Longrightarrow> card (fst ` set m) = length m"
  unfolding alist_inv_def by (metis distinct_card length_map set_map)

lemma naming_complete:
  assumes n: "naming (om_pools m, om_name_to_id m)" and len: "length (om_name_to_id m) = length (om_pools m)"
    and named: "\<And>i p. map_of (om_pools m) i = Some p \<Longrightarrow> pool_name p \<noteq> []"
  shows "names_ok m"
proof -
  define nm where "nm i = pool_name (the (map_of (om_pools m) i))" for i
  let ?ids = "fst ` set (om_pools m)" and ?keys = "fst ` set (om_name_to_id m)"
  have pool: "\<exists>p. map_of (om_pools m) i = Some p" if "i \<in> ?ids" for i
    using that map_of_eq_None_iff [of "om_pools m" i] by fastforce
  have found: "map_of (om_name_to_id m) (nm i) = Some i" if i: "i \<in> ?ids" for i
  proof -
    obtain p where p: "map_of (om_pools m) i = Some p" using pool [OF i] by blast
    then have "pool_name p = [] \<or> map_of (om_name_to_id m) (pool_name p) = Some i" using n by (simp add: naming_def)
    then show ?thesis using named [OF p] p by (simp add: nm_def)
  qed
  then have "inj_on nm ?ids" by (intro inj_onI) (metis option.inject)
  then have "card (nm ` ?ids) = length (om_pools m)" using n card_keys [of "om_pools m"]
    by (simp add: card_image naming_def)
  moreover have "card ?keys = length (om_pools m)"
    using n len card_keys [of "om_name_to_id m"] by (simp add: naming_def)
  moreover have sub: "nm ` ?ids \<subseteq> ?keys"
  proof
    fix k assume "k \<in> nm ` ?ids"
    then obtain i where "map_of (om_name_to_id m) k = Some i" using found by blast
    then show "k \<in> ?keys" by (metis domI dom_map_of_conv_image_fst)
  qed
  ultimately have "nm ` ?ids = ?keys" by (intro card_subset_eq) simp_all
  note keys = this
  show ?thesis unfolding names_ok_def
  proof (intro allI iffI)
    fix k i
    assume k: "map_of (om_name_to_id m) k = Some i"
    then have "k \<in> ?keys" by (metis domI dom_map_of_conv_image_fst)
    then obtain j where j: "j \<in> ?ids" "k = nm j" using keys by blast
    then have "i = j" using found [OF j(1)] k by simp
    then show "\<exists>p. map_of (om_pools m) i = Some p \<and> pool_name p = k" using pool [OF j(1)] j(2) by (auto simp: nm_def)
  next
    fix k i
    assume "\<exists>p. map_of (om_pools m) i = Some p \<and> pool_name p = k"
    then obtain p where p: "map_of (om_pools m) i = Some p" "pool_name p = k" by blast
    then have "i \<in> ?ids" by (metis domI dom_map_of_conv_image_fst)
    from found [OF this] show "map_of (om_name_to_id m) k = Some i" using p by (simp add: nm_def)
  qed
qed

section \<open>A sample map\<close>

text \<open>One OSD that exists and is up, and one replicated pool.\<close>

definition sample_osd_client :: bytes where
  "sample_osd_client = replicate 16 9 @
     [7,0,0,0, 0,0,0,0, 0,0,0,0, 0,0,0,0, 0,0,0,0, 1,0,0,0, 1,0,0,0, 0,0,0,0, 5,5,64,0, 0,0,1,1, 0,2,8,0, 0,0,
      8,0, 0,0,0,0, 0,0,0,0, 0,0,0,0, 0,0,0,0, 0,0,0,0, 0,0,0,0, 0,0,0,0, 0,0,0,0, 0,0,0,0, 0,0,0,0, 0,0,1,0,
      0,0,0,0, 0,0,0,0, 0,0,1,0, 0,0,1,0, 0,0,0,0, 0,0,1,0, 0,0,97,1, 0,0,0,0, 0,0,0,1, 0,0,0,1, 0,0,0,3, 0,0,
      0,1, 0,0,0,0, 0,1,0,1, 0,0,0,2, 0,0,0,0, 0,0,0,0, 0,0,0,0, 0,0,0,0, 0,0,0,0, 0,0,0,0, 0,0,0,0, 0,0,0,0,
      0,0,0,0, 0,0,0,0, 0,0,0,0, 0,0,0,0, 0,0,0,0, 0,0,0,0, 0,0,0,0, 0,0,0,0]"

definition sample_map_limits :: map_limits where
  "sample_map_limits = \<lparr>ml_max_bytes = 1000, ml_max_monitors = 4, ml_max_addresses = 4, ml_max_locations = 4,
     ml_max_pools = 4, ml_max_osds = 4, ml_max_pg_mappings = 4, ml_max_collection_entries = 4\<rparr>"

definition sample_pool :: pool where
  "sample_pool = \<lparr>pool_id = 1, pool_name = [97], pool_type = 1, pool_size = 1, minimum_size = 1,
     pool_crush_rule = 0, object_hash_kind = 2, pg_count = 8, placement_pg_count = 8, stripe_width = 0,
     pool_flags = 1, snapshot_sequence = 0, pool_snapshots = [], erasure_code_profile = [],
     application_metadata = [], pool_options = []\<rparr>"

definition sample_osdmap :: osd_map where
  "sample_osdmap = \<lparr>om_fsid = replicate 16 9, om_epoch = 7, om_created = utime_default, om_modified = utime_default,
     om_pools = [(1, sample_pool)], om_name_to_id = [([97], 1)], om_pool_max = 1, om_flags = 0, om_max_osd = 1, om_osd_state = [3],
     om_osd_weight = [0x10000], om_client_addresses = [[]], om_pg_temp = [], om_primary_temp = [],
     om_primary_affinity = [], om_crush_data = [], om_erasure_code_profiles = [], om_pg_upmap = [],
     om_pg_upmap_items = [], om_crush_version = 0, om_new_removed_snapshots = [], om_new_purged_snapshots = [],
     om_last_up_change = utime_default, om_last_in_change = utime_default, om_pg_upmap_primaries = [],
     om_crc = 0, om_crc_verified = False, om_applied_incremental = False\<rparr>"

lemma dec_take_rdr:
  "n \<le> length xs \<Longrightarrow> dec_take n (rdr pre xs m) = (take n xs, rdr (pre @ take n xs) (drop n xs) m)"
  by (simp add: dec_take_def rdr_def)

lemma dec_raw_literal:
  "n \<le> Suc (length xs) \<Longrightarrow> dec_raw n (rdr pre (x # xs) m) = (take n (x # xs), rdr (pre @ take n (x # xs)) (drop n (x # xs)) m)"
  by (simp add: dec_raw_def dec_take_rdr)

lemma sample_client_decodes:
  "\<exists>d. decode_osd_client (rdr [] sample_osd_client 1000) sample_map_limits = Inr (sample_osdmap, d) \<and> dec_finish d = Inr ()"
  unfolding sample_osd_client_def
  by (simp add: decode_osd_client_def decode_fsid_def decode_utime_def decode_pools_def decode_pool_names_def
      bounded_count_def decode_u32_vector_def decode_u32s_def decode_list_def decode_address_vector_def addrvec_decode_def
      decode_pg_vector_map_def decode_pg_int_map_def decode_nested_string_map_def decode_pg_remap_items_def
      decode_pool_interval_map_def decode_map_def dec_lbytes_def dec_i32_def dec_eval from_le_bytes_def
      decode_pool_def dec_versioned_def dec_take_rdr dec_raw_literal decode_pool_snapshots_def decode_intervals_def consume_pool_tiers_def
      skip_if_def consume_if_def skip_pool_settings_def consume_pool_tail_def insert_new_def decode_pool_name_def
      dec_i64_def dec_string_def utf8_lossy.simps utf8_prefix.simps
      sample_map_limits_def sample_osdmap_def sample_pool_def utime_default_def)

lemma decode_osdmap_parts:
  assumes "decode_osdmap crc32c_append data limits = Inr m"
  shows "length (om_fsid m) = 16 \<and> vectors_ok m \<and> naming (om_pools m, om_name_to_id m) \<and>
    length (om_name_to_id m) = length (om_pools m) \<and> om_crc_verified m \<and>
    om_crc m = crc32c crc32c_append U32_MAX (take (length data - 4) data)"
  using assms
  by (auto simp: decode_osdmap_def Let_def vectors_ok_def split: prod.splits if_splits dest!: decode_osd_client_parts)

text \<open>C30: Every OSD map the decoder accepts is well formed: its per-OSD vectors all have the declared
  number of entries, every pool is stored under its own identifier with distinct snapshot names, every
  name refers to a pool, and the checksum of the bytes was verified.\<close>

theorem decode_osdmap_wf:
  assumes "decode_osdmap crc32c_append data limits = Inr m"
  shows "osdmap_wf m \<and> om_crc_verified m \<and>
    om_crc m = crc32c crc32c_append U32_MAX (take (length data - 4) data)"
  using decode_osdmap_parts [OF assms] naming_pools_ok by (simp add: osdmap_wf_def)

definition sample_osdmap_bytes :: bytes where
  "sample_osdmap_bytes = versioned_image 8 1
     (versioned_image 10 1 sample_osd_client @ versioned_image 1 1 [] @ [255,255,255,255])"

lemma sample_osdmap_decodes:
  "decode_osdmap (\<lambda>_ _. 0) sample_osdmap_bytes sample_map_limits =
     Inr (sample_osdmap\<lparr>om_crc := U32_MAX, om_crc_verified := True\<rparr>)"
proof -
  obtain d where d: "decode_osd_client (rdr [] sample_osd_client 1000) sample_map_limits = Inr (sample_osdmap, d)"
      "dec_finish d = Inr ()" using sample_client_decodes by blast
  have len: "length sample_osd_client = 232" by (simp add: sample_osd_client_def)
  have "ml_max_bytes sample_map_limits = 1000" "validate_limits sample_map_limits = Inr ()"
    by (simp_all add: sample_map_limits_def validate_limits_def)
  then show ?thesis using d
    by (simp add: decode_osdmap_def sample_osdmap_bytes_def length_versioned_image len dec_eval crc32c_def from_le_bytes_def)
qed

theorem decode_osdmap_wf_witness:
  "osdmap_wf (sample_osdmap\<lparr>om_crc := U32_MAX, om_crc_verified := True\<rparr>)"
  using decode_osdmap_wf [OF sample_osdmap_decodes] by simp

text \<open>C31: In every decoded map a lookup by name yields a pool of the map, stored under its own identifier,
  and a pool with a name is found under it.  If no pool is left without a name, a lookup finds exactly
  the pool that carries the name.\<close>

theorem decoded_pool_by_name:
  assumes "decode_osdmap crc32c_append data limits = Inr m"
  shows "(pool_by_name m name = Some p \<longrightarrow> pool_by_id m (pool_id p) = Some p) \<and>
    (pool_by_id m i = Some p \<and> pool_name p \<noteq> [] \<longrightarrow> pool_by_name m (pool_name p) = Some p) \<and>
    ((\<forall>j q. pool_by_id m j = Some q \<longrightarrow> pool_name q \<noteq> []) \<longrightarrow>
       (pool_by_name m name = Some p \<longleftrightarrow> pool_by_id m (pool_id p) = Some p \<and> pool_name p = name))"
proof -
  have n: "naming (om_pools m, om_name_to_id m)" and len: "length (om_name_to_id m) = length (om_pools m)"
    using decode_osdmap_parts [OF assms] by simp_all
  note ok = naming_pools_ok [OF n]
  have "names_ok m" if "\<forall>j q. pool_by_id m j = Some q \<longrightarrow> pool_name q \<noteq> []"
    using naming_complete [OF n len] that by (simp add: pool_by_id_def)
  then have "pool_by_name m name = Some p \<longleftrightarrow> pool_by_id m (pool_id p) = Some p \<and> pool_name p = name"
    if "\<forall>j q. pool_by_id m j = Some q \<longrightarrow> pool_name q \<noteq> []"
    using ok that by (auto simp: names_ok_def pools_ok_def pool_by_name_def pool_by_id_def bind_eq_Some_conv)
  moreover have "pool_by_name m name = Some p \<longrightarrow> pool_by_id m (pool_id p) = Some p"
    using ok by (auto simp: pools_ok_def pool_by_name_def pool_by_id_def bind_eq_Some_conv)
  moreover have "pool_by_id m i = Some p \<and> pool_name p \<noteq> [] \<longrightarrow> pool_by_name m (pool_name p) = Some p"
    using n by (fastforce simp: naming_def pool_by_name_def pool_by_id_def)
  ultimately show ?thesis by blast
qed

theorem decoded_pool_by_name_witness:
  "pool_by_name (sample_osdmap\<lparr>om_crc := U32_MAX, om_crc_verified := True\<rparr>) [97] = Some sample_pool"
  using decoded_pool_by_name [where name = "[97]" and p = sample_pool and i = 1, OF sample_osdmap_decodes]
  by (simp add: pool_by_id_def sample_osdmap_def sample_pool_def)

section \<open>Which name sections are accepted\<close>

definition name_image :: "i64 \<times> rust_string \<Rightarrow> bytes" where
  "name_image = (\<lambda>(i, name). to_le_bytes (word_of_int i :: u64) @ lbytes_image name)"

definition name_fits :: "usize \<Rightarrow> i64 \<times> rust_string \<Rightarrow> bool" where
  "name_fits maximum = (\<lambda>(i, name). i64_range i \<and> valid_utf8 name \<and> length name < 2 ^ 32 \<and> length name \<le> maximum)"

definition names_image :: "(i64 \<times> rust_string) list \<Rightarrow> bytes" where
  "names_image entries = to_le_bytes (of_nat (length entries) :: u32) @ concat (map name_image entries)"

lemma length_alist_update:
  "length (AList.update k v m) = (if map_of m k = None then Suc (length m) else length m)"
  by (induction m) (auto split: if_splits)

lemma decode_pool_name_image:
  assumes "name_fits maximum (i, name)"
  shows "decode_pool_name (pools, names) (rdr pre (name_image (i, name) @ rest) maximum) =
    (case map_of pools i of
       None \<Rightarrow> Inl (MapE_Malformed ''name for unknown pool'')
     | Some p \<Rightarrow> rbind (insert_new ''duplicate pool name'' name i names) (\<lambda>names.
         Inr ((AList.update i (p\<lparr>pool_name := name\<rparr>) pools, names), rdr (pre @ name_image (i, name)) rest maximum)))"
  using assms by (auto simp: decode_pool_name_def name_image_def name_fits_def split: option.split)

lemma decode_names_loop:
  assumes "list_all (name_fits maximum) entries"
  shows "if list_all (\<lambda>(i, name). map_of pools i \<noteq> None \<and> map_of names name = None) entries \<and> distinct (map snd entries)
    then \<exists>pools' names' d. repeat_dec (length entries) decode_pool_name (pools, names)
        (rdr pre (concat (map name_image entries) @ rest) maximum) = Inr ((pools', names'), d) \<and>
      length pools' = length pools \<and> length names' = length names + length entries
    else \<not> is_ok (repeat_dec (length entries) decode_pool_name (pools, names)
        (rdr pre (concat (map name_image entries) @ rest) maximum))"
  using assms
proof (induction entries arbitrary: pools names pre)
  case (Cons e es)
  obtain i name where e: "e = (i, name)" by fastforce
  show ?case
  proof (cases "map_of pools i = None \<or> map_of names name \<noteq> None")
    case True
    then show ?thesis using Cons.prems e
      by (auto simp: decode_pool_name_image insert_new_def split: option.splits)
  next
    case False
    then obtain p where p: "map_of pools i = Some p" "map_of names name = None" by auto
    let ?pools = "AList.update i (p\<lparr>pool_name := name\<rparr>) pools" and ?names = "AList.update name i names"
    have cond: "(list_all (\<lambda>(j, n). map_of ?pools j \<noteq> None \<and> map_of ?names n = None) es \<and> distinct (map snd es)) =
        (list_all (\<lambda>(j, n). map_of pools j \<noteq> None \<and> map_of names n = None) (e # es) \<and> distinct (map snd (e # es)))"
      using p e by (force simp: list_all_iff update_conv' split: if_splits)
    have lens: "length ?pools = length pools" "length ?names + length es = length names + length (e # es)"
      using p by (simp_all add: length_alist_update)
    have step: "repeat_dec (length (e # es)) decode_pool_name (pools, names) (rdr pre (concat (map name_image (e # es)) @ rest) maximum) =
        repeat_dec (length es) decode_pool_name (?pools, ?names) (rdr (pre @ name_image e) (concat (map name_image es) @ rest) maximum)"
      using Cons.prems p e by (simp add: decode_pool_name_image insert_new_def)
    have "list_all (name_fits maximum) es" using Cons.prems by simp
    from Cons.IH [OF this, of ?pools ?names "pre @ name_image e"] show ?thesis by (simp only: cond lens step)
  qed
qed simp

text \<open>C39: A section of pool names is accepted exactly if every entry names a known pool, no name occurs
  twice and there are as many entries as pools.  Nothing more is required: in particular a section
  that names one pool twice and another not at all is accepted, although its check reports missing
  names.\<close>

theorem pool_names_accepted:
  assumes "list_all (name_fits maximum) entries" "length entries \<le> unat (ml_max_pools limits)"
  shows "is_ok (decode_pool_names pools (rdr pre (names_image entries @ rest) maximum) limits) \<longleftrightarrow>
    list_all (\<lambda>(i, name). map_of pools i \<noteq> None) entries \<and> distinct (map snd entries) \<and> length entries = length pools"
proof -
  let ?d = "rdr (pre @ to_le_bytes (of_nat (length entries) :: u32)) (concat (map name_image entries) @ rest) maximum"
  have n: "unat (of_nat (length entries) :: u32) = length entries"
    using assms(2) unsigned_less [of "ml_max_pools limits", where 'a = nat] by (simp add: unat_of_nat)
  have "length entries * 12 \<le> length (concat (map name_image entries))"
    by (induction entries) (auto simp: name_image_def)
  then have count: "bounded_count (rdr pre (names_image entries @ rest) maximum) (ml_max_pools limits) 12 =
      Inr (length entries, ?d)"
    using n assms(2) by (simp add: bounded_count_def names_image_def word_less_nat_alt div_le_mono less_eq_div_iff_mult_less_eq)
  show ?thesis using decode_names_loop [OF assms(1), of pools "[]" "pre @ to_le_bytes (of_nat (length entries) :: u32)" rest]
    by (auto simp: decode_pool_names_def count list_all_iff is_ok_iff split: if_splits)
qed

theorem pool_names_accepted_witness:
  "is_ok (decode_pool_names [(1, sample_pool\<lparr>pool_name := []\<rparr>), (2, sample_pool\<lparr>pool_id := 2, pool_name := []\<rparr>)]
     (rdr [] (names_image [(1, [97]), (1, [98])] @ []) 100) sample_map_limits)"
  using pool_names_accepted [of 100 "[(1, [97]), (1, [98])]" sample_map_limits
      "[(1, sample_pool\<lparr>pool_name := []\<rparr>), (2, sample_pool\<lparr>pool_id := 2, pool_name := []\<rparr>)]" "[]" "[]"]
  by (simp add: name_fits_def i64_range_def utf8_1 utf8_nil sample_map_limits_def)

end
