(* ===== verification/Maps_Incremental.thy ===== *)
theory Maps_Incremental
  imports Maps_Osd
begin

text \<open>
  \<open>src/maps/incremental.rs\<close>: incremental OSD maps, their decoder and their application to a map.
  Indexing a vector out of range panics, so an application returns an option: None is a panic.  The
  loops over hash maps follow the order of the association lists.
\<close>

section \<open>Loops that may fail or panic\<close>

definition pbind :: "('e + 'a) option \<Rightarrow> ('a \<Rightarrow> ('e + 'b) option) \<Rightarrow> ('e + 'b) option" where
  "pbind r f = (case r of None \<Rightarrow> None | Some (Inl e) \<Rightarrow> Some (Inl e) | Some (Inr a) \<Rightarrow> f a)"

lemma pbind_simps [simp]:
  "pbind None f = None" "pbind (Some (Inl e)) f = Some (Inl e)" "pbind (Some (Inr a)) f = f a"
  by (simp_all add: pbind_def)

fun try_each :: "('x \<Rightarrow> 's \<Rightarrow> ('e + 's) option) \<Rightarrow> 'x list \<Rightarrow> 's \<Rightarrow> ('e + 's) option" where
  "try_each f [] s = Some (Inr s)"
| "try_each f (x # xs) s = pbind (f x s) (try_each f xs)"

text \<open>\<open>holds Q r\<close>: the computation does not panic, and if it succeeds its result satisfies \<open>Q\<close>.\<close>

definition holds :: "('a \<Rightarrow> bool) \<Rightarrow> ('e + 'a) option \<Rightarrow> bool" where
  "holds Q r \<longleftrightarrow> (\<exists>x. r = Some x \<and> (\<forall>a. x = Inr a \<longrightarrow> Q a))"

lemma holds_simps [simp]:
  "holds Q (Some (Inl e))" "holds Q (Some (Inr a)) \<longleftrightarrow> Q a" "\<not> holds Q None"
  by (simp_all add: holds_def)

lemma holds_pbind: "holds P r \<Longrightarrow> (\<And>a. P a \<Longrightarrow> holds Q (f a)) \<Longrightarrow> holds Q (pbind r f)"
  by (auto simp: holds_def pbind_def split: sum.splits)

lemma holds_mono: "holds P r \<Longrightarrow> (\<And>a. P a \<Longrightarrow> Q a) \<Longrightarrow> holds Q r"
  by (auto simp: holds_def)

lemma holds_try_each:
  assumes "\<And>x s. x \<in> set xs \<Longrightarrow> I s \<Longrightarrow> holds I (f x s)" "I s"
  shows "holds I (try_each f xs s)"
  using assms
proof (induction xs arbitrary: s)
  case (Cons x xs)
  show ?case unfolding try_each.simps
  proof (rule holds_pbind)
    show "holds I (f x s)" using Cons.prems by simp
  qed (use Cons in simp)
qed simp

section \<open>Incremental maps\<close>

definition DEFAULT_PRIMARY_AFFINITY :: u32 where "DEFAULT_PRIMARY_AFFINITY = 0x10000"

record osdmap_incremental =
  in_fsid :: fsid
  in_epoch :: u32
  in_modified :: utime
  in_new_pool_max :: i64
  in_new_flags :: i32
  in_full_map :: bytes
  in_crush_data :: bytes
  in_new_max_osd :: i32
  in_new_pools :: "(i64 \<times> pool) list"
  in_new_pool_names :: "(i64 \<times> rust_string) list"
  in_old_pools :: "i64 list"
  in_new_up_client :: "(i32 \<times> entity_addr_vec) list"
  in_new_state :: "(i32 \<times> u32) list"
  in_new_weight :: "(i32 \<times> u32) list"
  in_new_pg_temp :: "(pg \<times> i32 list) list"
  in_new_primary_temp :: "(pg \<times> i32) list"
  in_new_primary_affinity :: "(i32 \<times> u32) list"
  in_new_erasure_profiles :: "(rust_string \<times> string_map) list"
  in_old_erasure_profiles :: "rust_string list"
  in_new_pg_upmap :: "(pg \<times> i32 list) list"
  in_old_pg_upmap :: "pg list"
  in_new_pg_upmap_items :: "(pg \<times> osd_remap list) list"
  in_old_pg_upmap_items :: "pg list"
  in_new_removed_snapshots :: "(i64 \<times> interval list) list"
  in_new_purged_snapshots :: "(i64 \<times> interval list) list"
  in_new_last_up_change :: utime
  in_new_last_in_change :: utime
  in_new_pg_upmap_primaries :: "(pg \<times> i32) list"
  in_old_pg_upmap_primaries :: "pg list"
  in_incremental_crc :: u32
  in_full_crc :: u32

section \<open>Decoding\<close>

definition decode_int_address_map :: "decoder \<Rightarrow> map_limits \<Rightarrow> map_error + ((i32 \<times> entity_addr_vec) list \<times> decoder)" where
  "decode_int_address_map d limits =
     decode_map ''duplicate OSD address'' (\<lambda>d.
       let (osd, d) = dec_i32 d in
       rbind (map_err MapE_Wire (addrvec_decode d (ml_max_addresses limits))) (\<lambda>(as, d). Inr ((osd, as), d)))
       9 d (ml_max_osds limits)"

definition decode_int_u32_map :: "decoder \<Rightarrow> u32 \<Rightarrow> map_error + ((i32 \<times> u32) list \<times> decoder)" where
  "decode_int_u32_map d maximum =
     decode_map ''duplicate OSD value'' (\<lambda>d.
       let (key, d) = dec_i32 d; (v, d) = dec_u32 d in Inr ((key, v), d)) 8 d maximum"

text \<open>A list of distinct values: a \<open>HashSet\<close> remembers what was seen.\<close>

definition push_new :: "string \<Rightarrow> 'a \<Rightarrow> 'a list \<Rightarrow> map_error + 'a list" where
  "push_new reason x xs = (if x \<in> set xs then Inl (MapE_Malformed reason) else Inr (xs @ [x]))"

definition decode_pg_set :: "decoder \<Rightarrow> map_limits \<Rightarrow> map_error + (pg list \<times> decoder)" where
  "decode_pg_set d limits =
     rbind (bounded_count d (ml_max_pg_mappings limits) 17) (\<lambda>(count, d).
     rbind (repeat_dec count (\<lambda>xs d. rbind (decode_pg d) (\<lambda>(p, d).
       rbind (push_new ''duplicate PG set entry'' p xs) (\<lambda>xs. Inr (xs, d)))) [] d) (\<lambda>(xs, d).
     rbind (check d) (\<lambda>_. Inr (xs, d))))"

definition decode_renames :: "decoder \<Rightarrow> map_limits \<Rightarrow> map_error + ((i64 \<times> rust_string) list \<times> decoder)" where
  "decode_renames d limits =
     rbind (bounded_count d (ml_max_pools limits) 12) (\<lambda>(count, d).
     repeat_dec count (\<lambda>m d.
       let (i, d) = dec_i64 d; (name, d) = dec_string d in
       rbind (insert_new ''duplicate renamed pool'' i name m) (\<lambda>m. Inr (m, d))) [] d)"

definition decode_removed_pools :: "decoder \<Rightarrow> map_limits \<Rightarrow> map_error + (i64 list \<times> decoder)" where
  "decode_removed_pools d limits =
     rbind (bounded_count d (ml_max_pools limits) 8) (\<lambda>(count, d).
     repeat_dec count (\<lambda>xs d.
       let (i, d) = dec_i64 d in
       rbind (push_new ''duplicate removed pool'' i xs) (\<lambda>xs. Inr (xs, d))) [] d)"

definition decode_incremental_client :: "decoder \<Rightarrow> map_limits \<Rightarrow> map_error + (osdmap_incremental \<times> decoder)" where
  "decode_incremental_client d limits =
     rbind (decode_fsid d) (\<lambda>(uuid, d).
     let (epoch, d) = dec_u32 d; (modified, d) = decode_utime d; (pool_max, d) = dec_i64 d; (flags, d) = dec_i32 d;
         (full, d) = dec_lbytes d; (crush, d) = dec_lbytes d; (max_osd, d) = dec_i32 d in
     if max_osd \<ge> 0 \<and> max_osd > uint (ml_max_osds limits) then Inl (MapE_Wire WE_LimitExceeded)
     else
       rbind (decode_pools ''duplicate new pool'' d limits) (\<lambda>(pools, d).
       rbind (decode_renames d limits) (\<lambda>(names, d).
       rbind (decode_removed_pools d limits) (\<lambda>(old_pools, d).
       rbind (decode_int_address_map d limits) (\<lambda>(up_client, d).
       rbind (decode_int_u32_map d (ml_max_osds limits)) (\<lambda>(state, d).
       rbind (decode_int_u32_map d (ml_max_osds limits)) (\<lambda>(weight, d).
       rbind (decode_pg_vector_map d limits) (\<lambda>(temps, d).
       rbind (decode_pg_int_map d limits) (\<lambda>(ptemps, d).
       rbind (decode_int_u32_map d (ml_max_osds limits)) (\<lambda>(affinity, d).
       rbind (decode_nested_string_map d (ml_max_collection_entries limits)) (\<lambda>(profiles, d).
       rbind (decode_strings d (ml_max_collection_entries limits)) (\<lambda>(old_profiles, d).
       rbind (decode_pg_vector_map d limits) (\<lambda>(upmap, d).
       rbind (decode_pg_set d limits) (\<lambda>(old_upmap, d).
       rbind (decode_pg_remap_items d limits) (\<lambda>(items, d).
       rbind (decode_pg_set d limits) (\<lambda>(old_items, d).
       rbind (decode_pool_interval_map d limits) (\<lambda>(removed, d).
       rbind (decode_pool_interval_map d limits) (\<lambda>(purged, d).
       let (last_up, d) = decode_utime d; (last_in, d) = decode_utime d in
       rbind (decode_pg_int_map d limits) (\<lambda>(primaries, d).
       rbind (decode_pg_set d limits) (\<lambda>(old_primaries, d).
       rbind (check d) (\<lambda>_.
       Inr (\<lparr>in_fsid = uuid, in_epoch = epoch, in_modified = modified, in_new_pool_max = pool_max,
         in_new_flags = flags, in_full_map = full, in_crush_data = crush, in_new_max_osd = max_osd,
         in_new_pools = pools, in_new_pool_names = names, in_old_pools = old_pools, in_new_up_client = up_client,
         in_new_state = state, in_new_weight = weight, in_new_pg_temp = temps, in_new_primary_temp = ptemps,
         in_new_primary_affinity = affinity, in_new_erasure_profiles = profiles,
         in_old_erasure_profiles = old_profiles, in_new_pg_upmap = upmap, in_old_pg_upmap = old_upmap,
         in_new_pg_upmap_items = items, in_old_pg_upmap_items = old_items, in_new_removed_snapshots = removed,
         in_new_purged_snapshots = purged, in_new_last_up_change = last_up, in_new_last_in_change = last_in,
         in_new_pg_upmap_primaries = primaries, in_old_pg_upmap_primaries = old_primaries,
         in_incremental_crc = 0, in_full_crc = 0\<rparr>, d))))))))))))))))))))))"

definition decode_osdmap_incremental :: "(u32 \<Rightarrow> bytes \<Rightarrow> u32) \<Rightarrow> bytes \<Rightarrow> map_limits \<Rightarrow> map_error + osdmap_incremental" where
  "decode_osdmap_incremental crc32c_append data limits =
     rbind (validate_limits limits) (\<lambda>_.
     let ((version, wrapper), d) = dec_versioned 8 (dec_new data (unat (ml_max_bytes limits))) in
     rbind (check d) (\<lambda>_.
     if version < 8 then Inl (MapE_Wire (WE_UnsupportedVersion 8 8))
     else
       let ((client_version, client), wrapper) = dec_versioned 9 wrapper in
       rbind (check wrapper) (\<lambda>_.
       if client_version < 9 then Inl (MapE_Wire (WE_UnsupportedVersion 9 9))
       else
         rbind (decode_incremental_client client limits) (\<lambda>(result, client).
         rbind (check client) (\<lambda>_.
         let ((_, extended), wrapper) = dec_versioned 12 wrapper in
         rbind (check wrapper) (\<lambda>_.
         rbind (check extended) (\<lambda>_.
         let (incremental_crc, wrapper) = dec_u32 wrapper; (full_crc, wrapper) = dec_u32 wrapper in
         rbind (check wrapper) (\<lambda>_.
         rbind (check d) (\<lambda>_.
         if dec_remaining d \<noteq> 0 \<or> length data < 14 then Inl (MapE_Malformed ''trailing or short incremental'')
         else if crc32c crc32c_append (crc32c crc32c_append U32_MAX (take (length data - 8) data))
             (drop (length data - 8 + 4) data) \<noteq> incremental_crc
         then Inl (MapE_Malformed ''incremental CRC mismatch'')
         else Inr (result\<lparr>in_incremental_crc := incremental_crc, in_full_crc := full_crc\<rparr>))))))))))"

section \<open>Application\<close>

definition vec_resize :: "usize \<Rightarrow> 'a \<Rightarrow> 'a list \<Rightarrow> 'a list" where
  "vec_resize n v xs = take n xs @ replicate (n - length xs) v"

definition resize_osds :: "usize \<Rightarrow> osd_map \<Rightarrow> osd_map" where
  "resize_osds n m = m\<lparr>
     om_osd_state := vec_resize n 0 (om_osd_state m), om_osd_weight := vec_resize n 0 (om_osd_weight m),
     om_primary_affinity := (if om_primary_affinity m = [] then []
       else vec_resize n DEFAULT_PRIMARY_AFFINITY (om_primary_affinity m)),
     om_client_addresses := vec_resize n [] (om_client_addresses m)\<rparr>"

definition ensure_primary_affinity :: "osd_map \<Rightarrow> osd_map" where
  "ensure_primary_affinity m =
     (if om_primary_affinity m = []
      then m\<lparr>om_primary_affinity := vec_resize (length (om_osd_state m)) DEFAULT_PRIMARY_AFFINITY []\<rparr> else m)"

definition valid_osd :: "osd_map \<Rightarrow> i32 \<Rightarrow> map_error + usize" where
  "valid_osd m osd =
     (if 0 \<le> osd \<and> nat osd < length (om_osd_state m) then Inr (nat osd)
      else Inl (MapE_Malformed ''OSD outside map size''))"

definition apply_pg_vectors :: "bool \<Rightarrow> (pg \<times> i32 list) list \<Rightarrow> (pg \<times> i32 list) list \<Rightarrow> (pg \<times> i32 list) list" where
  "apply_pg_vectors empty_deletes changes target =
     fold (\<lambda>(p, vs) target. if empty_deletes \<and> vs = [] then AList.delete p target else AList.update p vs target)
       changes target"

definition apply_pg_ints :: "i32 \<Rightarrow> (pg \<times> i32) list \<Rightarrow> (pg \<times> i32) list \<Rightarrow> (pg \<times> i32) list" where
  "apply_pg_ints deleted changes target =
     fold (\<lambda>(p, v) target. if v = deleted then AList.delete p target else AList.update p v target) changes target"

definition insert_all :: "('k \<times> 'v) list \<Rightarrow> ('k \<times> 'v) list \<Rightarrow> ('k \<times> 'v) list" where
  "insert_all changes target = fold (\<lambda>(k, v). AList.update k v) changes target"

definition remove_all :: "'k list \<Rightarrow> ('k \<times> 'v) list \<Rightarrow> ('k \<times> 'v) list" where
  "remove_all keys target = fold AList.delete keys target"

definition apply_new_pool :: "i64 \<times> pool \<Rightarrow> osd_map \<Rightarrow> osd_map" where
  "apply_new_pool = (\<lambda>(i, p) m.
     m\<lparr>om_pools := AList.update i
       (case map_of (om_pools m) i of None \<Rightarrow> p | Some old \<Rightarrow> p\<lparr>pool_name := pool_name old\<rparr>) (om_pools m)\<rparr>)"

definition rename_pool :: "i64 \<times> rust_string \<Rightarrow> osd_map \<Rightarrow> (map_error + osd_map) option" where
  "rename_pool = (\<lambda>(i, name) m.
     case map_of (om_pools m) i of
       None \<Rightarrow> Some (Inl (MapE_Malformed ''rename for unknown pool''))
     | Some p \<Rightarrow>
         if (case map_of (om_name_to_id m) name of None \<Rightarrow> False | Some old \<Rightarrow> old \<noteq> i)
         then Some (Inl (MapE_Malformed ''duplicate pool name''))
         else Some (Inr (m\<lparr>
           om_name_to_id := AList.update name i (AList.delete (pool_name p) (om_name_to_id m)),
           om_pools := AList.update i (p\<lparr>pool_name := name\<rparr>) (om_pools m)\<rparr>)))"

definition remove_pool :: "i64 \<Rightarrow> osd_map \<Rightarrow> osd_map" where
  "remove_pool i m =
     (case map_of (om_pools m) i of
        None \<Rightarrow> m
      | Some p \<Rightarrow> m\<lparr>om_pools := AList.delete i (om_pools m),
          om_name_to_id := AList.delete (pool_name p) (om_name_to_id m)\<rparr>)"

text \<open>Writes to the per-OSD vectors.\<close>

definition set_state :: "usize \<Rightarrow> u32 \<Rightarrow> osd_map \<Rightarrow> (map_error + osd_map) option" where
  "set_state i v m = map_option (\<lambda>xs. Inr (m\<lparr>om_osd_state := xs\<rparr>)) (list_set (om_osd_state m) i v)"

definition set_weight :: "usize \<Rightarrow> u32 \<Rightarrow> osd_map \<Rightarrow> (map_error + osd_map) option" where
  "set_weight i v m = map_option (\<lambda>xs. Inr (m\<lparr>om_osd_weight := xs\<rparr>)) (list_set (om_osd_weight m) i v)"

definition set_affinity :: "usize \<Rightarrow> u32 \<Rightarrow> osd_map \<Rightarrow> (map_error + osd_map) option" where
  "set_affinity i v m = map_option (\<lambda>xs. Inr (m\<lparr>om_primary_affinity := xs\<rparr>)) (list_set (om_primary_affinity m) i v)"

definition set_addresses :: "usize \<Rightarrow> entity_addr_vec \<Rightarrow> osd_map \<Rightarrow> (map_error + osd_map) option" where
  "set_addresses i v m = map_option (\<lambda>xs. Inr (m\<lparr>om_client_addresses := xs\<rparr>)) (list_set (om_client_addresses m) i v)"

definition apply_weight :: "i32 \<times> u32 \<Rightarrow> osd_map \<Rightarrow> (map_error + osd_map) option" where
  "apply_weight = (\<lambda>(osd, weight) m.
     pbind (Some (valid_osd m osd)) (\<lambda>i.
     pbind (set_weight i weight m) (\<lambda>m.
     if weight \<noteq> 0 then
       Option.bind (list_get (om_osd_state m) i) (\<lambda>state. set_state i (state AND NOT (push_bit 2 1 OR push_bit 3 1)) m)
     else Some (Inr m))))"

definition apply_affinity :: "i32 \<times> u32 \<Rightarrow> osd_map \<Rightarrow> (map_error + osd_map) option" where
  "apply_affinity = (\<lambda>(osd, affinity) m.
     pbind (Some (valid_osd m osd)) (\<lambda>i. set_affinity i affinity (ensure_primary_affinity m)))"

definition apply_state :: "i32 \<times> u32 \<Rightarrow> osd_map \<Rightarrow> (map_error + osd_map) option" where
  "apply_state = (\<lambda>(osd, state_value) m.
     pbind (Some (valid_osd m osd)) (\<lambda>i.
     let state = (if state_value = 0 then push_bit 1 1 else state_value) in
     Option.bind (list_get (om_osd_state m) i) (\<lambda>old.
     if old AND 1 \<noteq> 0 \<and> state AND 1 \<noteq> 0 then
       pbind (set_state i 0 m) (\<lambda>m.
       pbind (set_affinity i DEFAULT_PRIMARY_AFFINITY (ensure_primary_affinity m)) (set_addresses i []))
     else set_state i (old XOR state) m)))"

definition apply_up_client :: "i32 \<times> entity_addr_vec \<Rightarrow> osd_map \<Rightarrow> (map_error + osd_map) option" where
  "apply_up_client = (\<lambda>(osd, addresses) m.
     pbind (Some (valid_osd m osd)) (\<lambda>i.
     Option.bind (list_get (om_osd_state m) i) (\<lambda>state.
     pbind (set_state i ((state OR 3) AND NOT (push_bit 12 1)) m) (set_addresses i addresses))))"

text \<open>The scalar fields, and the placement overrides.\<close>

definition apply_scalars :: "osdmap_incremental \<Rightarrow> osd_map \<Rightarrow> osd_map" where
  "apply_scalars inc m =
     (let m = m\<lparr>om_epoch := in_epoch inc, om_modified := in_modified inc, om_crc := in_full_crc inc,
                om_crc_verified := False, om_applied_incremental := True\<rparr>;
          m = (if in_new_pool_max inc \<noteq> -1 then m\<lparr>om_pool_max := in_new_pool_max inc\<rparr> else m);
          m = (if in_new_flags inc \<ge> 0 then m\<lparr>om_flags := word_of_int (in_new_flags inc)\<rparr> else m) in
      if in_new_max_osd inc \<ge> 0
      then resize_osds (nat (in_new_max_osd inc)) (m\<lparr>om_max_osd := in_new_max_osd inc\<rparr>) else m)"

definition apply_crush :: "osdmap_incremental \<Rightarrow> osd_map \<Rightarrow> (map_error + osd_map) option" where
  "apply_crush inc m =
     (if in_crush_data inc = [] then Some (Inr m)
      else if om_crush_version m = U32_MAX then Some (Inl MapE_InvalidSequence)
      else Some (Inr (m\<lparr>om_crush_data := in_crush_data inc, om_crush_version := om_crush_version m + 1\<rparr>)))"

definition apply_overrides :: "osdmap_incremental \<Rightarrow> osd_map \<Rightarrow> osd_map" where
  "apply_overrides inc m = m\<lparr>
     om_pg_temp := apply_pg_vectors True (in_new_pg_temp inc) (om_pg_temp m),
     om_primary_temp := apply_pg_ints (-1) (in_new_primary_temp inc) (om_primary_temp m),
     om_erasure_code_profiles := insert_all (in_new_erasure_profiles inc)
       (remove_all (in_old_erasure_profiles inc) (om_erasure_code_profiles m)),
     om_pg_upmap := remove_all (in_old_pg_upmap inc) (apply_pg_vectors False (in_new_pg_upmap inc) (om_pg_upmap m)),
     om_pg_upmap_items := remove_all (in_old_pg_upmap_items inc)
       (insert_all (in_new_pg_upmap_items inc) (om_pg_upmap_items m)),
     om_new_removed_snapshots := in_new_removed_snapshots inc,
     om_new_purged_snapshots := in_new_purged_snapshots inc,
     om_last_up_change := (if in_new_last_up_change inc \<noteq> utime_default then in_new_last_up_change inc
       else om_last_up_change m),
     om_last_in_change := (if in_new_last_in_change inc \<noteq> utime_default then in_new_last_in_change inc
       else om_last_in_change m),
     om_pg_upmap_primaries := remove_all (in_old_pg_upmap_primaries inc)
       (insert_all (in_new_pg_upmap_primaries inc) (om_pg_upmap_primaries m))\<rparr>"

definition apply_changes :: "osdmap_incremental \<Rightarrow> osd_map \<Rightarrow> (map_error + osd_map) option" where
  "apply_changes inc m =
     pbind (apply_crush inc (apply_scalars inc m)) (\<lambda>m.
     pbind (try_each rename_pool (in_new_pool_names inc) (fold apply_new_pool (in_new_pools inc) m)) (\<lambda>m.
     pbind (try_each apply_weight (in_new_weight inc) (fold remove_pool (in_old_pools inc) m)) (\<lambda>m.
     pbind (try_each apply_affinity (in_new_primary_affinity inc) m) (\<lambda>m.
     pbind (try_each apply_state (in_new_state inc) m) (\<lambda>m.
     pbind (try_each apply_up_client (in_new_up_client inc) m) (\<lambda>m.
     let m = apply_overrides inc m in
     if list_ex (\<lambda>(_, p). pool_name p = []) (om_pools m) then Some (Inl (MapE_Malformed ''pool has no name''))
     else Some (Inr m)))))))"

definition apply_osdmap_incremental :: "(u32 \<Rightarrow> bytes \<Rightarrow> u32) \<Rightarrow> osd_map \<Rightarrow> osdmap_incremental \<Rightarrow> map_limits \<Rightarrow>
    (map_error + osd_map) option" where
  "apply_osdmap_incremental crc32c_append current inc limits =
     (if in_fsid inc \<noteq> om_fsid current then Some (Inl MapE_FsidMismatch)
      else if om_epoch current = U32_MAX \<or> in_epoch inc \<noteq> om_epoch current + 1 then Some (Inl MapE_InvalidSequence)
      else if in_full_map inc \<noteq> [] then
        Some (rbind (decode_osdmap crc32c_append (in_full_map inc) limits) (\<lambda>replacement.
          if om_fsid replacement \<noteq> om_fsid current \<or> om_epoch replacement \<noteq> in_epoch inc \<or>
             om_crc replacement \<noteq> in_full_crc inc
          then Inl (MapE_Malformed ''replacement full map identity or CRC mismatch'')
          else Inr replacement))
      else apply_changes inc current)"

section \<open>Application never panics\<close>

lemma length_vec_resize [simp]: "length (vec_resize n v xs) = n"
  by (simp add: vec_resize_def)

lemma vec_resize_Nil: "vec_resize n v xs = [] \<longleftrightarrow> n = 0"
  by (metis length_0_conv length_vec_resize)

text \<open>The vectors agree, and the identity of the map is that of the target.\<close>

definition sized :: "fsid \<Rightarrow> u32 \<Rightarrow> osd_map \<Rightarrow> bool" where
  "sized uuid epoch m \<longleftrightarrow> vectors_ok m \<and> om_fsid m = uuid \<and> om_epoch m = epoch"

lemma sized_scalars: "vectors_ok m \<Longrightarrow> sized (om_fsid m) (in_epoch inc) (apply_scalars inc m)"
  by (auto simp: sized_def vectors_ok_def apply_scalars_def resize_osds_def Let_def)

lemma sized_crush: "sized u e m \<Longrightarrow> holds (sized u e) (apply_crush inc m)"
  by (auto simp: apply_crush_def sized_def vectors_ok_def)

lemma sized_frame:
  "sized u e m \<Longrightarrow> sized u e (apply_new_pool x m)" "sized u e m \<Longrightarrow> sized u e (remove_pool i m)"
  "sized u e m \<Longrightarrow> holds (sized u e) (rename_pool y m)" "sized u e m \<Longrightarrow> sized u e (apply_overrides inc m)"
  by (auto simp: sized_def vectors_ok_def apply_new_pool_def remove_pool_def rename_pool_def apply_overrides_def
      split: prod.splits option.splits)

lemma sized_fold: "(\<And>x m. sized u e m \<Longrightarrow> sized u e (f x m)) \<Longrightarrow> sized u e m \<Longrightarrow> sized u e (fold f xs m)"
  by (induction xs arbitrary: m) simp_all

lemma valid_osd_cases:
  obtains (Valid) i where "valid_osd m osd = Inr i" "i < length (om_osd_state m)"
  | (Invalid) e where "valid_osd m osd = Inl e"
  by (cases "0 \<le> osd \<and> nat osd < length (om_osd_state m)") (auto simp: valid_osd_def)

lemma ensure_affinity_length:
  "vectors_ok m \<Longrightarrow> length (om_primary_affinity (ensure_primary_affinity m)) = length (om_osd_state m)"
  by (auto simp: ensure_primary_affinity_def vectors_ok_def)

lemma ensure_affinity_frame [simp]:
  "om_osd_state (ensure_primary_affinity m) = om_osd_state m" "om_osd_weight (ensure_primary_affinity m) = om_osd_weight m"
  "om_client_addresses (ensure_primary_affinity m) = om_client_addresses m"
  "om_max_osd (ensure_primary_affinity m) = om_max_osd m" "om_fsid (ensure_primary_affinity m) = om_fsid m"
  "om_epoch (ensure_primary_affinity m) = om_epoch m"
  by (simp_all add: ensure_primary_affinity_def)

text \<open>A write to a vector at an index below its length keeps every size.\<close>

lemma sized_writes:
  assumes "sized u e m" "i < length (om_osd_state m)"
  shows "holds (\<lambda>m'. sized u e m' \<and> i < length (om_osd_state m')) (set_state i v m)"
    "holds (\<lambda>m'. sized u e m' \<and> i < length (om_osd_state m')) (set_weight i v m)"
    "holds (\<lambda>m'. sized u e m' \<and> i < length (om_osd_state m')) (set_affinity i v (ensure_primary_affinity m))"
    "holds (\<lambda>m'. sized u e m' \<and> i < length (om_osd_state m')) (set_addresses i as m)"
  using assms ensure_affinity_length [of m]
  by (auto simp: sized_def vectors_ok_def set_state_def set_weight_def set_affinity_def set_addresses_def list_set_def)

lemma holds_conj1: "holds (\<lambda>a. P a \<and> Q a) r \<Longrightarrow> holds P r"
  by (auto simp: holds_def)

lemma sized_steps:
  assumes s: "sized u e m"
  shows "holds (sized u e) (apply_weight x m)" "holds (sized u e) (apply_affinity x m)"
    "holds (sized u e) (apply_state x m)" "holds (sized u e) (apply_up_client y m)"
proof -
  obtain osd v where x: "x = (osd, v)" by fastforce
  obtain osd' as where y: "y = (osd', as)" by fastforce
  note get = list_get_def
  show "holds (sized u e) (apply_weight x m)"
  proof (cases rule: valid_osd_cases [of m osd])
    case (Valid i)
    show ?thesis unfolding apply_weight_def x using Valid
      by (auto simp: get intro!: holds_pbind [OF sized_writes(2) [OF s]] holds_conj1 [OF sized_writes(1)])
  qed (simp add: apply_weight_def x)
  show "holds (sized u e) (apply_affinity x m)"
  proof (cases rule: valid_osd_cases [of m osd])
    case (Valid i)
    show ?thesis unfolding apply_affinity_def x using Valid
      by (auto intro!: holds_conj1 [OF sized_writes(3) [OF s]])
  qed (simp add: apply_affinity_def x)
  show "holds (sized u e) (apply_state x m)"
  proof (cases rule: valid_osd_cases [of m osd])
    case (Valid i)
    have reset: "holds (sized u e) (pbind (set_state i 0 m) (\<lambda>m.
        pbind (set_affinity i DEFAULT_PRIMARY_AFFINITY (ensure_primary_affinity m)) (set_addresses i [])))"
      using Valid(2) by (auto intro!: holds_pbind [OF sized_writes(1) [OF s]] holds_pbind [OF sized_writes(3)]
          holds_conj1 [OF sized_writes(4)])
    show ?thesis unfolding apply_state_def x using Valid reset holds_conj1 [OF sized_writes(1) [OF s Valid(2)]]
      by (simp add: get Let_def)
  qed (simp add: apply_state_def x)
  show "holds (sized u e) (apply_up_client y m)"
  proof (cases rule: valid_osd_cases [of m osd'])
    case (Valid i)
    show ?thesis unfolding apply_up_client_def y using Valid
      by (auto simp: get intro!: holds_pbind [OF sized_writes(1) [OF s]] holds_conj1 [OF sized_writes(4)])
  qed (simp add: apply_up_client_def y)
qed

lemma apply_changes_sized:
  assumes "vectors_ok m"
  shows "holds (sized (om_fsid m) (in_epoch inc)) (apply_changes inc m)"
proof -
  let ?S = "sized (om_fsid m) (in_epoch inc)"
  note each = holds_try_each [where I = ?S]
  have final: "holds ?S (let m = apply_overrides inc m' in
     if list_ex (\<lambda>(_, p). pool_name p = []) (om_pools m) then Some (Inl (MapE_Malformed ''pool has no name''))
     else Some (Inr m))" if "?S m'" for m'
    using sized_frame(4) [OF that, of inc] by (simp add: Let_def)
  show ?thesis unfolding apply_changes_def
    by (rule holds_pbind [OF sized_crush [OF sized_scalars [OF assms]]]
        | rule holds_pbind [OF each] | rule sized_frame(3) | rule sized_steps | erule final
        | rule sized_fold | rule sized_frame(1) sized_frame(2) | assumption)+
qed

text \<open>C28: Applying an incremental map to a map with consistent vectors never panics, and what it returns
  has consistent vectors, the same cluster identity and the next epoch.\<close>

theorem apply_incremental_safe:
  assumes "vectors_ok current"
  shows "\<exists>r. apply_osdmap_incremental crc32c_append current inc limits = Some r \<and>
    (\<forall>next. r = Inr next \<longrightarrow> vectors_ok next \<and> om_fsid next = om_fsid current \<and>
       unat (om_epoch next) = unat (om_epoch current) + 1)"
proof -
  have succ: "unat (e + 1) = unat e + 1" if "e \<noteq> U32_MAX" for e :: u32
    using unat_Suc_less [of e U32_MAX] that word_order.not_eq_extremum [of e] by simp
  let ?Q = "\<lambda>next. vectors_ok next \<and> om_fsid next = om_fsid current \<and> unat (om_epoch next) = unat (om_epoch current) + 1"
  have "holds ?Q (apply_changes inc current)" if "om_epoch current \<noteq> U32_MAX" "in_epoch inc = om_epoch current + 1"
    using that succ by (intro holds_mono [OF apply_changes_sized [OF assms]]) (simp add: sized_def)
  then have "holds ?Q (apply_osdmap_incremental crc32c_append current inc limits)"
    using decode_osdmap_parts [of crc32c_append "in_full_map inc" limits] succ
    by (auto simp: apply_osdmap_incremental_def holds_def rbind_Inr_iff split: if_splits)
  then show ?thesis by (simp add: holds_def)
qed

section \<open>Application keeps the pool index\<close>

text \<open>
  While pools are added and renamed, a pool may have no name yet: the index contains only names that
  pools carry, and every name but the empty one that a pool carries.
\<close>

definition index_ok :: "(i64 \<rightharpoonup> pool) \<Rightarrow> (rust_string \<rightharpoonup> i64) \<Rightarrow> bool" where
  "index_ok P N \<longleftrightarrow>
     (\<forall>n i. N n = Some i \<longrightarrow> (\<exists>p. P i = Some p \<and> pool_name p = n)) \<and>
     (\<forall>i p. P i = Some p \<longrightarrow> pool_name p \<noteq> [] \<longrightarrow> N (pool_name p) = Some i)"

definition indexed :: "osd_map \<Rightarrow> bool" where
  "indexed m \<longleftrightarrow> alist_inv (om_pools m) \<and> alist_inv (om_name_to_id m) \<and>
     (\<forall>i p. map_of (om_pools m) i = Some p \<longrightarrow> pool_id p = i \<and> pool_wf p) \<and>
     index_ok (map_of (om_pools m)) (map_of (om_name_to_id m))"

lemma index_okD:
  assumes "index_ok P N"
  shows "N n = Some i \<Longrightarrow> \<exists>p. P i = Some p \<and> pool_name p = n"
    and "P i = Some p \<Longrightarrow> pool_name p \<noteq> [] \<Longrightarrow> N (pool_name p) = Some i"
  using assms by (simp_all add: index_ok_def)

lemma index_ok_named:
  assumes "index_ok P N" "P i = Some p" "P j = Some q" "pool_name p = pool_name q" "pool_name p \<noteq> []"
  shows "i = j"
  using index_okD(2) [OF assms(1, 2)] index_okD(2) [OF assms(1, 3)] assms(4, 5) by simp

lemma index_ok_set:
  assumes ok: "index_ok P N" and "pool_name p = (case P i of None \<Rightarrow> [] | Some q \<Rightarrow> pool_name q)"
  shows "index_ok (P(i \<mapsto> p)) N"
  unfolding index_ok_def
proof (intro conjI allI impI)
  fix n j
  assume "N n = Some j"
  then obtain q where "P j = Some q" "pool_name q = n" using index_okD(1) [OF ok] by blast
  then show "\<exists>q. (P(i \<mapsto> p)) j = Some q \<and> pool_name q = n" using assms(2) by (cases "j = i") auto
next
  fix j q
  assume "(P(i \<mapsto> p)) j = Some q" "pool_name q \<noteq> []"
  then show "N (pool_name q) = Some j"
    using assms(2) index_okD(2) [OF ok] by (cases "j = i") (auto split: option.splits)
qed

lemma index_ok_rename:
  assumes ok: "index_ok P N" and p: "P i = Some p" and free: "N name = None \<or> N name = Some i"
  shows "index_ok (P(i \<mapsto> p\<lparr>pool_name := name\<rparr>)) ((N(pool_name p := None))(name \<mapsto> i))"
  unfolding index_ok_def
proof (intro conjI allI impI)
  fix n j
  assume n: "((N(pool_name p := None))(name \<mapsto> i)) n = Some j"
  show "\<exists>q. (P(i \<mapsto> p\<lparr>pool_name := name\<rparr>)) j = Some q \<and> pool_name q = n"
  proof (cases "n = name")
    case False
    then have "N n = Some j" "n \<noteq> pool_name p" using n by (auto split: if_splits)
    then show ?thesis using index_okD(1) [OF ok, of n j] p by (cases "j = i") auto
  qed (use n in simp)
next
  fix j q
  assume q: "(P(i \<mapsto> p\<lparr>pool_name := name\<rparr>)) j = Some q" "pool_name q \<noteq> []"
  show "((N(pool_name p := None))(name \<mapsto> i)) (pool_name q) = Some j"
  proof (cases "j = i")
    case False
    then have "P j = Some q" using q(1) by simp
    then have "N (pool_name q) = Some j" "pool_name q \<noteq> pool_name p"
      using index_okD(2) [OF ok] q(2) index_ok_named [OF ok _ p] False by blast+
    then show ?thesis using free False by auto
  qed (use q in auto)
qed

lemma index_ok_remove:
  assumes ok: "index_ok P N" and p: "P i = Some p"
  shows "index_ok (P(i := None)) (N(pool_name p := None))"
  unfolding index_ok_def
proof (intro conjI allI impI)
  fix n j
  assume "(N(pool_name p := None)) n = Some j"
  then have "N n = Some j" "n \<noteq> pool_name p" by (auto split: if_splits)
  then show "\<exists>q. (P(i := None)) j = Some q \<and> pool_name q = n"
    using index_okD(1) [OF ok, of n j] p by (cases "j = i") auto
next
  fix j q
  assume "(P(i := None)) j = Some q" "pool_name q \<noteq> []"
  then have "P j = Some q" "j \<noteq> i" "pool_name q \<noteq> []" by (auto split: if_splits)
  then show "(N(pool_name p := None)) (pool_name q) = Some j"
    using index_okD(2) [OF ok, of j q] index_ok_named [OF ok _ p, of j q] by auto
qed

lemma indexed_start: "names_ok m \<Longrightarrow> pools_ok m \<Longrightarrow> indexed m"
  by (auto simp: names_ok_def pools_ok_def indexed_def index_ok_def)

lemma indexed_finish:
  assumes "indexed m" "\<not> list_ex (\<lambda>(_, p). pool_name p = []) (om_pools m)"
  shows "names_ok m \<and> pools_ok m"
proof -
  have named: "pool_name p \<noteq> []" if "map_of (om_pools m) i = Some p" for i p
    using assms(2) map_of_SomeD [OF that] by (auto simp: list_ex_iff)
  have ok: "index_ok (map_of (om_pools m)) (map_of (om_name_to_id m))" using assms(1) by (simp add: indexed_def)
  have "names_ok m" unfolding names_ok_def using index_okD [OF ok] named by blast
  moreover have "pools_ok m" using assms(1) index_okD(1) [OF ok] by (fastforce simp: pools_ok_def indexed_def)
  ultimately show ?thesis ..
qed

lemma alist_delete [simp]: "alist_inv m \<Longrightarrow> alist_inv (AList.delete k m)"
  by (simp add: alist_inv_def distinct_delete)

lemma indexed_new_pool:
  assumes "indexed m" "pool_id p = i" "pool_wf p" "pool_name p = []"
  shows "indexed (apply_new_pool (i, p) m)"
proof -
  let ?p = "case map_of (om_pools m) i of None \<Rightarrow> p | Some old \<Rightarrow> p\<lparr>pool_name := pool_name old\<rparr>"
  have "index_ok ((map_of (om_pools m))(i \<mapsto> ?p)) (map_of (om_name_to_id m))"
    using assms by (intro index_ok_set) (auto simp: indexed_def split: option.splits)
  moreover have "pool_id ?p = i" "pool_wf ?p" using assms(2, 3) by (auto simp: pool_wf_def split: option.splits)
  ultimately show ?thesis using assms(1)
    by (simp add: indexed_def apply_new_pool_def alist.map_of_ins alist.inv_ins)
qed

lemma indexed_rename:
  assumes "indexed m"
  shows "holds indexed (rename_pool (i, name) m)"
proof (cases "map_of (om_pools m) i")
  case (Some p)
  have ok: "index_ok (map_of (om_pools m)) (map_of (om_name_to_id m))" using assms by (simp add: indexed_def)
  have wf: "pool_wf (p\<lparr>pool_name := name\<rparr>)" "pool_id p = i" using assms Some by (auto simp: indexed_def pool_wf_def)
  have "indexed (m\<lparr>om_name_to_id := AList.update name i (AList.delete (pool_name p) (om_name_to_id m)),
      om_pools := AList.update i (p\<lparr>pool_name := name\<rparr>) (om_pools m)\<rparr>)"
    if "map_of (om_name_to_id m) name = None \<or> map_of (om_name_to_id m) name = Some i"
    using index_ok_rename [OF ok Some that] assms wf
    by (simp add: indexed_def alist.map_of_ins alist.inv_ins delete_conv')
  then show ?thesis using Some by (auto simp: rename_pool_def split: option.splits)
qed (simp add: rename_pool_def)

lemma indexed_remove:
  assumes "indexed m"
  shows "indexed (remove_pool i m)"
proof (cases "map_of (om_pools m) i")
  case (Some p)
  have "index_ok (map_of (om_pools m)) (map_of (om_name_to_id m))" using assms by (simp add: indexed_def)
  from index_ok_remove [OF this Some] show ?thesis using assms Some
    by (simp add: indexed_def remove_pool_def delete_conv')
qed (use assms in \<open>simp add: remove_pool_def\<close>)

text \<open>The other steps change neither the pools nor the index.\<close>

definition same_pools :: "osd_map \<Rightarrow> osd_map \<Rightarrow> bool" where
  "same_pools m m' \<longleftrightarrow> om_pools m' = om_pools m \<and> om_name_to_id m' = om_name_to_id m"

lemma indexed_same: "indexed m \<Longrightarrow> same_pools m m' \<Longrightarrow> indexed m'"
  by (simp add: indexed_def same_pools_def)

lemma same_pools_steps:
  "same_pools m (apply_scalars inc m)" "same_pools m (apply_overrides inc m)"
  "apply_crush inc m = Some (Inr m') \<Longrightarrow> same_pools m m'" "apply_weight x m = Some (Inr m') \<Longrightarrow> same_pools m m'"
  "apply_affinity x m = Some (Inr m') \<Longrightarrow> same_pools m m'" "apply_state x m = Some (Inr m') \<Longrightarrow> same_pools m m'"
  "apply_up_client y m = Some (Inr m') \<Longrightarrow> same_pools m m'"
  by (auto simp: same_pools_def apply_scalars_def resize_osds_def apply_overrides_def apply_crush_def apply_weight_def
      apply_affinity_def apply_state_def apply_up_client_def set_state_def set_weight_def set_affinity_def set_addresses_def
      ensure_primary_affinity_def pbind_def Let_def bind_eq_Some_conv
      split: prod.splits sum.splits if_splits option.splits)

lemma indexed_try:
  assumes "indexed m" "try_each f xs m = Some (Inr m')" "\<And>x m m'. f x m = Some (Inr m') \<Longrightarrow> same_pools m m'"
  shows "indexed m'"
  using assms(1, 2)
proof (induction xs arbitrary: m)
  case (Cons x xs)
  then obtain m1 where "f x m = Some (Inr m1)" "try_each f xs m1 = Some (Inr m')"
    by (auto simp: pbind_def split: option.splits sum.splits)
  then show ?case using Cons indexed_same assms(3) by blast
qed simp

text \<open>The pools an incremental map brings are unnamed and stored under their identifiers.\<close>

definition incremental_wf :: "osdmap_incremental \<Rightarrow> bool" where
  "incremental_wf inc \<longleftrightarrow> (\<forall>(i, p) \<in> set (in_new_pools inc). pool_id p = i \<and> pool_wf p \<and> pool_name p = [])"

lemma decode_incremental_wf:
  assumes "decode_osdmap_incremental crc32c_append data limits = Inr inc"
  shows "incremental_wf inc"
proof -
  obtain d d' reason where "decode_pools reason d limits = Inr (in_new_pools inc, d')"
    using assms by (auto simp: decode_osdmap_incremental_def decode_incremental_client_def Let_def
        split: prod.splits if_splits)
  note pools = decode_pools_ok [OF this]
  have "map_of (in_new_pools inc) i = Some p" if "(i, p) \<in> set (in_new_pools inc)" for i p
    using that pools by (simp add: alist_inv_def)
  then show ?thesis using pools by (fastforce simp: incremental_wf_def)
qed

lemma apply_changes_indexed:
  assumes "indexed m" "incremental_wf inc" "apply_changes inc m = Some (Inr m')"
  shows "names_ok m' \<and> pools_ok m'"
proof -
  obtain m1 m2 m3 m4 m5 m6 where s: "apply_crush inc (apply_scalars inc m) = Some (Inr m1)"
      "try_each rename_pool (in_new_pool_names inc) (fold apply_new_pool (in_new_pools inc) m1) = Some (Inr m2)"
      "try_each apply_weight (in_new_weight inc) (fold remove_pool (in_old_pools inc) m2) = Some (Inr m3)"
      "try_each apply_affinity (in_new_primary_affinity inc) m3 = Some (Inr m4)"
      "try_each apply_state (in_new_state inc) m4 = Some (Inr m5)"
      "try_each apply_up_client (in_new_up_client inc) m5 = Some (Inr m6)"
      "m' = apply_overrides inc m6" "\<not> list_ex (\<lambda>(_, p). pool_name p = []) (om_pools m')"
    using assms(3) by (auto simp: apply_changes_def pbind_def Let_def split: option.splits sum.splits if_splits)
  have "indexed m1"
    using assms(1) same_pools_steps(1) same_pools_steps(3) [OF s(1)] indexed_same by blast
  moreover have "indexed (fold apply_new_pool xs m1)" if "set xs \<subseteq> set (in_new_pools inc)" "indexed m1" for xs m1
    using that assms(2)
  proof (induction xs arbitrary: m1)
    case (Cons x xs)
    then show ?case using indexed_new_pool [of m1 "snd x" "fst x"] by (auto simp: incremental_wf_def)
  qed simp
  ultimately have "indexed (fold apply_new_pool (in_new_pools inc) m1)" by simp
  then have "holds indexed (try_each rename_pool (in_new_pool_names inc) (fold apply_new_pool (in_new_pools inc) m1))"
    by (intro holds_try_each) (auto intro: indexed_rename)
  then have "indexed m2" using s(2) by simp
  moreover have "indexed (fold remove_pool xs m2)" if "indexed m2" for xs m2
    using that by (induction xs arbitrary: m2) (simp_all add: indexed_remove)
  ultimately have "indexed (fold remove_pool (in_old_pools inc) m2)" by simp
  then have "indexed m3" using s(3) by (rule indexed_try) (rule same_pools_steps(4))
  then have "indexed m4" using s(4) by (rule indexed_try) (rule same_pools_steps(5))
  then have "indexed m5" using s(5) by (rule indexed_try) (rule same_pools_steps(6))
  then have "indexed m6" using s(6) by (rule indexed_try) (rule same_pools_steps(7))
  then have "indexed m'" using s(7) same_pools_steps(2) indexed_same by blast
  then show ?thesis using s(8) by (rule indexed_finish)
qed

text \<open>C29: Applying an incremental map keeps the name index exact: if every name leads to the pool that
  carries it and every pool is found under its name, the same holds of the map that changes lead to.
  If the incremental map carries a full map instead, the result is that map: its names lead to pools of
  the map stored under their identifiers, and its index is exact if none of its pools was left without
  a name.  The decoder only produces changes of the required form.\<close>

theorem apply_incremental_names:
  assumes "names_ok current" "pools_ok current" "incremental_wf inc"
    "apply_osdmap_incremental crc32c_append current inc limits = Some (Inr next)"
  shows "pools_ok next \<and>
    (in_full_map inc = [] \<or> (\<forall>i p. pool_by_id next i = Some p \<longrightarrow> pool_name p \<noteq> []) \<longrightarrow> names_ok next)"
proof (cases "in_full_map inc = []")
  case True
  have "apply_changes inc current = Some (Inr next)"
    using True assms(4) by (auto simp: apply_osdmap_incremental_def split: if_splits)
  then show ?thesis using apply_changes_indexed [OF indexed_start [OF assms(1, 2)] assms(3)] by blast
next
  case False
  then have "decode_osdmap crc32c_append (in_full_map inc) limits = Inr next"
    using assms(4) by (auto simp: apply_osdmap_incremental_def split: if_splits)
  then have n: "naming (om_pools next, om_name_to_id next)" "length (om_name_to_id next) = length (om_pools next)"
    using decode_osdmap_parts by blast+
  show ?thesis using naming_pools_ok [OF n(1)] naming_complete [OF n] False by (auto simp: pool_by_id_def)
qed

text \<open>A sample change: rename the pool, add a second one, take the OSD out and mark it down.\<close>

definition sample_incremental :: osdmap_incremental where
  "sample_incremental = \<lparr>in_fsid = replicate 16 9, in_epoch = 8, in_modified = utime_default, in_new_pool_max = 2,
     in_new_flags = -1, in_full_map = [], in_crush_data = [1], in_new_max_osd = 2,
     in_new_pools = [(2, sample_pool\<lparr>pool_id := 2, pool_name := []\<rparr>)],
     in_new_pool_names = [(1, [98]), (2, [97])], in_old_pools = [], in_new_up_client = [],
     in_new_state = [(0, 2)], in_new_weight = [(0, 0)], in_new_pg_temp = [], in_new_primary_temp = [],
     in_new_primary_affinity = [(1, 5)], in_new_erasure_profiles = [], in_old_erasure_profiles = [],
     in_new_pg_upmap = [], in_old_pg_upmap = [], in_new_pg_upmap_items = [], in_old_pg_upmap_items = [],
     in_new_removed_snapshots = [], in_new_purged_snapshots = [], in_new_last_up_change = utime_default,
     in_new_last_in_change = utime_default, in_new_pg_upmap_primaries = [], in_old_pg_upmap_primaries = [],
     in_incremental_crc = 0, in_full_crc = 4\<rparr>"

lemma sample_current: "names_ok sample_osdmap" "pools_ok sample_osdmap" "vectors_ok sample_osdmap"
  by (auto simp: sample_osdmap_def sample_pool_def names_ok_def pools_ok_def vectors_ok_def alist_inv_def pool_wf_def
      snapshots_wf_def btree_inv_def)

lemma sample_applies:
  "\<exists>next. apply_osdmap_incremental crc sample_osdmap sample_incremental limits = Some (Inr next) \<and>
     om_osd_state next = [1, 0] \<and> om_primary_affinity next = [0x10000, 5] \<and> pool_by_name next [97] \<noteq> None"
  by (simp add: sample_osdmap_def sample_pool_def sample_incremental_def apply_osdmap_incremental_def apply_changes_def
      apply_scalars_def apply_crush_def resize_osds_def vec_resize_def apply_new_pool_def rename_pool_def apply_weight_def
      apply_affinity_def apply_state_def valid_osd_def set_weight_def set_state_def set_affinity_def list_set_def list_get_def
      ensure_primary_affinity_def apply_overrides_def DEFAULT_PRIMARY_AFFINITY_def pool_by_name_def Let_def)

theorem apply_incremental_names_witness:
  "\<exists>next. apply_osdmap_incremental (\<lambda>_ _. 0) sample_osdmap sample_incremental sample_map_limits = Some (Inr next) \<and>
     names_ok next \<and> pools_ok next"
proof -
  have "incremental_wf sample_incremental" and full: "in_full_map sample_incremental = []"
    by (simp_all add: sample_incremental_def incremental_wf_def sample_pool_def pool_wf_def snapshots_wf_def btree_inv_def
        alist_inv_def)
  then show ?thesis
    using sample_applies apply_incremental_names [OF sample_current(1, 2)] full by blast
qed

theorem apply_incremental_safe_witness:
  "\<exists>r. apply_osdmap_incremental (\<lambda>_ _. 0) sample_osdmap sample_incremental sample_map_limits = Some r"
  using apply_incremental_safe [OF sample_current(3)] by blast

section \<open>Renames in the order of a hash map\<close>

text \<open>The incremental map that renames pools and changes nothing else.\<close>

definition renaming :: "osd_map \<Rightarrow> (i64 \<times> rust_string) list \<Rightarrow> osdmap_incremental" where
  "renaming m names = \<lparr>in_fsid = om_fsid m, in_epoch = om_epoch m + 1, in_modified = om_modified m, in_new_pool_max = -1,
     in_new_flags = -1, in_full_map = [], in_crush_data = [], in_new_max_osd = -1, in_new_pools = [],
     in_new_pool_names = names, in_old_pools = [], in_new_up_client = [], in_new_state = [], in_new_weight = [],
     in_new_pg_temp = [], in_new_primary_temp = [], in_new_primary_affinity = [], in_new_erasure_profiles = [],
     in_old_erasure_profiles = [], in_new_pg_upmap = [], in_old_pg_upmap = [], in_new_pg_upmap_items = [],
     in_old_pg_upmap_items = [], in_new_removed_snapshots = [], in_new_purged_snapshots = [],
     in_new_last_up_change = utime_default, in_new_last_in_change = utime_default, in_new_pg_upmap_primaries = [],
     in_old_pg_upmap_primaries = [], in_incremental_crc = 0, in_full_crc = 0\<rparr>"

lemma apply_renaming:
  assumes "om_epoch m \<noteq> U32_MAX"
  shows "apply_osdmap_incremental crc m (renaming m names) limits =
    pbind (try_each rename_pool names (apply_scalars (renaming m names) m)) (\<lambda>n.
      let n = apply_overrides (renaming m names) n in
      if list_ex (\<lambda>(_, p). pool_name p = []) (om_pools n) then Some (Inl (MapE_Malformed ''pool has no name''))
      else Some (Inr n))"
  using assms by (simp add: apply_osdmap_incremental_def apply_changes_def apply_crush_def renaming_def)

lemma rename_chain:
  assumes "indexed m" "\<not> list_ex (\<lambda>(_, p). pool_name p = []) (om_pools m)"
    "map_of (om_pools m) i = Some p" "map_of (om_pools m) j = Some q" "i \<noteq> j"
    "map_of (om_name_to_id m) c = None" "c \<noteq> []"
  shows "\<exists>m'. try_each rename_pool [(i, c), (j, pool_name p)] m = Some (Inr m') \<and>
      \<not> list_ex (\<lambda>(_, p). pool_name p = []) (om_pools m')" (is ?good)
    and "try_each rename_pool [(j, pool_name p), (i, c)] m = Some (Inl (MapE_Malformed ''duplicate pool name''))"
proof -
  have inv: "alist_inv (om_pools m)" and ok: "index_ok (map_of (om_pools m)) (map_of (om_name_to_id m))"
    using assms(1) by (simp_all add: indexed_def)
  have named: "pool_name p \<noteq> []" using assms(2) map_of_SomeD [OF assms(3)] by (auto simp: list_ex_iff)
  then have found: "map_of (om_name_to_id m) (pool_name p) = Some i" using index_okD(2) [OF ok assms(3)] by simp
  then have "c \<noteq> pool_name p" using assms(6) by auto
  let ?P1 = "AList.update i (p\<lparr>pool_name := c\<rparr>) (om_pools m)"
  have "alist_inv ?P1" by (rule alist.inv_ins [OF inv])
  then have "set (AList.update j (q\<lparr>pool_name := pool_name p\<rparr>) ?P1) \<subseteq>
      {(j, q\<lparr>pool_name := pool_name p\<rparr>), (i, p\<lparr>pool_name := c\<rparr>)} \<union> set (om_pools m)"
    using alist.set_ins [OF inv] by (auto simp: alist.set_ins)
  then have "\<not> list_ex (\<lambda>(_, p). pool_name p = []) (AList.update j (q\<lparr>pool_name := pool_name p\<rparr>) ?P1)"
    using assms(2, 7) named by (fastforce simp: list_ex_iff)
  then show ?good using assms(3-6) \<open>c \<noteq> pool_name p\<close>
    by (simp add: rename_pool_def update_conv' delete_conv')
  show "try_each rename_pool [(j, pool_name p), (i, c)] m = Some (Inl (MapE_Malformed ''duplicate pool name''))"
    using assms(4, 5) found by (simp add: rename_pool_def)
qed

text \<open>C40: Whether a chain of renames is accepted depends on the order in which the hash map of renames is
  visited.  In any map with an exact index and no unnamed pool, renaming one pool to a fresh name and
  another pool to the name the first one gives up is accepted in this order and refused in the other.\<close>

theorem rename_order_matters:
  assumes "names_ok m" "pools_ok m" "om_epoch m \<noteq> U32_MAX" "\<forall>k r. pool_by_id m k = Some r \<longrightarrow> pool_name r \<noteq> []"
    "pool_by_id m i = Some p" "pool_by_id m j = Some q" "i \<noteq> j" "pool_by_name m c = None" "c \<noteq> []"
  shows "(\<exists>m'. apply_osdmap_incremental crc m (renaming m [(i, c), (j, pool_name p)]) limits = Some (Inr m')) \<and>
    apply_osdmap_incremental crc m (renaming m [(j, pool_name p), (i, c)]) limits =
      Some (Inl (MapE_Malformed ''duplicate pool name''))"
proof -
  have same: "om_pools (apply_scalars (renaming m names) m) = om_pools m"
    "om_name_to_id (apply_scalars (renaming m names) m) = om_name_to_id m" for names
    using same_pools_steps(1) [of m "renaming m names"] by (simp_all add: same_pools_def)
  have ix: "indexed (apply_scalars (renaming m names) m)" for names
    using indexed_same [OF indexed_start [OF assms(1, 2)] same_pools_steps(1)] .
  have "\<not> list_ex (\<lambda>(_, p). pool_name p = []) (om_pools m)"
    using assms(2, 4) by (auto simp: list_ex_iff pools_ok_def pool_by_id_def alist_inv_def dest!: map_of_is_SomeI [rotated])
  moreover have "map_of (om_name_to_id m) c = None"
    using assms(2, 8) by (cases "map_of (om_name_to_id m) c") (simp_all add: pool_by_name_def pools_ok_def, metis option.distinct(1))
  ultimately have chain:
    "\<exists>m'. try_each rename_pool [(i, c), (j, pool_name p)] (apply_scalars (renaming m names) m) = Some (Inr m') \<and>
       \<not> list_ex (\<lambda>(_, p). pool_name p = []) (om_pools m')"
    "try_each rename_pool [(j, pool_name p), (i, c)] (apply_scalars (renaming m names) m) =
       Some (Inl (MapE_Malformed ''duplicate pool name''))" for names
    using rename_chain [OF ix, of names i p j q c] assms(5-7, 9) by (simp_all only: same pool_by_id_def not_False_eq_True)
  obtain m' where m': "try_each rename_pool [(i, c), (j, pool_name p)]
      (apply_scalars (renaming m [(i, c), (j, pool_name p)]) m) = Some (Inr m')"
      "\<not> list_ex (\<lambda>(_, p). pool_name p = []) (om_pools m')" using chain(1) by blast
  have "om_pools (apply_overrides inc n) = om_pools n" for inc n by (simp add: apply_overrides_def)
  then show ?thesis using m' chain(2) by (simp add: apply_renaming [OF assms(3)] Let_def del: try_each.simps)
qed

definition two_pools :: osd_map where
  "two_pools = sample_osdmap\<lparr>om_pools := [(1, sample_pool), (2, sample_pool\<lparr>pool_id := 2, pool_name := [98]\<rparr>)],
     om_name_to_id := [([97], 1), ([98], 2)]\<rparr>"

theorem rename_order_matters_witness:
  "(\<exists>m'. apply_osdmap_incremental (\<lambda>_ _. 0) two_pools (renaming two_pools [(1, [99]), (2, [97])]) sample_map_limits = Some (Inr m')) \<and>
   apply_osdmap_incremental (\<lambda>_ _. 0) two_pools (renaming two_pools [(2, [97]), (1, [99])]) sample_map_limits =
     Some (Inl (MapE_Malformed ''duplicate pool name''))"
proof -
  have "names_ok two_pools" "pools_ok two_pools" "om_epoch two_pools \<noteq> U32_MAX"
    "\<forall>k r. pool_by_id two_pools k = Some r \<longrightarrow> pool_name r \<noteq> []" "pool_by_id two_pools 1 = Some sample_pool"
    "pool_by_id two_pools 2 = Some (sample_pool\<lparr>pool_id := 2, pool_name := [98]\<rparr>)" "pool_by_name two_pools [99] = None"
    by (auto simp: two_pools_def sample_osdmap_def sample_pool_def names_ok_def pools_ok_def pool_by_id_def pool_by_name_def
        alist_inv_def pool_wf_def snapshots_wf_def btree_inv_def split: if_splits)
  from rename_order_matters [OF this(1-6) _ this(7)] show ?thesis by (simp add: sample_pool_def)
qed

end
