(* ===== verification/Maps_Place.thy ===== *)
theory Maps_Place
  imports Maps_Incremental Crush_Place
begin

text \<open>
  \<open>src/maps/placement.rs\<close>: from an object name to the OSDs that serve it.  The CRUSH placement of
  \<open>Crush_Place\<close> gives the raw set; upmap entries, the OSDs that are up, primary affinity and
  temporary mappings turn it into the up and the acting set.  None is a panic.
\<close>

section \<open>Definitions\<close>

definition OBJECT_HASH_RJENKINS :: u8 where "OBJECT_HASH_RJENKINS = 2"
definition POOL_TYPE_REPLICATED :: u8 where "POOL_TYPE_REPLICATED = 1"
definition POOL_FLAG_HASHPSPOOL :: u64 where "POOL_FLAG_HASHPSPOOL = 1"
definition POOL_FLAG_EC_OPTIMIZATIONS :: u64 where "POOL_FLAG_EC_OPTIMIZATIONS = push_bit 19 1"
definition CRUSH_ITEM_NONE :: i32 where "CRUSH_ITEM_NONE = 2147483647"

record object_placement =
  pl_raw_hash :: u32
  pl_raw_pg :: pg
  pl_pg :: pg
  pl_placement_seed :: u32
  pl_raw :: "i32 list"
  pl_up :: "i32 list"
  pl_up_primary :: i32
  pl_acting :: "i32 list"
  pl_acting_primary :: i32
  pl_primary_shard :: i8
  pl_sharded :: bool

abbreviation refuse :: "string \<Rightarrow> map_error + 'a" where
  "refuse reason \<equiv> Inl (MapE_UnsupportedPlacement reason)"

definition map_raw_hash :: "osd_map \<Rightarrow> i64 \<Rightarrow> u32 \<Rightarrow> map_error + object_placement" where
  "map_raw_hash m pid hash =
     (if pid < 0 then refuse ''negative pool id''
      else case map_of (om_pools m) pid of
        None \<Rightarrow> refuse ''pool does not exist''
      | Some pool \<Rightarrow>
          if object_hash_kind pool \<noteq> OBJECT_HASH_RJENKINS then refuse ''unsupported object hash''
          else if pool_flags pool AND POOL_FLAG_HASHPSPOOL = 0 then refuse ''pool does not use HASHPSPOOL''
          else if pg_count pool = 0 \<or> placement_pg_count pool = 0 \<or> placement_pg_count pool > pg_count pool
          then refuse ''invalid PG geometry''
          else
            let raw_pg = \<lparr>pg_pool = word_of_int pid, pg_seed = hash, pg_preferred = -1\<rparr>;
                placement_pg = stable_mod hash (placement_pg_count pool) in
            Inr \<lparr>pl_raw_hash = hash, pl_raw_pg = raw_pg,
              pl_pg = raw_pg\<lparr>pg_seed := stable_mod hash (pg_count pool)\<rparr>,
              pl_placement_seed = hash32_pair placement_pg (word_of_int pid), pl_raw = [], pl_up = [],
              pl_up_primary = -1, pl_acting = [], pl_acting_primary = -1, pl_primary_shard = 0,
              pl_sharded = False\<rparr>)"

definition map_object :: "osd_map \<Rightarrow> i64 \<Rightarrow> bytes \<Rightarrow> bytes \<Rightarrow> bytes \<Rightarrow> map_error + object_placement" where
  "map_object m pid obj locator namespace = map_raw_hash m pid (object_hash obj locator namespace)"

definition osd_get :: "'a list \<Rightarrow> i32 \<Rightarrow> 'a option" where
  "osd_get xs osd = (if osd < 0 then None else list_get xs (nat osd))"

definition osd_exists :: "osd_map \<Rightarrow> i32 \<Rightarrow> bool" where
  "osd_exists m osd = (case osd_get (om_osd_state m) osd of None \<Rightarrow> False | Some state \<Rightarrow> state AND 1 \<noteq> 0)"

definition osd_is_up :: "osd_map \<Rightarrow> i32 \<Rightarrow> bool" where
  "osd_is_up m osd =
     (case osd_get (om_osd_state m) osd of None \<Rightarrow> False | Some state \<Rightarrow> state AND 1 \<noteq> 0 \<and> state AND 2 \<noteq> 0)"

definition first_osd :: "i32 list \<Rightarrow> i32" where
  "first_osd osds = (case find (\<lambda>osd. osd \<noteq> CRUSH_ITEM_NONE) osds of None \<Rightarrow> -1 | Some osd \<Rightarrow> osd)"

fun validate_set_from :: "osd_map \<Rightarrow> string \<Rightarrow> bool \<Rightarrow> i32 list \<Rightarrow> i32 set \<Rightarrow> map_error + unit" where
  "validate_set_from m name allow_duplicates [] seen = Inr ()"
| "validate_set_from m name allow_duplicates (osd # osds) seen =
     (if osd = CRUSH_ITEM_NONE then validate_set_from m name allow_duplicates osds seen
      else if \<not> osd_exists m osd then refuse (name @ '' references nonexistent OSD'')
      else if \<not> allow_duplicates \<and> osd \<in> seen then refuse (name @ '' contains duplicate OSD'')
      else validate_set_from m name allow_duplicates osds (insert osd seen))"

definition validate_placement_set :: "osd_map \<Rightarrow> string \<Rightarrow> i32 list \<Rightarrow> bool \<Rightarrow> map_error + unit" where
  "validate_placement_set m name osds allow_duplicates = validate_set_from m name allow_duplicates osds {}"

text \<open>One remap: the scan stops at the target, and remembers the first source it met before.\<close>

fun scan_remap :: "i32 \<Rightarrow> i32 \<Rightarrow> bool \<Rightarrow> i32 list \<Rightarrow> usize \<Rightarrow> usize option \<Rightarrow> bool \<times> usize option" where
  "scan_remap src dst target_out [] index position = (False, position)"
| "scan_remap src dst target_out (osd # osds) index position =
     (if osd = dst then (True, position)
      else scan_remap src dst target_out osds (Suc index)
        (if osd = src \<and> position = None \<and> \<not> target_out then Some index else position))"

definition is_out_target :: "u32 list \<Rightarrow> i32 \<Rightarrow> bool" where
  "is_out_target weights osd \<longleftrightarrow> osd \<noteq> CRUSH_ITEM_NONE \<and> osd \<ge> 0 \<and> osd_get weights osd = Some 0"

definition apply_remap :: "u32 list \<Rightarrow> osd_remap \<Rightarrow> i32 list \<Rightarrow> i32 list" where
  "apply_remap weights remap result =
     (case scan_remap (remap_from remap) (remap_to remap) (is_out_target weights (remap_to remap)) result 0 None of
        (False, Some index) \<Rightarrow> result[index := remap_to remap]
      | _ \<Rightarrow> result)"

definition promote_primary :: "i32 \<Rightarrow> i32 list \<Rightarrow> i32 list" where
  "promote_primary primary result =
     (case find (\<lambda>index. result ! index = primary) [1..<length result] of
        None \<Rightarrow> result
      | Some index \<Rightarrow> (result[0 := result ! index])[index := result ! 0])"

definition apply_upmap :: "osd_map \<Rightarrow> pg \<Rightarrow> i32 list \<Rightarrow> i32 list" where
  "apply_upmap m p source =
     (let replacement = map_of (om_pg_upmap m) p;
          valid = (\<lambda>rs. list_all (\<lambda>osd. osd = CRUSH_ITEM_NONE \<or> osd < 0 \<or> osd_get (om_osd_weight m) osd \<noteq> Some 0) rs) in
      if (case replacement of None \<Rightarrow> False | Some rs \<Rightarrow> \<not> valid rs) then source
      else
        let result = (case replacement of None \<Rightarrow> source | Some rs \<Rightarrow> rs);
            result = (case map_of (om_pg_upmap_items m) p of
                None \<Rightarrow> result
              | Some remaps \<Rightarrow> fold (apply_remap (om_osd_weight m)) remaps result) in
        case map_of (om_pg_upmap_primaries m) p of
          None \<Rightarrow> result
        | Some primary \<Rightarrow>
            if primary \<noteq> CRUSH_ITEM_NONE \<and> primary \<ge> 0 \<and>
               (case osd_get (om_osd_weight m) primary of None \<Rightarrow> False | Some w \<Rightarrow> w \<noteq> 0)
            then promote_primary primary result else result)"

fun validate_remaps :: "osd_map \<Rightarrow> osd_remap list \<Rightarrow> map_error + unit" where
  "validate_remaps m [] = Inr ()"
| "validate_remaps m (r # rs) =
     (if remap_to r \<noteq> CRUSH_ITEM_NONE \<and> \<not> osd_exists m (remap_to r)
      then refuse ''pg_upmap_items references nonexistent OSD'' else validate_remaps m rs)"

definition validate_upmap :: "osd_map \<Rightarrow> pg \<Rightarrow> map_error + unit" where
  "validate_upmap m p =
     rbind (case map_of (om_pg_upmap m) p of
         None \<Rightarrow> Inr ()
       | Some osds \<Rightarrow> validate_placement_set m ''pg_upmap'' osds False) (\<lambda>_.
     case map_of (om_pg_upmap_items m) p of None \<Rightarrow> Inr () | Some remaps \<Rightarrow> validate_remaps m remaps)"

definition only_up :: "osd_map \<Rightarrow> i32 list \<Rightarrow> bool \<Rightarrow> i32 list" where
  "only_up m source preserve_slots =
     List.map_filter (\<lambda>osd. if osd_is_up m osd then Some osd
       else if preserve_slots then Some CRUSH_ITEM_NONE else None) source"

definition temp_mapping :: "osd_map \<Rightarrow> pg \<Rightarrow> bool \<Rightarrow> map_error + (i32 list \<times> i32)" where
  "temp_mapping m p preserve_slots =
     (let primary = (case map_of (om_primary_temp m) p of None \<Rightarrow> -1 | Some v \<Rightarrow> v) in
      case map_of (om_pg_temp m) p of
        None \<Rightarrow> Inr ([], primary)
      | Some source \<Rightarrow>
          rbind (validate_placement_set m ''pg_temp'' source preserve_slots) (\<lambda>_.
          let result = only_up m source preserve_slots in
          Inr (result, if primary = -1 then first_osd result else primary)))"

text \<open>
  The search for a primary: an OSD with a reduced affinity is skipped with the probability its hash
  decides, but the first skipped one is the fallback.
\<close>

fun affinity_scan :: "u32 list \<Rightarrow> u32 \<Rightarrow> i32 list \<Rightarrow> usize \<Rightarrow> usize option \<Rightarrow> usize option" where
  "affinity_scan affinities seed [] index position = position"
| "affinity_scan affinities seed (osd # osds) index position =
     (if osd = CRUSH_ITEM_NONE \<or> osd < 0 then affinity_scan affinities seed osds (Suc index) position
      else case osd_get affinities osd of
        None \<Rightarrow> affinity_scan affinities seed osds (Suc index) position
      | Some affinity \<Rightarrow>
          if affinity < DEFAULT_PRIMARY_AFFINITY \<and> drop_bit 16 (hash32_pair seed (word_of_int osd)) \<ge> affinity
          then affinity_scan affinities seed osds (Suc index) (case position of None \<Rightarrow> Some index | Some i \<Rightarrow> Some i)
          else Some index)"

definition apply_primary_affinity :: "osd_map \<Rightarrow> u32 \<Rightarrow> i32 list \<Rightarrow> i32 \<Rightarrow> bool \<Rightarrow> i32 list \<times> i32" where
  "apply_primary_affinity m seed osds primary shift_primary =
     (if om_primary_affinity m = [] then (osds, primary)
      else case affinity_scan (om_primary_affinity m) seed osds 0 None of
        None \<Rightarrow> (osds, primary)
      | Some index \<Rightarrow>
          let primary = osds ! index in
          (if shift_primary \<and> index > 0 then primary # take index osds @ drop (Suc index) osds else osds, primary))"

definition decode_crush_payload :: "osd_map \<Rightarrow> map_error + crush_map" where
  "decode_crush_payload m =
     (let payload = om_crush_data m in
      if length payload \<ge> 2 ^ 32 then refuse ''CRUSH map exceeds supported size''
      else
        let limit = of_nat (max (length payload div 4) 1) :: u32 in
        rbind (case map_decode payload \<lparr>lim_max_bytes = of_nat (length payload), lim_max_buckets = limit,
                 lim_max_rules = limit, lim_max_items = limit, lim_max_names = limit\<rparr> of
            Inl (DE_Wire _) \<Rightarrow> refuse ''invalid CRUSH map''
          | Inl DE_Unsupported \<Rightarrow> refuse ''unsupported CRUSH map''
          | Inr cmap \<Rightarrow> Inr cmap) (\<lambda>cmap.
        map_err (\<lambda>_. MapE_UnsupportedPlacement ''invalid CRUSH placement'') (validated_map_new cmap)))"

text \<open>The shard of the primary: its first position in the acting set.\<close>

definition locate_shard :: "object_placement \<Rightarrow> map_error + object_placement" where
  "locate_shard pl =
     (case find (\<lambda>i. pl_acting pl ! i = pl_acting_primary pl) [0..<length (pl_acting pl)] of
        None \<Rightarrow> Inr pl
      | Some index \<Rightarrow>
          if index > 127 then refuse ''erasure primary shard exceeds wire range''
          else Inr (pl\<lparr>pl_primary_shard := int index, pl_sharded := True\<rparr>))"

text \<open>What follows the CRUSH placement.\<close>

definition finish_placement :: "osd_map \<Rightarrow> pool \<Rightarrow> object_placement \<Rightarrow> i32 list \<Rightarrow> map_error + object_placement" where
  "finish_placement m pool pl raw =
     (let pl = pl\<lparr>pl_raw := raw\<rparr> in
      rbind (validate_upmap m (pl_pg pl)) (\<lambda>_.
      let sharded = (pool_type pool = POOL_TYPE_ERASURE);
          mapped = apply_upmap m (pl_pg pl) raw;
          up = only_up m mapped sharded;
          (up, up_primary) = apply_primary_affinity m (pl_placement_seed pl) up (first_osd up) (\<not> sharded) in
      rbind (temp_mapping m (pl_pg pl) sharded) (\<lambda>(acting, acting_primary).
      let (acting, acting_primary) =
            (if acting = [] then (up, if acting_primary = -1 then up_primary else acting_primary)
             else (acting, acting_primary)) in
      if acting_primary \<noteq> -1 \<and> acting_primary \<notin> set acting
      then refuse ''temporary primary is not in the acting set''
      else
        let pl = pl\<lparr>pl_up := up, pl_up_primary := up_primary, pl_acting := acting, pl_acting_primary := acting_primary\<rparr> in
        if pool_type pool = POOL_TYPE_ERASURE then locate_shard pl else Inr pl)))"

definition place_mapped :: "osd_map \<Rightarrow> i64 \<Rightarrow> object_placement \<Rightarrow> (map_error + object_placement) option" where
  "place_mapped m pid pl =
     (case map_of (om_pools m) pid of
        None \<Rightarrow> Some (refuse ''pool does not exist'')
      | Some pool \<Rightarrow>
          if pool_type pool \<noteq> POOL_TYPE_REPLICATED \<and> pool_type pool \<noteq> POOL_TYPE_ERASURE
          then Some (refuse ''unsupported pool type'')
          else if pool_type pool = POOL_TYPE_ERASURE \<and> pool_flags pool AND POOL_FLAG_EC_OPTIMIZATIONS \<noteq> 0
          then Some (refuse ''optimized erasure placement is not supported'')
          else if pool_size pool = 0 then Some (refuse ''pool has zero replicas'')
          else
            pbind (Some (decode_crush_payload m)) (\<lambda>cmap.
            pbind (map_option (map_err (\<lambda>_. MapE_UnsupportedPlacement ''invalid CRUSH placement''))
                (place_validated cmap (ucast (pool_crush_rule pool)) (pl_placement_seed pl) (unat (pool_size pool))
                  (om_osd_weight m))) (\<lambda>raw.
            Some (finish_placement m pool pl raw))))"

definition place_raw_hash :: "osd_map \<Rightarrow> i64 \<Rightarrow> u32 \<Rightarrow> (map_error + object_placement) option" where
  "place_raw_hash m pid hash = pbind (Some (map_raw_hash m pid hash)) (place_mapped m pid)"

definition place_object :: "osd_map \<Rightarrow> i64 \<Rightarrow> bytes \<Rightarrow> bytes \<Rightarrow> bytes \<Rightarrow> (map_error + object_placement) option" where
  "place_object m pid obj locator namespace =
     pbind (Some (map_object m pid obj locator namespace)) (place_mapped m pid)"

section \<open>Remaps\<close>

fun replace_first :: "'a \<Rightarrow> 'a \<Rightarrow> 'a list \<Rightarrow> 'a list" where
  "replace_first a b [] = []"
| "replace_first a b (x # xs) = (if x = a then b # xs else x # replace_first a b xs)"

lemma scan_remap_target: "dst \<in> set xs \<Longrightarrow> fst (scan_remap src dst out xs k pos)"
  by (induction xs arbitrary: k pos) auto

lemma scan_remap_source:
  "dst \<notin> set xs \<Longrightarrow> scan_remap src dst out xs k pos =
     (False, if pos \<noteq> None \<or> out \<or> src \<notin> set xs then pos else Some (k + length (takeWhile (\<lambda>x. x \<noteq> src) xs)))"
  by (induction xs arbitrary: k pos) auto

lemma replace_first_update:
  "a \<in> set xs \<Longrightarrow> xs[length (takeWhile (\<lambda>x. x \<noteq> a) xs) := b] = replace_first a b xs"
  by (induction xs) auto

lemma replace_first_absent: "a \<notin> set xs \<Longrightarrow> replace_first a b xs = xs"
  by (induction xs) auto

lemma apply_remap_eq:
  "apply_remap weights remap osds =
     (if remap_to remap \<in> set osds \<or> is_out_target weights (remap_to remap) then osds
      else replace_first (remap_from remap) (remap_to remap) osds)"
proof (cases "remap_to remap \<in> set osds")
  case True
  obtain b pos where s: "scan_remap (remap_from remap) (remap_to remap) (is_out_target weights (remap_to remap)) osds 0 None
      = (b, pos)" by fastforce
  have b using scan_remap_target [OF True, of "remap_from remap" "is_out_target weights (remap_to remap)" 0 None] s by simp
  then show ?thesis using True s by (cases pos) (simp_all add: apply_remap_def)
next
  case False
  show ?thesis unfolding apply_remap_def scan_remap_source [OF False]
    using False by (simp add: replace_first_update replace_first_absent)
qed

text \<open>C37: The scan of a remap entry does what the entry means: the first occurrence of the source is
  replaced by the target, unless the target is already in the set or is out.\<close>

theorem remap_meaning:
  "apply_remap weights remap osds =
     (if remap_to remap \<in> set osds \<or> is_out_target weights (remap_to remap) then osds
      else replace_first (remap_from remap) (remap_to remap) osds)"
  by (rule apply_remap_eq)

section \<open>Primary affinity\<close>

lemma affinity_scan_index:
  "affinity_scan affinities seed osds k pos = Some i \<Longrightarrow> pos = Some i \<or> (k \<le> i \<and> i < k + length osds)"
proof (induction osds arbitrary: k pos)
  case (Cons osd osds)
  then show ?case by (fastforce split: if_splits option.splits)
qed simp

lemma affinity_mset:
  assumes "i < length osds"
  shows "mset (osds ! i # take i osds @ drop (Suc i) osds) = mset osds"
proof -
  have "osds = take i osds @ osds ! i # drop (Suc i) osds" using assms by (rule id_take_nth_drop)
  then have "mset osds = mset (take i osds @ osds ! i # drop (Suc i) osds)" by simp
  then show ?thesis by simp
qed

lemma affinity_cases:
  assumes "apply_primary_affinity m seed osds primary shift_primary = (osds', primary')"
  shows "mset osds' = mset osds \<and>
    (osds' = osds \<and> primary' = primary \<or> primary' \<in> set osds \<and> (shift_primary \<longrightarrow> hd osds' = primary'))"
proof -
  have index: "i < length osds" if "affinity_scan (om_primary_affinity m) seed osds 0 None = Some i" for i
    using affinity_scan_index [OF that] by simp
  show ?thesis using assms affinity_mset index nth_mem
    by (auto simp: apply_primary_affinity_def hd_conv_nth Let_def split: if_splits option.splits)
qed

lemmas affinity_mset_eq = affinity_cases [THEN conjunct1]

text \<open>C38: Primary affinity only reorders: the up set keeps its members, in a replicated pool the primary
  it settles on comes first, and that primary is a member of the set.\<close>

theorem affinity_reorders:
  assumes "apply_primary_affinity m seed osds primary shift_primary = (osds', primary')"
  shows "mset osds' = mset osds \<and>
    (osds' = osds \<and> primary' = primary \<or> primary' \<in> set osds \<and> (shift_primary \<longrightarrow> hd osds' = primary'))"
  using assms by (rule affinity_cases)

section \<open>Sets without repetitions\<close>

text \<open>No OSD occurs twice; only the empty slot may be repeated.\<close>

definition sparse :: "i32 list \<Rightarrow> bool" where
  "sparse xs \<longleftrightarrow> (\<forall>x. x \<noteq> CRUSH_ITEM_NONE \<longrightarrow> count (mset xs) x \<le> 1)"

lemma sparse_mset: "mset xs = mset ys \<Longrightarrow> sparse xs \<longleftrightarrow> sparse ys"
  by (simp add: sparse_def)

lemma sparse_distinct: "distinct xs \<Longrightarrow> sparse xs"
  by (simp add: sparse_def distinct_count_atmost_1)

lemma sparse_slots:
  assumes "\<forall>i < length xs. \<forall>j < length xs. xs ! i = xs ! j \<longrightarrow> i = j \<or> xs ! i = CRUSH_ITEM_NONE"
  shows "sparse xs"
  using assms
proof (induction xs)
  case (Cons x xs)
  have tail: "\<forall>i < length xs. \<forall>j < length xs. xs ! i = xs ! j \<longrightarrow> i = j \<or> xs ! i = CRUSH_ITEM_NONE"
  proof (intro allI impI)
    fix i j
    assume "i < length xs" "j < length xs" "xs ! i = xs ! j"
    then show "i = j \<or> xs ! i = CRUSH_ITEM_NONE"
      using Cons.prems [rule_format, of "Suc i" "Suc j"] by simp
  qed
  have "x \<notin> set xs" if "x \<noteq> CRUSH_ITEM_NONE"
  proof
    assume "x \<in> set xs"
    then obtain j where "j < length xs" "xs ! j = x" by (auto simp: in_set_conv_nth)
    then show False using Cons.prems [rule_format, of 0 "Suc j"] that by simp
  qed
  then show ?case using Cons.IH [OF tail] by (auto simp: sparse_def count_eq_zero_iff not_in_iff [symmetric])
qed (simp add: sparse_def)

lemma sparse_replace_first:
  assumes "sparse xs" "b \<notin> set xs"
  shows "sparse (replace_first a b xs)"
proof (cases "a \<in> set xs")
  case True
  have "mset (replace_first a b xs) = add_mset b (mset xs - {#a#})" using True
    by (induction xs) (auto simp: add_mset_commute)
  then show ?thesis using assms by (auto simp: sparse_def not_in_iff [symmetric] intro: le_trans [OF diff_le_self])
qed (simp add: replace_first_absent assms(1))

lemma mset_promote: "mset (promote_primary primary xs) = mset xs"
proof (cases "find (\<lambda>index. xs ! index = primary) [1..<length xs]")
  case (Some i)
  then have "i \<in> set [1..<length xs]" by (auto simp: find_Some_iff)
  then have "i < length xs" "0 < length xs" by auto
  from mset_swap [OF this] show ?thesis using Some by (simp add: promote_primary_def)
qed (simp add: promote_primary_def)

lemma sparse_promote: "sparse xs \<Longrightarrow> sparse (promote_primary primary xs)"
  using sparse_mset [OF mset_promote] by blast

lemma sparse_remaps: "sparse xs \<Longrightarrow> sparse (fold (apply_remap weights) remaps xs)"
  by (induction remaps arbitrary: xs) (simp_all add: apply_remap_eq sparse_replace_first)

lemma validate_set_distinct:
  assumes "validate_set_from m name False osds seen = Inr ()"
  shows "sparse osds \<and> (\<forall>osd \<in> set osds. osd \<noteq> CRUSH_ITEM_NONE \<longrightarrow> osd \<notin> seen)"
  using assms
proof (induction osds arbitrary: seen)
  case (Cons osd osds)
  show ?case
  proof (cases "osd = CRUSH_ITEM_NONE")
    case True
    then show ?thesis using Cons by (auto simp: sparse_def)
  next
    case False
    then have "validate_set_from m name False osds (insert osd seen) = Inr ()" "osd \<notin> seen"
      using Cons.prems by (auto split: if_splits)
    then show ?thesis using Cons.IH [of "insert osd seen"] False
      by (auto simp: sparse_def not_in_iff [symmetric])
  qed
qed (simp add: sparse_def)

lemma sparse_upmap:
  assumes "sparse raw" "validate_upmap m p = Inr ()"
  shows "sparse (apply_upmap m p raw)"
proof -
  have "sparse rs" if "map_of (om_pg_upmap m) p = Some rs" for rs
    using assms(2) that validate_set_distinct by (auto simp: validate_upmap_def validate_placement_set_def)
  then show ?thesis using assms(1)
    by (auto simp: apply_upmap_def Let_def sparse_remaps intro!: sparse_promote split: option.splits)
qed

lemma only_up_set:
  assumes "osd \<in> set (only_up m source preserve)"
  shows "osd_is_up m osd \<or> (preserve \<and> osd = CRUSH_ITEM_NONE)"
proof -
  obtain x where "x \<in> set source" "(if osd_is_up m x then Some x else if preserve then Some CRUSH_ITEM_NONE else None) = Some osd"
    using assms by (auto simp: only_up_def List.map_filter_def split: if_splits)
  then show ?thesis by (auto split: if_splits)
qed

lemma only_up_filter: "only_up m source False = filter (osd_is_up m) source"
  by (induction source) (auto simp: only_up_def List.map_filter_def)

section \<open>Placement\<close>

lemma crush_raw:
  assumes "decode_crush_payload m = Inr cmap"
  shows "holds sparse (place_validated cmap rule_id seed n weights)"
proof -
  obtain data limits where "map_decode data limits = Inr cmap"
    using assms by (auto simp: decode_crush_payload_def validated_map_new_def Let_def
        split: if_splits sum.splits decode_error.splits)
  then have cmap: "map_wf cmap" "validate_graph cmap = Inr ()" using map_decode_wf by blast+
  then have eq: "place_validated cmap rule_id seed n weights = map_place cmap rule_id seed n weights"
    by (simp add: map_place_def)
  show ?thesis
  proof (cases "certifiable cmap rule_id n")
    case True
    then obtain rl result where r: "map_of (rules cmap) rule_id = Some rl"
        "map_place cmap rule_id seed n weights = Some (Inr result)"
        "rule_type rl = RULE_TYPE_REPLICATED \<longrightarrow> selected cmap weights seed result"
        "rule_type rl = RULE_TYPE_ERASURE \<longrightarrow> slots_ok cmap weights seed result"
      using map_place_certifiable [OF cmap(1) True, of seed weights] by blast
    have "rule_type rl = RULE_TYPE_REPLICATED \<or> rule_type rl = RULE_TYPE_ERASURE"
      using True r(1) by (auto simp: certifiable_def)
    then have "sparse result"
      using r(3, 4) sparse_distinct [of result] sparse_slots [of result]
      by (auto simp: selected_def slots_ok_def CRUSH_ITEM_NONE_def ITEM_NONE_def)
    then show ?thesis by (simp add: eq r(2))
  qed (simp add: eq map_place_refused)
qed

lemma place_mapped_raw:
  "holds (\<lambda>pl'. \<exists>pool raw. map_of (om_pools m) pid = Some pool \<and> sparse raw \<and>
     finish_placement m pool pl raw = Inr pl') (place_mapped m pid pl)"
proof (cases "map_of (om_pools m) pid")
  case (Some pool)
  have "holds (\<lambda>pl'. \<exists>raw. sparse raw \<and> finish_placement m pool pl raw = Inr pl')
      (pbind (map_option (map_err (\<lambda>_. MapE_UnsupportedPlacement reason)) (place_validated cmap rule_id seed n weights))
        (\<lambda>raw. Some (finish_placement m pool pl raw)))"
    if "decode_crush_payload m = Inr cmap" for cmap rule_id seed n weights reason
    using crush_raw [OF that, of rule_id seed n weights] by (auto simp: holds_def pbind_def split: sum.splits) blast
  then show ?thesis using Some
    by (cases "decode_crush_payload m") (simp_all add: place_mapped_def holds_def)
qed (simp add: place_mapped_def)

lemma place_object_parts:
  assumes "place_object m pid obj locator namespace = Some (Inr pl)"
  obtains pl0 pool raw where "map_object m pid obj locator namespace = Inr pl0" "map_of (om_pools m) pid = Some pool"
    "sparse raw" "finish_placement m pool pl0 raw = Inr pl"
proof -
  obtain pl0 where pl0: "map_object m pid obj locator namespace = Inr pl0" "place_mapped m pid pl0 = Some (Inr pl)"
    using assms by (cases "map_object m pid obj locator namespace") (auto simp: place_object_def)
  from place_mapped_raw [of m pid pl0] obtain pool raw where "map_of (om_pools m) pid = Some pool" "sparse raw"
      "finish_placement m pool pl0 raw = Inr pl" by (auto simp: pl0(2))
  then show thesis using that pl0(1) by blast
qed

lemma finish_placement_parts:
  assumes "finish_placement m pool pl0 raw = Inr pl"
  obtains up up_primary acting0 primary0 where
    "validate_upmap m (pl_pg pl0) = Inr ()"
    "apply_primary_affinity m (pl_placement_seed pl0) (only_up m (apply_upmap m (pl_pg pl0) raw) (pool_type pool = POOL_TYPE_ERASURE))
       (first_osd (only_up m (apply_upmap m (pl_pg pl0) raw) (pool_type pool = POOL_TYPE_ERASURE)))
       (pool_type pool \<noteq> POOL_TYPE_ERASURE) = (up, up_primary)"
    "temp_mapping m (pl_pg pl0) (pool_type pool = POOL_TYPE_ERASURE) = Inr (acting0, primary0)"
    "pl_up pl = up" "pl_acting pl = (if acting0 = [] then up else acting0)"
    "pl_acting_primary pl = -1 \<or> pl_acting_primary pl \<in> set (pl_acting pl)" "pl_pg pl = pl_pg pl0" "pl_raw pl = raw"
  using assms
  by (auto simp: finish_placement_def locate_shard_def Let_def split: prod.splits if_splits option.splits)

lemma temp_mapping_parts:
  assumes "temp_mapping m p preserve = Inr (acting, primary)" "acting \<noteq> []"
  obtains source where "acting = only_up m source preserve" "validate_placement_set m ''pg_temp'' source preserve = Inr ()"
  using assms by (auto simp: temp_mapping_def Let_def split: option.splits)

text \<open>C32: Looking up an object never panics, whatever the map: it ends in a placement or an error.\<close>

theorem place_object_returns: "\<exists>r. place_object m pid obj locator namespace = Some r"
  using place_mapped_raw [of m pid]
  by (cases "map_object m pid obj locator namespace") (auto simp: place_object_def holds_def)

text \<open>C33: Every member of the up and the acting set of a placement is an OSD that exists and is up, or, in
  an erasure-coded pool, an empty slot; the acting primary is a member of the acting set or absent.\<close>

theorem placement_members_up:
  assumes "place_object m pid obj locator namespace = Some (Inr pl)" "pool_by_id m pid = Some pool"
  shows "(\<forall>osd \<in> set (pl_up pl) \<union> set (pl_acting pl). osd_is_up m osd \<or> is_erasure_coded pool \<and> osd = CRUSH_ITEM_NONE) \<and>
    (pl_acting_primary pl = -1 \<or> pl_acting_primary pl \<in> set (pl_acting pl))"
proof -
  obtain pl0 raw where f: "finish_placement m pool pl0 raw = Inr pl"
    using place_object_parts [OF assms(1)] assms(2) by (metis option.inject pool_by_id_def)
  then obtain up up_primary acting0 primary0 where p:
    "apply_primary_affinity m (pl_placement_seed pl0) (only_up m (apply_upmap m (pl_pg pl0) raw) (pool_type pool = POOL_TYPE_ERASURE))
       (first_osd (only_up m (apply_upmap m (pl_pg pl0) raw) (pool_type pool = POOL_TYPE_ERASURE)))
       (pool_type pool \<noteq> POOL_TYPE_ERASURE) = (up, up_primary)"
    "temp_mapping m (pl_pg pl0) (pool_type pool = POOL_TYPE_ERASURE) = Inr (acting0, primary0)"
    "pl_up pl = up" "pl_acting pl = (if acting0 = [] then up else acting0)"
    "pl_acting_primary pl = -1 \<or> pl_acting_primary pl \<in> set (pl_acting pl)"
    by (rule finish_placement_parts)
  have "mset up = mset (only_up m (apply_upmap m (pl_pg pl0) raw) (pool_type pool = POOL_TYPE_ERASURE))"
    using affinity_mset_eq [OF p(1)] .
  then have "set up = set (only_up m (apply_upmap m (pl_pg pl0) raw) (pool_type pool = POOL_TYPE_ERASURE))"
    by (rule mset_eq_setD)
  moreover have "\<exists>source. acting0 = only_up m source (pool_type pool = POOL_TYPE_ERASURE)" if "acting0 \<noteq> []"
    using temp_mapping_parts [OF p(2) that] by blast
  ultimately show ?thesis using p(3-5) only_up_set by (fastforce simp: is_erasure_coded_def split: if_splits)
qed

text \<open>C34: In a replicated pool no OSD occurs twice in the up set or in the acting set of a placement,
  whatever upmap entries, affinities and temporary mappings the map has.\<close>

theorem replicated_placement_distinct:
  assumes "place_object m pid obj locator namespace = Some (Inr pl)" "pool_by_id m pid = Some pool"
    "\<not> is_erasure_coded pool" "vectors_ok m" "i32_range (om_max_osd m)"
  shows "distinct (pl_up pl) \<and> distinct (pl_acting pl)"
proof -
  have none: "\<not> osd_is_up m CRUSH_ITEM_NONE"
    using assms(4, 5) by (auto simp: osd_is_up_def osd_get_def list_get_def vectors_ok_def i32_range_def CRUSH_ITEM_NONE_def)
  have up: "distinct (only_up m source False)" if "sparse source" for source
  proof -
    have "count (mset source) a = 1" if "a \<in> set source" "osd_is_up m a" for a
      using that none \<open>sparse source\<close> count_greater_zero_iff [of "mset source" a] unfolding sparse_def
      by (metis One_nat_def Suc_leI le_antisym set_mset_mset)
    then show ?thesis by (simp add: only_up_filter distinct_count_atmost_1)
  qed
  have rep: "(pool_type pool = POOL_TYPE_ERASURE) = False" using assms(3) by (simp add: is_erasure_coded_def)
  obtain pl0 raw where f: "sparse raw" "finish_placement m pool pl0 raw = Inr pl"
    using place_object_parts [OF assms(1)] assms(2) by (metis option.inject pool_by_id_def)
  from f(2) obtain ups up_primary acting0 primary0 where p: "validate_upmap m (pl_pg pl0) = Inr ()"
    "apply_primary_affinity m (pl_placement_seed pl0) (only_up m (apply_upmap m (pl_pg pl0) raw) False)
       (first_osd (only_up m (apply_upmap m (pl_pg pl0) raw) False)) True = (ups, up_primary)"
    "temp_mapping m (pl_pg pl0) False = Inr (acting0, primary0)"
    "pl_up pl = ups" "pl_acting pl = (if acting0 = [] then ups else acting0)"
    by (rule finish_placement_parts) (simp add: rep)
  have "distinct ups"
    using up [OF sparse_upmap [OF f(1) p(1)]] mset_eq_imp_distinct_iff [OF affinity_mset_eq [OF p(2)]] by simp
  moreover have "distinct acting0" if "acting0 \<noteq> []"
  proof (rule temp_mapping_parts [OF p(3) that])
    fix source
    assume "acting0 = only_up m source False" "validate_placement_set m ''pg_temp'' source False = Inr ()"
    then show "distinct acting0" using up validate_set_distinct by (auto simp: validate_placement_set_def)
  qed
  ultimately show ?thesis using p(4, 5) by simp
qed

section \<open>A sample placement\<close>

definition placed_map_bytes :: bytes where
  "placed_map_bytes =
     [0,0,1,0, 1,0,0,0, 2,0,0,0, 2,0,0,0, 5,0,0,0, 255,255,255,255, 1,0,5,0, 0,0,2,0, 2,0,0,0, 0,0,0,0, 1,0,0,
      0, 0,0,1,0, 0,0,1,0, 1,0,0,0, 3,0,0,0, 0,1,1,10, 1,0,0,0, 255,255,255,255, 0,0,0,0, 2,0,0,0, 0,0,0,0, 0,
      0,0,0, 4,0,0,0, 0,0,0,0, 0,0,0,0, 1,0,0,0, 5,0,0,0, 1,3,1,10, 9,0,0,0, 5,0,0,0, 0,0,0,0, 8,0,0,0, 100,0,
      0,0, 0,0,0,0, 1,0,0,0, 255,255,255,255, 0,0,0,0, 3,0,0,0, 0,0,0,0, 0,0,0,0, 4,0,0,0, 0,0,0,0, 0,0,0,0,
      0,0,0,0, 0,0,0,0, 0,0,0,0, 0,0,0,0, 0,0,0,0, 50,0,0,0, 1,0,0,0, 1,0,22,0, 0,0,1]"

definition placed_limits :: decode_limits where
  "placed_limits = \<lparr>lim_max_bytes = 207, lim_max_buckets = 51, lim_max_rules = 51, lim_max_items = 51, lim_max_names = 51\<rparr>"

lemma decode_numerals:
  "dec_times get (numeral k) d = (let (v, d) = get d; (vs, d) = dec_times get (pred_numeral k) d in (v # vs, d))"
  "decode_rules limits (numeral k) index d rs = decode_rules limits (Suc (pred_numeral k)) index d rs"
  by (simp_all only: numeral_eq_Suc dec_times.simps)

lemma placed_map_decodes: "map_decode placed_map_bytes placed_limits = Inr placed_map"
proof -
  have "ranked placed_map (\<lambda>_. 1)"
    by (simp add: ranked_def item_ok_def placed_map_def initial_map_def MAX_CERTIFIED_DEPTH_def)
  note validate_graph_complete [OF this]
  then show ?thesis
    by (simp add: map_decode_def placed_map_bytes_def placed_limits_def placed_map_def initial_map_def
        MAGIC_def BUCKET_STRAW2_def HASH_RJENKINS1_def dec_eval dec_i32_def from_le_bytes_def
        consume_name_map_def Crush_Map.bounded_count_def decode_tunables_def decode_tail_def decode_step_def
        MAX_CERTIFIED_RETRIES_def rule_ops decode_numerals)
qed

definition sample_placeable :: osd_map where
  "sample_placeable = sample_osdmap\<lparr>om_pools := [(1, sample_pool\<lparr>pool_size := 2\<rparr>)], om_max_osd := 2, om_osd_state := [3, 3],
     om_osd_weight := [0x10000, 0x10000], om_client_addresses := [[], []], om_crush_data := placed_map_bytes\<rparr>"

lemma first_osd_member: "first_osd xs = -1 \<or> first_osd xs \<in> set xs"
  by (auto simp: first_osd_def find_Some_iff split: option.splits)

lemma sample_placement: "\<exists>pl. place_object sample_placeable 1 obj locator namespace = Some (Inr pl)"
proof -
  have crush: "decode_crush_payload sample_placeable = Inr placed_map"
  proof -
    have "length placed_map_bytes = 207" by (simp add: placed_map_bytes_def)
    then show ?thesis using placed_map_decodes map_decode_wf [OF placed_map_decodes]
      by (simp add: decode_crush_payload_def sample_placeable_def validated_map_new_def placed_limits_def)
  qed
  obtain pl0 where pl0: "map_object sample_placeable 1 obj locator namespace = Inr pl0"
    by (simp add: map_object_def map_raw_hash_def sample_placeable_def sample_pool_def OBJECT_HASH_RJENKINS_def
        POOL_FLAG_HASHPSPOOL_def Let_def)
  obtain raw where raw: "place_validated placed_map 0 (pl_placement_seed pl0) 2 [0x10000, 0x10000] = Some (Inr raw)"
    using map_place_certifiable [OF placed_map_wf placed_map_certifiable(1), of "pl_placement_seed pl0" "[0x10000, 0x10000]"]
      placed_map_certifiable(1) by (auto simp: map_place_def certifiable_def)
  have "\<exists>pl. finish_placement sample_placeable (sample_pool\<lparr>pool_size := 2\<rparr>) pl0 raw = Inr pl"
    using first_osd_member
    by (simp add: finish_placement_def validate_upmap_def apply_upmap_def apply_primary_affinity_def temp_mapping_def
        sample_placeable_def sample_osdmap_def sample_pool_def POOL_TYPE_ERASURE_def Let_def)
  moreover have "place_mapped sample_placeable 1 pl0 =
      Some (finish_placement sample_placeable (sample_pool\<lparr>pool_size := 2\<rparr>) pl0 raw)"
    using crush raw
    by (simp add: place_mapped_def sample_placeable_def sample_pool_def POOL_TYPE_ERASURE_def POOL_TYPE_REPLICATED_def)
  ultimately show ?thesis using pl0 by (simp add: place_object_def)
qed

theorem placement_members_up_witness:
  "\<exists>pl. place_object sample_placeable 1 [97] [] [] = Some (Inr pl) \<and> (\<forall>osd \<in> set (pl_up pl). osd_is_up sample_placeable osd)"
proof -
  obtain pl where pl: "place_object sample_placeable 1 [97] [] [] = Some (Inr pl)" using sample_placement by blast
  have "pool_by_id sample_placeable 1 = Some (sample_pool\<lparr>pool_size := 2\<rparr>)"
    by (simp add: pool_by_id_def sample_placeable_def)
  from placement_members_up [OF pl this] pl show ?thesis
    by (auto simp: is_erasure_coded_def sample_pool_def POOL_TYPE_ERASURE_def)
qed

theorem replicated_placement_distinct_witness:
  "\<exists>pl. place_object sample_placeable 1 [97] [] [] = Some (Inr pl) \<and> distinct (pl_up pl) \<and> distinct (pl_acting pl)"
proof -
  obtain pl where pl: "place_object sample_placeable 1 [97] [] [] = Some (Inr pl)" using sample_placement by blast
  have "pool_by_id sample_placeable 1 = Some (sample_pool\<lparr>pool_size := 2\<rparr>)"
    by (simp add: pool_by_id_def sample_placeable_def)
  from replicated_placement_distinct [OF pl this] pl show ?thesis
    by (simp add: is_erasure_coded_def sample_pool_def POOL_TYPE_ERASURE_def sample_placeable_def vectors_ok_def
        sample_osdmap_def i32_range_def)
qed

theorem affinity_reorders_witness:
  "\<exists>osds primary. apply_primary_affinity (sample_placeable\<lparr>om_primary_affinity := [0, 0x10000]\<rparr>) 7 [0, 1] 0 True = (osds, primary) \<and>
     mset osds = {#0, 1#} \<and> hd osds = primary"
proof -
  let ?m = "sample_placeable\<lparr>om_primary_affinity := [0, 0x10000]\<rparr>"
  have r: "apply_primary_affinity ?m 7 [0, 1] 0 True = ([1, 0], 1)"
    by (simp add: apply_primary_affinity_def osd_get_def list_get_def CRUSH_ITEM_NONE_def DEFAULT_PRIMARY_AFFINITY_def)
  show ?thesis using affinity_reorders [OF r] r by simp
qed

end
