(* ===== verification/Maps_Mon.thy ===== *)
theory Maps_Mon
  imports Maps_Osd
begin

text \<open>
  \<open>src/maps/monmap.rs\<close>, \<open>src/maps/mgrmap.rs\<close> and \<open>src/maps/store.rs\<close>: the decoders of the monitor
  and of the manager map, and the store that publishes pairs of a monitor and an OSD map to readers.
\<close>

section \<open>The monitor map\<close>

record monitor =
  mon_name :: rust_string
  mon_addresses :: entity_addr_vec
  mon_priority :: u16
  mon_weight :: u16
  mon_location :: string_map

record mon_map =
  mm_fsid :: fsid
  mm_epoch :: u32
  mm_last_changed :: utime
  mm_created :: utime
  mm_persistent_features :: u64
  mm_optional_features :: u64
  mm_monitors :: "(rust_string \<times> monitor) list"
  mm_ranks :: "rust_string list"
  mm_minimum_monitor_release :: u8
  mm_removed_ranks :: "u32 list"
  mm_election_strategy :: u8
  mm_disallowed_leaders :: "rust_string list"
  mm_stretch_mode :: bool
  mm_tiebreaker_monitor :: rust_string
  mm_stretch_marked_down :: "rust_string list"

definition find_monitor :: "mon_map \<Rightarrow> rust_string \<Rightarrow> monitor option" where
  "find_monitor m name = map_of (mm_monitors m) name"

definition decode_monitor_features :: "decoder \<Rightarrow> map_error + (u64 \<times> decoder)" where
  "decode_monitor_features d =
     (let ((_, p), d) = dec_versioned 1 d in
      rbind (check d) (\<lambda>_.
      let (features, p) = dec_u64 p in
      rbind (check p) (\<lambda>_. Inr (features, d))))"

definition decode_monitor_location :: "decoder \<Rightarrow> map_limits \<Rightarrow> map_error + (string_map \<times> decoder)" where
  "decode_monitor_location d limits =
     rbind (bounded_count d (ml_max_locations limits) 8) (\<lambda>(count, d).
     repeat_dec count (\<lambda>m d. let (key, d) = dec_string d; (v, d) = dec_string d in
       rbind (insert_new ''duplicate monitor location'' key v m) (\<lambda>m. Inr (m, d))) [] d)"

definition decode_monitor :: "decoder \<Rightarrow> map_limits \<Rightarrow> map_error + (monitor \<times> decoder)" where
  "decode_monitor d limits =
     (let ((version, p), d) = dec_versioned 5 d in
      rbind (check d) (\<lambda>_.
      if version < 1 then Inl (MapE_Wire (WE_UnsupportedVersion 5 1))
      else
        let (name, p) = dec_string p in
        rbind (map_err MapE_Wire (addrvec_decode p (ml_max_addresses limits))) (\<lambda>(addresses, p).
        let (priority, p) = (if version \<ge> 2 then dec_u16 p else (0, p));
            (weight, p) = (if version \<ge> 4 then dec_u16 p else (0, p)) in
        rbind (if version \<ge> 5 then decode_monitor_location p limits else Inr ([], p)) (\<lambda>(location, p).
        rbind (check p) (\<lambda>_.
        Inr (\<lparr>mon_name = name, mon_addresses = addresses, mon_priority = priority, mon_weight = weight,
              mon_location = location\<rparr>, d))))))"

definition decode_monitors :: "decoder \<Rightarrow> map_limits \<Rightarrow> map_error + ((rust_string \<times> monitor) list \<times> decoder)" where
  "decode_monitors d limits =
     rbind (bounded_count d (ml_max_monitors limits) 5) (\<lambda>(count, d).
     repeat_dec count (\<lambda>m d. let (key, d) = dec_string d in
       rbind (decode_monitor d limits) (\<lambda>(mon, d).
       if key \<noteq> mon_name mon \<or> map_of m key \<noteq> None
       then Inl (MapE_Malformed ''duplicate or mismatched monitor'')
       else Inr (AList.update key mon m, d))) [] d)"

text \<open>The ranks name monitors of the map, none of them twice.\<close>

fun invalid_rank :: "(rust_string \<times> monitor) list \<Rightarrow> rust_string list \<Rightarrow> rust_string list \<Rightarrow> bool" where
  "invalid_rank monitors seen [] = False"
| "invalid_rank monitors seen (name # names) =
     (map_of monitors name = None \<or> name \<in> set seen \<or> invalid_rank monitors (name # seen) names)"

text \<open>The parts that versions 8 and 9 added: elections, and stretch mode.\<close>

definition decode_elections :: "u8 \<Rightarrow> decoder \<Rightarrow> map_limits \<Rightarrow> map_error + ((u32 list \<times> u8 \<times> rust_string list) \<times> decoder)" where
  "decode_elections version p limits =
     (if version \<ge> 8 then
        rbind (decode_u32s p (ml_max_monitors limits)) (\<lambda>(removed, p).
        let (strategy, p) = dec_u8 p in
        rbind (decode_strings p (ml_max_monitors limits)) (\<lambda>(leaders, p).
        Inr ((removed, strategy, leaders), p)))
      else Inr (([], 0, []), p))"

definition decode_stretch :: "u8 \<Rightarrow> decoder \<Rightarrow> map_limits \<Rightarrow> map_error + ((bool \<times> rust_string \<times> rust_string list) \<times> decoder)" where
  "decode_stretch version p limits =
     (if version \<ge> 9 then
        let (stretch, p) = dec_bool p; (tiebreaker, p) = dec_string p in
        rbind (decode_strings p (ml_max_monitors limits)) (\<lambda>(down, p).
        Inr ((stretch, tiebreaker, down), p))
      else Inr ((False, [], []), p))"

definition decode_monmap :: "bytes \<Rightarrow> map_limits \<Rightarrow> map_error + mon_map" where
  "decode_monmap data limits =
     (if ml_max_bytes limits = 0 \<or> ml_max_monitors limits = 0 \<or> ml_max_addresses limits = 0 \<or> ml_max_locations limits = 0
      then Inl (MapE_Wire WE_LimitExceeded)
      else
        let ((version, p), d) = dec_versioned 9 (dec_new data (unat (ml_max_bytes limits))) in
        rbind (check d) (\<lambda>_.
        if version < 6 then Inl (MapE_Wire (WE_UnsupportedVersion 9 6))
        else
          rbind (decode_fsid p) (\<lambda>(fsid, p).
          let (epoch, p) = dec_u32 p; (last_changed, p) = decode_utime p; (created, p) = decode_utime p in
          rbind (decode_monitor_features p) (\<lambda>(persistent, p).
          rbind (decode_monitor_features p) (\<lambda>(optional, p).
          rbind (decode_monitors p limits) (\<lambda>(monitors, p).
          rbind (decode_strings p (ml_max_monitors limits)) (\<lambda>(ranks, p).
          if length ranks \<noteq> length monitors then Inl (MapE_Malformed ''monitor rank count mismatch'')
          else if invalid_rank monitors [] ranks then Inl (MapE_Malformed ''invalid monitor rank'')
          else
            let (release, p) = (if version \<ge> 7 then dec_u8 p else (0, p)) in
            rbind (decode_elections version p limits) (\<lambda>((removed, strategy, leaders), p).
            rbind (decode_stretch version p limits) (\<lambda>((stretch, tiebreaker, down), p).
            rbind (check p) (\<lambda>_.
            rbind (check d) (\<lambda>_.
            if dec_remaining d \<noteq> 0 then Inl (MapE_Malformed ''trailing monmap bytes'')
            else
              rbind (require_timestamp last_changed) (\<lambda>last_changed.
              rbind (require_timestamp created) (\<lambda>created.
              Inr \<lparr>mm_fsid = fsid, mm_epoch = epoch, mm_last_changed = last_changed, mm_created = created,
                   mm_persistent_features = persistent, mm_optional_features = optional, mm_monitors = monitors,
                   mm_ranks = ranks, mm_minimum_monitor_release = release, mm_removed_ranks = removed,
                   mm_election_strategy = strategy, mm_disallowed_leaders = leaders, mm_stretch_mode = stretch,
                   mm_tiebreaker_monitor = tiebreaker, mm_stretch_marked_down = down\<rparr>)))))))))))))"

section \<open>The manager map\<close>

record mgr_map =
  mgr_epoch :: u32
  mgr_active_gid :: u64
  mgr_available :: bool
  mgr_active_name :: rust_string
  mgr_active_addresses :: entity_addr_vec
  mgr_active_features :: u64

text \<open>
  \<open>MgrMap::active_v2_address\<close>; the outer option is the panic that \<^const>\<open>addr_endpoint\<close> may have.
\<close>

fun find_v2_address :: "entity_addr list \<Rightarrow> entity_addr option option" where
  "find_v2_address [] = Some None"
| "find_v2_address (a # as) =
     (if \<not> addr_is_v2 a then find_v2_address as
      else case addr_endpoint a of
        None \<Rightarrow> None
      | Some None \<Rightarrow> find_v2_address as
      | Some (Some endpoint) \<Rightarrow> if socket_port endpoint \<noteq> 0 then Some (Some a) else find_v2_address as)"

definition active_v2_address :: "mgr_map \<Rightarrow> entity_addr option option" where
  "active_v2_address m = find_v2_address (mgr_active_addresses m)"

definition decode_canonical_bool :: "decoder \<Rightarrow> map_error + (bool \<times> decoder)" where
  "decode_canonical_bool d =
     (let (v, d) = dec_u8 d in
      rbind (check d) (\<lambda>_.
      if v = 0 then Inr (False, d) else if v = 1 then Inr (True, d)
      else Inl (MapE_Malformed ''non-canonical boolean'')))"

text \<open>A counted collection that is read, checked for repeated keys and dropped.\<close>

definition consume_keyed :: "string \<Rightarrow> usize \<Rightarrow> (decoder \<Rightarrow> map_error + ('k \<times> decoder)) \<Rightarrow>
    ('k \<Rightarrow> decoder \<Rightarrow> map_error + decoder) \<Rightarrow> decoder \<Rightarrow> u32 \<Rightarrow> map_error + decoder" where
  "consume_keyed reason minimum_bytes get_key get_value d maximum =
     rbind (bounded_count d maximum minimum_bytes) (\<lambda>(count, d).
     rbind (repeat_dec count (\<lambda>seen d. rbind (get_key d) (\<lambda>(key, d).
       if key \<in> set seen then Inl (MapE_Malformed reason)
       else rbind (get_value key d) (\<lambda>d. Inr (key # seen, d)))) [] d) (\<lambda>(_, d). Inr d))"

definition checked :: "map_error + decoder \<Rightarrow> map_error + decoder" where
  "checked r = rbind r (\<lambda>d. rbind (check d) (\<lambda>_. Inr d))"

definition consume_string_set :: "decoder \<Rightarrow> u32 \<Rightarrow> map_error + decoder" where
  "consume_string_set d maximum =
     checked (consume_keyed ''duplicate string set entry'' 4 (\<lambda>d. Inr (dec_string d)) (\<lambda>_ d. Inr d) d maximum)"

definition consume_always_on_modules :: "decoder \<Rightarrow> u32 \<Rightarrow> map_error + decoder" where
  "consume_always_on_modules d maximum =
     checked (consume_keyed ''duplicate mgr release'' 8 (\<lambda>d. Inr (dec_u32 d)) (\<lambda>_ d. consume_string_set d maximum) d maximum)"

definition consume_module_option :: "decoder \<Rightarrow> u32 \<Rightarrow> map_error + (rust_string \<times> decoder)" where
  "consume_module_option d maximum =
     (let ((version, p), d) = dec_versioned 1 d in
      rbind (check d) (\<lambda>_.
      if version < 1 then Inl (MapE_Wire (WE_UnsupportedVersion 1 1))
      else
        let (name, p) = dec_string p; (_, p) = dec_u8 p; (_, p) = dec_u8 p; (_, p) = dec_u32 p;
            (_, p) = dec_times dec_string 3 p in
        rbind (consume_string_set p maximum) (\<lambda>p.
        let (_, p) = dec_string p; (_, p) = dec_string p in
        rbind (consume_string_set p maximum) (\<lambda>p.
        rbind (consume_string_set p maximum) (\<lambda>p.
        rbind (check p) (\<lambda>_. Inr (name, d)))))))"

definition consume_module_options :: "decoder \<Rightarrow> map_limits \<Rightarrow> map_error + decoder" where
  "consume_module_options d limits =
     checked (consume_keyed ''duplicate mgr module option'' 10 (\<lambda>d. Inr (dec_string d)) (\<lambda>key d.
       rbind (consume_module_option d (ml_max_collection_entries limits)) (\<lambda>(name, d).
       if name \<noteq> key then Inl (MapE_Malformed ''module option key/name mismatch'') else Inr d))
       d (ml_max_collection_entries limits))"

definition consume_module_info :: "decoder \<Rightarrow> map_limits \<Rightarrow> map_error + (rust_string \<times> decoder)" where
  "consume_module_info d limits =
     (let ((version, p), d) = dec_versioned 2 d in
      rbind (check d) (\<lambda>_.
      if version < 1 then Inl (MapE_Wire (WE_UnsupportedVersion 2 1))
      else
        let (name, p) = dec_string p in
        rbind (decode_canonical_bool p) (\<lambda>(_, p).
        let (_, p) = dec_string p in
        rbind (consume_if (version \<ge> 2) (\<lambda>p. consume_module_options p limits) p) (\<lambda>p.
        rbind (check p) (\<lambda>_. Inr (name, d))))))"

definition consume_module_info_vector :: "decoder \<Rightarrow> map_limits \<Rightarrow> map_error + decoder" where
  "consume_module_info_vector d limits =
     checked (consume_keyed ''duplicate mgr module'' 6 (\<lambda>d. consume_module_info d limits) (\<lambda>_ d. Inr d)
       d (ml_max_collection_entries limits))"

definition consume_standby :: "decoder \<Rightarrow> map_limits \<Rightarrow> map_error + (u64 \<times> decoder)" where
  "consume_standby d limits =
     (let ((version, p), d) = dec_versioned 4 d in
      rbind (check d) (\<lambda>_.
      if version < 1 then Inl (MapE_Wire (WE_UnsupportedVersion 4 1))
      else
        let (gid, p) = dec_u64 p; (_, p) = dec_string p in
        rbind (consume_if (version \<ge> 2) (\<lambda>p. consume_string_set p (ml_max_collection_entries limits)) p) (\<lambda>p.
        rbind (consume_if (version \<ge> 3) (\<lambda>p. consume_module_info_vector p limits) p) (\<lambda>p.
        let p = skip_if (version \<ge> 4) skip_u64 p in
        rbind (check p) (\<lambda>_. Inr (gid, d))))))"

definition consume_standbys :: "decoder \<Rightarrow> u8 \<Rightarrow> map_limits \<Rightarrow> map_error + decoder" where
  "consume_standbys d version limits =
     rbind (consume_keyed ''duplicate mgr standby'' 14 (\<lambda>d. Inr (dec_u64 d)) (\<lambda>key d.
       rbind (consume_standby d limits) (\<lambda>(gid, d).
       if key \<noteq> gid then Inl (MapE_Malformed ''standby key/GID mismatch'') else Inr d))
       d (ml_max_collection_entries limits)) (\<lambda>d.
     if version < 6 then Inl (MapE_Wire (WE_UnsupportedVersion 14 6))
     else rbind (check d) (\<lambda>_. Inr d))"

text \<open>The addresses of the manager's clients, and from version 12 on as many names.\<close>

definition consume_mgr_clients :: "u8 \<Rightarrow> map_limits \<Rightarrow> decoder \<Rightarrow> map_error + decoder" where
  "consume_mgr_clients version limits p =
     rbind (bounded_count p (ml_max_collection_entries limits) 1) (\<lambda>(count, p).
     rbind (repeat_dec count (\<lambda>_ p. rbind (map_err MapE_Wire (addrvec_decode p (ml_max_addresses limits))) (\<lambda>(_, p). Inr ((), p)))
       () p) (\<lambda>(_, p).
     consume_if (version \<ge> 12) (\<lambda>p.
       rbind (decode_strings p (ml_max_collection_entries limits)) (\<lambda>(names, p).
       if length names \<noteq> count then Inl (MapE_Malformed ''mgr client name/address count mismatch'') else Inr p)) p))"

definition decode_mgrmap :: "bytes \<Rightarrow> map_limits \<Rightarrow> map_error + mgr_map" where
  "decode_mgrmap data limits =
     (if ml_max_bytes limits = 0 \<or> ml_max_addresses limits = 0 \<or> ml_max_collection_entries limits = 0
      then Inl (MapE_Wire WE_LimitExceeded)
      else
        let ((version, p), d) = dec_versioned 14 (dec_new data (unat (ml_max_bytes limits))) in
        rbind (check d) (\<lambda>_.
        if version < 6 then Inl (MapE_Wire (WE_UnsupportedVersion 14 6))
        else
          let (epoch, p) = dec_u32 p in
          rbind (map_err MapE_Wire (addrvec_decode p (ml_max_addresses limits))) (\<lambda>(addresses, p).
          let (gid, p) = dec_u64 p in
          rbind (decode_canonical_bool p) (\<lambda>(available, p).
          let (name, p) = dec_string p in
          rbind (consume_standbys p version limits) (\<lambda>p.
          rbind (consume_string_set p (ml_max_collection_entries limits)) (\<lambda>p.
          rbind (decode_string_map p (ml_max_collection_entries limits)) (\<lambda>(_, p).
          rbind (consume_module_info_vector p limits) (\<lambda>p.
          rbind (consume_if (version \<ge> 7) (\<lambda>p. let (t, p) = decode_utime p in
            rbind (require_timestamp t) (\<lambda>_. Inr p)) p) (\<lambda>p.
          rbind (consume_if (version \<ge> 8) (\<lambda>p. consume_always_on_modules p (ml_max_collection_entries limits)) p) (\<lambda>p.
          let (features, p) = (if version \<ge> 9 then dec_u64 p else (0, p));
              p = skip_if (version \<ge> 10) skip_u32 p in
          rbind (consume_if (version \<ge> 11) (consume_mgr_clients version limits) p) (\<lambda>p.
          let p = skip_if (version \<ge> 13) skip_u64 p in
          rbind (consume_if (version \<ge> 14) (\<lambda>p. consume_string_set p (ml_max_collection_entries limits)) p) (\<lambda>p.
          rbind (check p) (\<lambda>_.
          rbind (check d) (\<lambda>_.
          if dec_remaining d \<noteq> 0 then Inl (MapE_Malformed ''trailing mgrmap bytes'')
          else Inr \<lparr>mgr_epoch = epoch, mgr_active_gid = gid, mgr_available = available, mgr_active_name = name,
                     mgr_active_addresses = addresses, mgr_active_features = features\<rparr>))))))))))))))"

section \<open>The store of published maps\<close>

record map_snapshot =
  sn_monmap :: mon_map
  sn_osdmap :: osd_map

definition snapshot_new :: "mon_map \<Rightarrow> osd_map \<Rightarrow> map_error + map_snapshot" where
  "snapshot_new monmap osdmap =
     (if mm_fsid monmap \<noteq> om_fsid osdmap then Inl MapE_FsidMismatch
      else Inr \<lparr>sn_monmap = monmap, sn_osdmap = osdmap\<rparr>)"

definition snapshot_fsid :: "map_snapshot \<Rightarrow> fsid" where
  "snapshot_fsid s = om_fsid (sn_osdmap s)"

text \<open>
  The lock is poisoned only by a panic of a thread that holds it for writing; \<open>store_poisoned\<close> is
  that state of the lock.
\<close>

record map_store =
  history_limit :: usize
  store_current :: map_snapshot
  store_history :: "map_snapshot list"
  store_poisoned :: bool

definition store_new :: "map_snapshot \<Rightarrow> usize \<Rightarrow> map_store" where
  "store_new initial limit =
     \<lparr>history_limit = limit, store_current = initial, store_history = [], store_poisoned = False\<rparr>"

definition store_load :: "map_store \<Rightarrow> map_error + map_snapshot" where
  "store_load st = (if store_poisoned st then Inl MapE_LockPoisoned else Inr (store_current st))"

definition store_publish :: "map_snapshot \<Rightarrow> map_store \<Rightarrow> (map_error + map_snapshot) \<times> map_store" where
  "store_publish next st =
     (if store_poisoned st then (Inl MapE_LockPoisoned, st)
      else if snapshot_fsid next \<noteq> snapshot_fsid (store_current st) then (Inl MapE_FsidMismatch, st)
      else if om_epoch (sn_osdmap next) \<le> om_epoch (sn_osdmap (store_current st)) \<or>
          mm_epoch (sn_monmap next) < mm_epoch (sn_monmap (store_current st))
      then (Inl MapE_InvalidSequence, st)
      else
        let st' = st\<lparr>store_current := next\<rparr> in
        (Inr next,
         if history_limit st \<noteq> 0
         then st'\<lparr>store_history := take (history_limit st) (store_current st # store_history st)\<rparr> else st'))"

definition history :: "map_store \<Rightarrow> map_error + map_snapshot list" where
  "history st = (if store_poisoned st then Inl MapE_LockPoisoned else Inr (store_history st))"

section \<open>Decoded monitor maps\<close>

definition monitor_wf :: "monitor \<Rightarrow> bool" where
  "monitor_wf mon \<longleftrightarrow> list_all addr_wf (mon_addresses mon) \<and> alist_inv (mon_location mon)"

definition monitors_wf :: "(rust_string \<times> monitor) list \<Rightarrow> bool" where
  "monitors_wf ms \<longleftrightarrow> alist_inv ms \<and> (\<forall>name mon. map_of ms name = Some mon \<longrightarrow> mon_name mon = name \<and> monitor_wf mon)"

definition monmap_wf :: "mon_map \<Rightarrow> bool" where
  "monmap_wf m \<longleftrightarrow> length (mm_fsid m) = 16 \<and> monitors_wf (mm_monitors m) \<and>
     distinct (mm_ranks m) \<and> set (mm_ranks m) = fst ` set (mm_monitors m) \<and>
     ut_nanoseconds (mm_last_changed m) < 1000000000 \<and> ut_nanoseconds (mm_created m) < 1000000000"

lemma invalid_rank_iff:
  "\<not> invalid_rank ms seen names \<longleftrightarrow>
     distinct names \<and> set names \<subseteq> fst ` set ms \<and> set names \<inter> set seen = {}"
  by (induction names arbitrary: seen) (auto simp: map_of_eq_None_iff)

lemma ranks_cover:
  assumes "alist_inv ms" "length ranks = length ms" "\<not> invalid_rank ms [] ranks"
  shows "distinct ranks \<and> set ranks = fst ` set ms"
proof -
  have r: "distinct ranks" "set ranks \<subseteq> set (map fst ms)" using assms(3) by (auto simp: invalid_rank_iff)
  moreover have "card (set ranks) = card (set (map fst ms))"
    using r(1) assms(1, 2) by (simp only: distinct_card alist_inv_def length_map)
  ultimately show ?thesis using card_subset_eq [of "set (map fst ms)" "set ranks"] by simp
qed

lemma decode_monitor_location_inv:
  assumes "decode_monitor_location d limits = Inr (m, d')"
  shows "alist_inv m"
proof -
  obtain count d1 where "repeat_dec count (\<lambda>m d. let (key, d) = dec_string d; (v, d) = dec_string d in
       rbind (insert_new ''duplicate monitor location'' key v m) (\<lambda>m. Inr (m, d))) [] d1 = Inr (m, d')"
    using assms by (fastforce simp: decode_monitor_location_def)
  then show ?thesis
  proof (rule repeat_dec_inv, goal_cases)
    case (2 m e m' e')
    then show ?case by (auto simp: Let_def split: prod.splits dest: insert_new_inv)
  qed (simp add: alist_inv_def)
qed

lemma decode_monitor_wf:
  assumes "decode_monitor d limits = Inr (mon, d')"
  shows "monitor_wf mon"
  using assms
  by (auto simp: decode_monitor_def Let_def monitor_wf_def alist_inv_def [of "[]"] split: prod.splits if_splits
      dest!: addrvec_decode_all_wf decode_monitor_location_inv)

lemma decode_monitors_wf:
  assumes "decode_monitors d limits = Inr (ms, d')"
  shows "monitors_wf ms"
proof -
  obtain count d1 where "repeat_dec count (\<lambda>m d. let (key, d) = dec_string d in
       rbind (decode_monitor d limits) (\<lambda>(mon, d).
       if key \<noteq> mon_name mon \<or> map_of m key \<noteq> None
       then Inl (MapE_Malformed ''duplicate or mismatched monitor'')
       else Inr (AList.update key mon m, d))) [] d1 = Inr (ms, d')"
    using assms by (fastforce simp: decode_monitors_def)
  then show ?thesis
  proof (rule repeat_dec_inv, goal_cases)
    case 1
    then show ?case by (simp add: monitors_wf_def alist_inv_def)
  next
    case (2 m e m' e')
    then obtain mon k k' where mon: "decode_monitor k limits = Inr (mon, k')"
        and m': "m' = AList.update (mon_name mon) mon m"
      by (auto simp: Let_def split: prod.splits if_splits)
    show ?case using 2(1) decode_monitor_wf [OF mon] unfolding m'
      by (simp add: monitors_wf_def alist.inv_ins alist.map_of_ins)
  qed
qed

lemma require_timestamp_Inr [simp]:
  "require_timestamp t = Inr t' \<longleftrightarrow> t' = t \<and> ut_nanoseconds t < 1000000000"
  by (auto simp: require_timestamp_def)

text \<open>C36: Every monitor map the decoder accepts is well formed: every monitor is stored under its own
  name with addresses that have an endpoint, the ranks list every monitor exactly once, and both time
  stamps are times.\<close>

theorem decode_monmap_wf:
  assumes "decode_monmap data limits = Inr m"
  shows "monmap_wf m"
proof -
  obtain d1 d2 d3 d4 uuid where p: "decode_fsid d1 = Inr (uuid, d2)" "decode_monitors d3 limits = Inr (mm_monitors m, d4)"
      "length (mm_ranks m) = length (mm_monitors m)" "\<not> invalid_rank (mm_monitors m) [] (mm_ranks m)"
      "mm_fsid m = uuid" "ut_nanoseconds (mm_last_changed m) < 1000000000" "ut_nanoseconds (mm_created m) < 1000000000"
    using assms by (auto simp: decode_monmap_def Let_def case_prod_beta split: if_splits)
  show ?thesis using decode_fsid_length [OF p(1)] decode_monitors_wf [OF p(2)] ranks_cover [OF _ p(3, 4)] p(5-7)
    by (simp add: monmap_wf_def monitors_wf_def)
qed

text \<open>A map of one monitor without addresses.\<close>

definition sample_monmap_bytes :: bytes where
  "sample_monmap_bytes = versioned_image 6 1 (replicate 16 9 @
     [3,0,0,0, 1,0,0,0, 2,0,0,0, 1,0,0,0, 2,0,0,0, 1,1,8,0,0,0, 5,0,0,0,0,0,0,0, 1,1,8,0,0,0, 0,0,0,0,0,0,0,0,
      1,0,0,0, 1,0,0,0,97, 1,1,10,0,0,0, 1,0,0,0,97, 2,0,0,0,0, 1,0,0,0, 1,0,0,0,97])"

definition sample_monmap :: mon_map where
  "sample_monmap = \<lparr>mm_fsid = replicate 16 9, mm_epoch = 3, mm_last_changed = \<lparr>ut_seconds = 1, ut_nanoseconds = 2\<rparr>,
     mm_created = \<lparr>ut_seconds = 1, ut_nanoseconds = 2\<rparr>, mm_persistent_features = 5, mm_optional_features = 0,
     mm_monitors = [([97], \<lparr>mon_name = [97], mon_addresses = [], mon_priority = 0, mon_weight = 0, mon_location = []\<rparr>)],
     mm_ranks = [[97]], mm_minimum_monitor_release = 0, mm_removed_ranks = [], mm_election_strategy = 0,
     mm_disallowed_leaders = [], mm_stretch_mode = False, mm_tiebreaker_monitor = [], mm_stretch_marked_down = []\<rparr>"

lemma sample_monmap_decodes: "decode_monmap sample_monmap_bytes sample_map_limits = Inr sample_monmap"
proof -
  have "\<not> 5 \<le> (1 :: u8)" "\<not> 4 \<le> (1 :: u8)" "\<not> 2 \<le> (1 :: u8)" by (simp_all add: word_le_nat_alt)
  then show ?thesis unfolding sample_monmap_bytes_def
    by (simp add: decode_monmap_def decode_fsid_def decode_utime_def decode_monitor_features_def decode_monitors_def
      decode_monitor_def decode_elections_def decode_stretch_def bounded_count_def decode_strings_def decode_list_def
      addrvec_decode_def dec_eval from_le_bytes_def dec_versioned_def [of _ "rdr _ (_ # _) _"] dec_take_rdr dec_raw_literal
      dec_string_def dec_lbytes_def utf8_lossy.simps utf8_prefix.simps require_timestamp_def
      sample_map_limits_def sample_monmap_def)
qed

theorem decode_monmap_wf_witness: "monmap_wf sample_monmap"
  using decode_monmap_wf [OF sample_monmap_decodes] .

section \<open>The store keeps the newest published maps\<close>

text \<open>
  What the store is meant to hold: the log of the accepted snapshots, the newest first.  A snapshot is
  accepted if it is of the same cluster, its OSD map is newer and its monitor map is not older.
\<close>

definition supersedes :: "map_snapshot \<Rightarrow> map_snapshot \<Rightarrow> bool" where
  "supersedes next current \<longleftrightarrow> snapshot_fsid next = snapshot_fsid current \<and>
     om_epoch (sn_osdmap current) < om_epoch (sn_osdmap next) \<and> mm_epoch (sn_monmap current) \<le> mm_epoch (sn_monmap next)"

definition log_publish :: "map_snapshot \<Rightarrow> map_snapshot list \<Rightarrow> map_snapshot list" where
  "log_publish next log = (if supersedes next (hd log) then next # log else log)"

definition store_of :: "usize \<Rightarrow> map_snapshot list \<Rightarrow> map_store" where
  "store_of limit log = \<lparr>history_limit = limit, store_current = hd log, store_history = take limit (tl log),
     store_poisoned = False\<rparr>"

lemma store_publish_log:
  assumes "log \<noteq> []"
  shows "snd (store_publish next (store_of limit log)) = store_of limit (log_publish next log)"
    and "is_ok (fst (store_publish next (store_of limit log))) \<longleftrightarrow> supersedes next (hd log)"
proof -
  obtain s ss where log: "log = s # ss" using assms by (cases log) auto
  show "snd (store_publish next (store_of limit log)) = store_of limit (log_publish next log)"
    by (auto simp: log store_publish_def store_of_def log_publish_def supersedes_def Let_def min_def take_Cons' not_le not_less)
  show "is_ok (fst (store_publish next (store_of limit log))) \<longleftrightarrow> supersedes next (hd log)"
    by (auto simp: log store_publish_def store_of_def supersedes_def Let_def)
qed

lemma log_ordered:
  assumes "log \<noteq> []" "sorted_wrt supersedes log"
  shows "fold log_publish ss log \<noteq> [] \<and> sorted_wrt supersedes (fold log_publish ss log)"
  using assms
proof (induction ss arbitrary: log)
  case (Cons s ss)
  have "sorted_wrt supersedes (s # log)" if "supersedes s (hd log)"
  proof -
    have "transp supersedes" by (auto simp: transp_def supersedes_def intro: order.strict_trans order.trans)
    then show ?thesis using that Cons.prems by (cases log) (auto simp: transp_def)
  qed
  then show ?case using Cons by (simp add: log_publish_def)
qed simp

text \<open>C35: Whatever snapshots are published, in whatever order, the store refines a log of the accepted
  ones: its current snapshot is the newest of them and its history the ones before it, newest first
  and up to the configured number.  In the log every snapshot supersedes all before it: the same
  cluster, a newer OSD map, a monitor map that is not older.\<close>

theorem store_refines_log:
  "fold (\<lambda>next st. snd (store_publish next st)) published (store_new initial limit) =
     store_of limit (fold log_publish published [initial]) \<and>
   sorted_wrt supersedes (fold log_publish published [initial])"
proof -
  have "fold (\<lambda>next st. snd (store_publish next st)) published (store_of limit log) =
      store_of limit (fold log_publish published log)" if "log \<noteq> []" for log
    using that
  proof (induction published arbitrary: log)
    case (Cons s ss)
    have "log_publish s log \<noteq> []" using Cons.prems by (simp add: log_publish_def)
    then show ?case using Cons.IH store_publish_log(1) [OF Cons.prems, of s limit] by simp
  qed simp
  moreover have "store_new initial limit = store_of limit [initial]" by (simp add: store_new_def store_of_def)
  ultimately show ?thesis using log_ordered [of "[initial]" published] by simp
qed

section \<open>Decoded manager maps\<close>

lemma find_v2_address_total:
  assumes "list_all addr_wf as"
  shows "\<exists>r. find_v2_address as = Some r \<and> (\<forall>a. r = Some a \<longrightarrow> a \<in> set as \<and> addr_is_v2 a)"
  using assms
proof (induction as)
  case (Cons a as)
  then obtain endpoint where "addr_endpoint a = Some endpoint" using addr_endpoint_wf [of a] by auto
  then show ?case using Cons by (auto split: option.splits)
qed simp

text \<open>The address of the active manager is found without a panic in every decoded map.\<close>

lemma decoded_active_address:
  assumes "decode_mgrmap data limits = Inr m"
  shows "\<exists>r. active_v2_address m = Some r \<and> (\<forall>a. r = Some a \<longrightarrow> a \<in> set (mgr_active_addresses m) \<and> addr_is_v2 a)"
proof -
  obtain p p' where "addrvec_decode p (ml_max_addresses limits) = Inr (mgr_active_addresses m, p')"
    using assms by (auto simp: decode_mgrmap_def Let_def case_prod_beta split: if_splits)
  then show ?thesis using find_v2_address_total addrvec_decode_all_wf by (simp add: active_v2_address_def)
qed

end
