(* ===== verification/Spec2Isabelle.thy ===== *)
theory Spec2Isabelle
  imports Protocol Crush_Place Msgr_Message Msgr_Secure Msgr_Session_Trace Maps_Place Maps_Mon
begin

text \<open>
  A verification library for \<open>rados-rs\<close>, a RADOS client in Rust.

  The theories follow the layers of the crate.

  \<^item> \<open>Rados_Prelude\<close>: machine types, results, little-endian integers, ordered and hashed maps,
    panicking indexing, and loops that may not end.
  \<^item> \<open>Utf8\<close>: \<open>String::from_utf8_lossy\<close> of the standard library.
  \<^item> \<open>Wire\<close>: the bounded encoder and the sticky-error decoder of \<open>src/wire\<close>.
  \<^item> \<open>Protocol\<close>: errors, errno values, feature masks and addresses (\<open>src/error.rs\<close>,
    \<open>src/protocol\<close>).
  \<^item> \<open>Crush_Hash\<close>, \<open>Crush_Ln\<close>, \<open>Crush_Map\<close>, \<open>Crush_Place\<close>: CRUSH (\<open>src/crush\<close>).
\<close>

end
